(* ===== verification/Dup_Prelude.thy ===== *)
theory Dup_Prelude
  imports Main "HOL-Library.Word" "HOL-Library.Char_ord" "HOL-Library.List_Lexorder"
begin

unbundle bit_operations_syntax

text \<open>
  Shared vocabulary of the development: the lemma collections the component theories
  extend, the operations of \<open>std::string\<close> and of \<open>std::ostream\<close> that the code calls
  (\<open>find\<close>, \<open>substr\<close>, C-string conversion, decimal printing with \<open>setw\<close> and
  \<open>setfill\<close>), and list lemmas about them. Strings are lists of bytes, as in the code.
\<close>

named_theorems cpp_string \<open>facts about the operations of std::string\<close>
named_theorems dup_unfold \<open>definitions that component proofs unfold together\<close>

type_synonym uint32 = "32 word"
type_synonym size_t = "64 word"
type_synonym key_val = "string \<times> string"
type_synonym key_val_list = "(string \<times> string) list"

abbreviation NL :: char where "NL \<equiv> CHR 0x0A"
abbreviation CRchar :: char where "CRchar \<equiv> CHR 0x0D"
abbreviation NUL :: char where "NUL \<equiv> CHR 0x00"

section \<open>Operations of std::string\<close>

text \<open>\<open>s.find(c)\<close>: the position of the first occurrence, \<open>None\<close> for \<open>npos\<close>.\<close>

fun find_char :: "char \<Rightarrow> string \<Rightarrow> nat option" where
  "find_char c [] = None"
| "find_char c (x # xs) = (if x = c then Some 0 else map_option Suc (find_char c xs))"

text \<open>\<open>s.find(t)\<close> for a string \<open>t\<close>.\<close>

fun find_str :: "string \<Rightarrow> string \<Rightarrow> nat option" where
  "find_str t [] = (if t = [] then Some 0 else None)"
| "find_str t (x # xs) =
     (if take (length t) (x # xs) = t then Some 0 else map_option Suc (find_str t xs))"

text \<open>\<open>s.substr(pos, len)\<close>: \<open>None\<close> is the exception \<open>std::out_of_range\<close>, raised
  when \<open>pos\<close> is past the end; the length is clipped.\<close>

definition substr :: "string \<Rightarrow> nat \<Rightarrow> nat \<Rightarrow> string option" where
  "substr s pos len = (if pos \<le> length s then Some (take len (drop pos s)) else None)"

text \<open>\<open>std::string(s.c_str())\<close>: what a C function sees of a string.\<close>

definition c_str :: "string \<Rightarrow> string" where
  "c_str s = takeWhile (\<lambda>c. c \<noteq> NUL) s"

text \<open>\<open>tolower\<close> of the C locale on an \<open>unsigned char\<close>.\<close>

definition tolower :: "char \<Rightarrow> nat" where
  "tolower c = (let n = of_char c in if 65 \<le> n \<and> n \<le> 90 then n + 32 else (n :: nat))"

section \<open>Decimal output\<close>

definition digit :: "nat \<Rightarrow> char" where
  "digit d = char_of (48 + d)"

fun show_nat :: "nat \<Rightarrow> string" where
  "show_nat n = (if n < 10 then [digit n] else show_nat (n div 10) @ [digit (n mod 10)])"

declare show_nat.simps [simp del]

definition show_int :: "int \<Rightarrow> string" where
  "show_int i = (if i < 0 then CHR ''-'' # show_nat (nat (- i)) else show_nat (nat i))"

text \<open>\<open>setfill(c) << setw(w)\<close> before a number: pads on the left, never truncates.\<close>

definition pad_left :: "nat \<Rightarrow> char \<Rightarrow> string \<Rightarrow> string" where
  "pad_left w c s = replicate (w - length s) c @ s"

section \<open>Lines of a stream\<close>

text \<open>The lines that repeated \<open>std::getline\<close> calls deliver: a last line without a
  newline is delivered, an empty rest is not.\<close>

fun getlines :: "string \<Rightarrow> string \<Rightarrow> string list" where
  "getlines acc [] = (if acc = [] then [] else [rev acc])"
| "getlines acc (x # xs) = (if x = NL then rev acc # getlines [] xs else getlines (x # acc) xs)"

abbreviation lines_of :: "string \<Rightarrow> string list" where "lines_of \<equiv> getlines []"

text \<open>The pieces between the occurrences of a separator, empty ones included.\<close>

fun split_on :: "'a \<Rightarrow> 'a list \<Rightarrow> 'a list list" where
  "split_on c [] = [[]]"
| "split_on c (x # xs) =
     (if x = c then [] # split_on c xs
      else (case split_on c xs of [] \<Rightarrow> [[x]] | w # ws \<Rightarrow> (x # w) # ws))"

section \<open>Lemmas about the string operations\<close>

lemma find_char_None [cpp_string]: "find_char c s = None \<longleftrightarrow> c \<notin> set s"
  by (induction s) auto

lemma find_char_append [cpp_string]:
  "c \<notin> set s \<Longrightarrow> find_char c (s @ c # t) = Some (length s)"
  by (induction s) auto

lemma find_char_Some:
  "find_char c s = Some i \<Longrightarrow> i < length s \<and> s ! i = c \<and> c \<notin> set (take i s)"
proof (induction s arbitrary: i)
  case Nil
  then show ?case by simp
next
  case (Cons x xs)
  then show ?case by (cases i) (auto split: if_splits)
qed

lemma find_str_append [cpp_string]:
  assumes "t \<noteq> []" and "hd t \<notin> set s"
  shows "find_str t (s @ t @ r) = Some (length s)"
  using assms
proof (induction s)
  case Nil
  then show ?case by (cases t) auto
next
  case (Cons x xs)
  then have "take (length t) (x # xs @ t @ r) \<noteq> t" by (cases t) auto
  with Cons show ?case by simp
qed

lemma substr_append_mid [cpp_string]:
  "substr (p @ m @ q) (length p) (length m) = Some m"
  by (simp add: substr_def)

lemma substr_append_at [cpp_string]:
  "length p = i \<Longrightarrow> length m = n \<Longrightarrow> substr (p @ m @ q) i n = Some m"
  by (auto simp: substr_def)

lemma substr_rest [cpp_string]: "i \<le> length s \<Longrightarrow> substr s i (length s - i) = Some (drop i s)"
  by (simp add: substr_def)

lemma c_str_no_NUL [simp]: "NUL \<notin> set (c_str s)"
  by (auto simp: c_str_def dest: set_takeWhileD)

lemma c_str_id [simp]: "NUL \<notin> set s \<Longrightarrow> c_str s = s"
  by (auto simp: c_str_def takeWhile_eq_all_conv)

lemma length_pad_left [simp]: "length (pad_left w c s) = max w (length s)"
  by (simp add: pad_left_def)

lemma show_nat_nonempty [simp]: "show_nat n \<noteq> []"
  by (subst show_nat.simps) simp

lemma length_show_nat:
  "0 < k \<Longrightarrow> n < 10 ^ k \<Longrightarrow> length (show_nat n) \<le> k"
proof (induction k arbitrary: n)
  case 0
  then show ?case by simp
next
  case (Suc k)
  show ?case
  proof (cases "n < 10")
    case True
    then show ?thesis by (subst show_nat.simps) simp
  next
    case False
    with Suc.prems have "0 < k" by (cases k) auto
    moreover from Suc.prems have "n div 10 < 10 ^ k" by (simp add: less_mult_imp_div_less mult.commute)
    ultimately have "length (show_nat (n div 10)) \<le> k" by (rule Suc.IH)
    with False show ?thesis by (subst show_nat.simps) simp
  qed
qed

lemma getlines_line [cpp_string]:
  "NL \<notin> set s \<Longrightarrow> getlines acc (s @ NL # t) = (rev acc @ s) # getlines [] t"
  by (induction s arbitrary: acc) auto

lemma lines_of_concat [cpp_string]:
  "(\<And>l. l \<in> set ls \<Longrightarrow> NL \<notin> set l) \<Longrightarrow> lines_of (concat (map (\<lambda>l. l @ [NL]) ls)) = ls"
  by (induction ls) (simp_all add: getlines_line)

lemma split_on_nonempty [simp]: "split_on c s \<noteq> []"
  by (induction s) (auto split: list.splits)

lemma split_on_no_sep [cpp_string]: "c \<notin> set s \<Longrightarrow> split_on c s = [s]"
  by (induction s) auto

lemma split_on_append [cpp_string]:
  "c \<notin> set s \<Longrightarrow> split_on c (s @ c # t) = s # split_on c t"
  by (induction s) auto

section \<open>Reading decimal digits back\<close>

definition is_digit :: "char \<Rightarrow> bool" where
  "is_digit c \<longleftrightarrow> 48 \<le> (of_char c :: nat) \<and> (of_char c :: nat) \<le> 57"

definition digit_val :: "char \<Rightarrow> nat" where
  "digit_val c = of_char c - 48"

definition dec_value :: "string \<Rightarrow> nat" where
  "dec_value s = foldl (\<lambda>n c. 10 * n + digit_val c) 0 s"

lemma of_char_digit [simp]: "d < 10 \<Longrightarrow> of_char (digit d) = (48 + d :: nat)"
  by (simp add: digit_def)

lemma is_digit_digit [simp]: "d < 10 \<Longrightarrow> is_digit (digit d)"
  by (simp add: is_digit_def)

lemma digit_val_digit [simp]: "d < 10 \<Longrightarrow> digit_val (digit d) = d"
  by (simp add: digit_val_def)

lemma dec_value_snoc [simp]: "dec_value (s @ [c]) = 10 * dec_value s + digit_val c"
  by (simp add: dec_value_def)

lemma dec_value_Nil [simp]: "dec_value [] = 0"
  by (simp add: dec_value_def)

lemma dec_value_zeros: "dec_value (replicate k (CHR ''0'') @ s) = dec_value s"
proof -
  have "foldl (\<lambda>n c. 10 * n + digit_val c) 0 (replicate k (CHR ''0'')) = 0"
    by (induction k) (simp_all add: digit_val_def)
  then show ?thesis by (simp add: dec_value_def)
qed

lemma show_nat_digits: "list_all is_digit (show_nat n)"
proof (induction n rule: show_nat.induct)
  case (1 n)
  show ?case
  proof (cases "n < 10")
    case True
    then show ?thesis by (subst show_nat.simps) simp
  next
    case False
    then show ?thesis by (subst show_nat.simps) (simp add: "1.IH")
  qed
qed

lemma dec_value_show_nat [simp]: "dec_value (show_nat n) = n"
proof (induction n rule: show_nat.induct)
  case (1 n)
  show ?case
  proof (cases "n < 10")
    case True
    then show ?thesis by (subst show_nat.simps) (simp add: dec_value_def)
  next
    case False
    then show ?thesis by (subst show_nat.simps) (simp add: "1.IH")
  qed
qed

lemma dec_value_pad_zero [simp]: "dec_value (pad_left w (CHR ''0'') (show_nat n)) = n"
  by (simp add: pad_left_def dec_value_zeros)

lemma pad_zero_digits: "list_all is_digit (pad_left w (CHR ''0'') (show_nat n))"
proof -
  have "is_digit (CHR ''0'')" by (simp add: is_digit_def)
  then have "list_all is_digit (replicate k (CHR ''0''))" for k
    by (induction k) simp_all
  then show ?thesis by (simp add: pad_left_def show_nat_digits)
qed

section \<open>Words as numbers\<close>

lemma unat_of_nat_small: "n < 2 ^ LENGTH('a) \<Longrightarrow> unat (of_nat n :: 'a::len word) = n"
  by (simp add: unat_of_nat)

lemma unat_minus_of_nat:
  "n \<le> unat (w :: 'a::len word) \<Longrightarrow> unat (w - of_nat n) = unat w - n"
proof -
  assume n: "n \<le> unat w"
  then have "n < 2 ^ LENGTH('a)" using unsigned_less [of w] by (rule le_less_trans)
  then have "unat (of_nat n :: 'a word) = n" by (rule unat_of_nat_small)
  with n show ?thesis by (simp add: unat_sub word_le_nat_alt)
qed

lemma unat_plus_one: "unat w + 1 < 2 ^ LENGTH('a) \<Longrightarrow> unat (w + 1 :: 'a::len word) = unat w + 1"
  by (simp add: unat_word_ariths)

lemma unat_ucast_32_64: "unat (ucast (w :: uint32) :: size_t) = unat w"
  by (simp add: unsigned_ucast_eq take_bit_nat_eq_self less_trans [OF unsigned_less])

lemma unat_less_32: "unat (w :: uint32) < 2 ^ 32"
  using unsigned_less [of w] by simp

lemma unat_less_64: "unat (w :: size_t) < 2 ^ 64"
  using unsigned_less [of w] by simp

end
