(* ===== verification/Std_Map.thy ===== *)
theory Std_Map
  imports Dup_Prelude
begin

text \<open>
  The ordered containers of the C++ standard library that the modules keep their
  configuration and headers in. A \<open>std::map\<close> is an association list in strictly
  ascending key order, so that iteration order is the list order; a
  \<open>std::multimap\<close> with a user comparator is an association list kept sorted by that
  comparator. The interface a client of a map relies on is the locale
  \<open>ordered_map\<close>, the one a client of a multimap relies on is
  \<open>multimap_order\<close>; the first is interpreted here on the list operations, the second
  where the code's comparator is defined.
\<close>

type_synonym ('k, 'v) std_map = "('k \<times> 'v) list"

section \<open>std::map\<close>

text \<open>\<open>m.find(k)\<close>, \<open>m[k] = v\<close>, \<open>m.insert({k, v})\<close> (keeps an existing
  entry), \<open>m.erase(k)\<close>, and \<open>m[k]\<close> used as a reference that is then modified
  (a missing key is first given the default value).\<close>

fun map_find :: "('k::linorder, 'v) std_map \<Rightarrow> 'k \<Rightarrow> 'v option" where
  "map_find [] k = None"
| "map_find ((k', v') # m) k =
     (if k' < k then map_find m k else if k' = k then Some v' else None)"

fun map_put :: "'k::linorder \<Rightarrow> 'v \<Rightarrow> ('k, 'v) std_map \<Rightarrow> ('k, 'v) std_map" where
  "map_put k v [] = [(k, v)]"
| "map_put k v ((k', v') # m) =
     (if k' < k then (k', v') # map_put k v m
      else if k' = k then (k, v) # m
      else (k, v) # (k', v') # m)"

definition map_insert :: "'k::linorder \<Rightarrow> 'v \<Rightarrow> ('k, 'v) std_map \<Rightarrow> ('k, 'v) std_map" where
  "map_insert k v m = (case map_find m k of None \<Rightarrow> map_put k v m | Some _ \<Rightarrow> m)"

fun map_erase :: "'k::linorder \<Rightarrow> ('k, 'v) std_map \<Rightarrow> ('k, 'v) std_map" where
  "map_erase k [] = []"
| "map_erase k ((k', v') # m) =
     (if k' < k then (k', v') # map_erase k m else if k' = k then m else (k', v') # m)"

definition map_modify ::
    "'k::linorder \<Rightarrow> 'v \<Rightarrow> ('v \<Rightarrow> 'v) \<Rightarrow> ('k, 'v) std_map \<Rightarrow> ('k, 'v) std_map" where
  "map_modify k dflt f m =
     map_put k (f (case map_find m k of None \<Rightarrow> dflt | Some v \<Rightarrow> v)) m"

definition map_wf :: "('k::linorder, 'v) std_map \<Rightarrow> bool" where
  "map_wf m \<longleftrightarrow> sorted_wrt (<) (map fst m)"

text \<open>The contract of an ordered map, as the modules use it.\<close>

locale ordered_map =
  fixes empty :: "'m"
    and find :: "'m \<Rightarrow> 'k \<Rightarrow> 'v option"
    and put :: "'k \<Rightarrow> 'v \<Rightarrow> 'm \<Rightarrow> 'm"
    and erase :: "'k \<Rightarrow> 'm \<Rightarrow> 'm"
    and entries :: "'m \<Rightarrow> ('k \<times> 'v) list"
    and invar :: "'m \<Rightarrow> bool"
  assumes invar_empty: "invar empty"
    and invar_put: "invar m \<Longrightarrow> invar (put k v m)"
    and invar_erase: "invar m \<Longrightarrow> invar (erase k m)"
    and find_empty: "find empty k = None"
    and find_put: "invar m \<Longrightarrow> find (put k v m) k' = (if k' = k then Some v else find m k')"
    and find_erase: "invar m \<Longrightarrow> find (erase k m) k' = (if k' = k then None else find m k')"
    and find_entries: "invar m \<Longrightarrow> find m k = Some v \<longleftrightarrow> (k, v) \<in> set (entries m)"
    and entries_distinct: "invar m \<Longrightarrow> distinct (map fst (entries m))"
begin

lemma put_all_invar: "invar m \<Longrightarrow> invar (foldl (\<lambda>m (k, v). put k v m) m kvs)"
  by (induction kvs arbitrary: m) (auto simp: invar_put)

lemma find_put_all:
  "invar m \<Longrightarrow>
   find (foldl (\<lambda>m (k, v). put k v m) m kvs) k =
     (case map_of (rev kvs) k of Some v \<Rightarrow> Some v | None \<Rightarrow> find m k)"
proof (induction kvs arbitrary: m)
  case Nil
  then show ?case by simp
next
  case (Cons kv kvs)
  obtain a b where kv: "kv = (a, b)" by (cases kv)
  have "find (foldl (\<lambda>m (k, v). put k v m) (put a b m) kvs) k =
      (case map_of (rev kvs) k of Some v \<Rightarrow> Some v | None \<Rightarrow> find (put a b m) k)"
    by (rule Cons.IH) (simp add: Cons.prems invar_put)
  then show ?case
    by (auto simp: kv find_put Cons.prems map_add_def split: option.splits)
qed

lemma entries_put_subset:
  "invar m \<Longrightarrow> (k', v') \<in> set (entries (put k v m)) \<Longrightarrow>
     k' = k \<and> v' = v \<or> (k', v') \<in> set (entries m)"
  by (metis find_entries find_put invar_put option.inject)

end

lemma map_wf_Nil [simp]: "map_wf []"
  by (simp add: map_wf_def)

lemma map_wf_Cons: "map_wf ((k, v) # m) \<longleftrightarrow> map_wf m \<and> (\<forall>k' \<in> fst ` set m. k < k')"
  by (auto simp: map_wf_def)

lemma map_find_below [simp]: "\<forall>x \<in> set m. k < fst x \<Longrightarrow> k' \<le> k \<Longrightarrow> map_find m k' = None"
  by (cases m) auto

lemma map_of_below: "(k' :: 'k :: linorder) \<le> k \<Longrightarrow> \<forall>x \<in> set m. k < fst x \<Longrightarrow> map_of m k' = None"
  by (induction m) auto

lemma keys_map_put: "fst ` set (map_put k v m) = insert k (fst ` set m)"
  by (induction k v m rule: map_put.induct) auto

lemma map_wf_put [simp]: "map_wf m \<Longrightarrow> map_wf (map_put k v m)"
  by (induction k v m rule: map_put.induct) (auto simp: map_wf_Cons keys_map_put)

lemma set_map_erase: "x \<in> set (map_erase k m) \<Longrightarrow> x \<in> set m"
  by (induction k m rule: map_erase.induct) (auto split: if_splits)

lemma map_wf_erase [simp]: "map_wf m \<Longrightarrow> map_wf (map_erase k m)"
  by (induction k m rule: map_erase.induct) (auto simp: map_wf_Cons dest: set_map_erase)

lemma map_find_put [simp]:
  "map_wf m \<Longrightarrow> map_find (map_put k v m) k' = (if k' = k then Some v else map_find m k')"
  by (induction k v m rule: map_put.induct) (auto simp: map_wf_Cons)

lemma map_find_erase:
  "map_wf m \<Longrightarrow> map_find (map_erase k m) k' = (if k' = k then None else map_find m k')"
  by (induction k m rule: map_erase.induct) (auto simp: map_wf_Cons)

lemma map_find_entries: "map_wf m \<Longrightarrow> map_find m k = Some v \<longleftrightarrow> (k, v) \<in> set m"
  by (induction m k rule: map_find.induct) (auto simp: map_wf_Cons image_iff)

lemma map_wf_distinct: "map_wf m \<Longrightarrow> distinct (map fst m)"
  unfolding map_wf_def by (simp add: strict_sorted_iff)

lemma map_find_map_of: "map_wf m \<Longrightarrow> map_find m k = map_of m k"
  by (induction m k rule: map_find.induct)
     (auto simp: map_wf_Cons not_less intro: map_of_below [symmetric])

interpretation smap: ordered_map "[]" map_find map_put map_erase "\<lambda>m. m" map_wf
  by unfold_locales
    (auto simp: map_find_erase map_find_entries map_wf_distinct)

lemma map_wf_modify [simp]: "map_wf m \<Longrightarrow> map_wf (map_modify k d f m)"
  by (simp add: map_modify_def)

lemma map_find_modify:
  "map_wf m \<Longrightarrow> map_find (map_modify k d f m) k' =
     (if k' = k then Some (f (case map_find m k of None \<Rightarrow> d | Some v \<Rightarrow> v)) else map_find m k')"
  by (simp add: map_modify_def)

lemma map_wf_insert [simp]: "map_wf m \<Longrightarrow> map_wf (map_insert k v m)"
  by (simp add: map_insert_def split: option.split)

lemma map_find_insert:
  "map_wf m \<Longrightarrow> map_find (map_insert k v m) k' =
     (if k' = k \<and> map_find m k = None then Some v else map_find m k')"
  by (auto simp: map_insert_def split: option.split)

text \<open>Two maps with the same lookups are the same list: iteration order is determined.\<close>

lemma map_wf_ext:
  assumes "map_wf m" and "map_wf m'" and "\<And>k. map_find m k = map_find m' k"
  shows "m = m'"
proof -
  have "set m = set m'"
    using assms by (auto simp: map_find_entries [symmetric])
  moreover have "sorted_wrt (\<lambda>a b. fst a < fst b) m" "sorted_wrt (\<lambda>a b. fst a < fst b) m'"
    using assms by (simp_all add: map_wf_def sorted_wrt_map)
  ultimately show ?thesis
  proof (induction m arbitrary: m')
    case Nil
    then show ?case by simp
  next
    case (Cons a m)
    then obtain b n where m': "m' = b # n" by (cases m') auto
    have "a = b"
    proof (rule ccontr)
      assume ne: "a \<noteq> b"
      with Cons.prems m' have "a \<in> set n" "b \<in> set m" by auto
      with Cons.prems m' have "fst b < fst a" "fst a < fst b" by auto
      then show False by simp
    qed
    with Cons.prems m' have "set m = set n" by auto
    then have "m = n" using Cons.IH Cons.prems m' by simp
    with m' \<open>a = b\<close> show ?case by simp
  qed
qed

section \<open>std::multimap with a comparator\<close>

text \<open>\<open>insert\<close> places a new entry after the entries with an equivalent key;
  \<open>equal_range\<close> is the part from the lower to the upper bound of the key.\<close>

fun mm_insert :: "('k \<Rightarrow> 'k \<Rightarrow> bool) \<Rightarrow> 'k \<Rightarrow> 'v \<Rightarrow> ('k \<times> 'v) list \<Rightarrow> ('k \<times> 'v) list" where
  "mm_insert lt k v [] = [(k, v)]"
| "mm_insert lt k v ((k', v') # m) =
     (if lt k k' then (k, v) # (k', v') # m else (k', v') # mm_insert lt k v m)"

definition equal_range :: "('k \<Rightarrow> 'k \<Rightarrow> bool) \<Rightarrow> ('k \<times> 'v) list \<Rightarrow> 'k \<Rightarrow> ('k \<times> 'v) list" where
  "equal_range lt m k =
     takeWhile (\<lambda>kv. \<not> lt k (fst kv)) (dropWhile (\<lambda>kv. lt (fst kv) k) m)"

definition mm_wf :: "('k \<Rightarrow> 'k \<Rightarrow> bool) \<Rightarrow> ('k \<times> 'v) list \<Rightarrow> bool" where
  "mm_wf lt m \<longleftrightarrow> sorted_wrt (\<lambda>a b. \<not> lt (fst b) (fst a)) m"

lemma set_mm_insert: "set (mm_insert lt k v m) = insert (k, v) (set m)"
  by (induction lt k v m rule: mm_insert.induct) auto

lemma length_mm_insert [simp]: "length (mm_insert lt k v m) = Suc (length m)"
  by (induction lt k v m rule: mm_insert.induct) auto

text \<open>The requirement the standard puts on a comparator: a strict weak ordering.\<close>

locale multimap_order =
  fixes lt :: "'k \<Rightarrow> 'k \<Rightarrow> bool"
  assumes irrefl: "\<not> lt a a"
    and trans: "lt a b \<Longrightarrow> lt b c \<Longrightarrow> lt a c"
    and incomp_trans: "\<not> lt a b \<Longrightarrow> \<not> lt b c \<Longrightarrow> \<not> lt a c"
begin

lemma insert_wf: "mm_wf lt m \<Longrightarrow> mm_wf lt (mm_insert lt k v m)"
proof (induction m)
  case Nil
  then show ?case by (simp add: mm_wf_def)
next
  case (Cons kv m)
  obtain k' v' where kv: "kv = (k', v')" by (cases kv)
  show ?case
  proof (cases "lt k k'")
    case True
    then have "\<not> lt k' k" using irrefl trans by blast
    moreover from Cons.prems have "\<forall>x \<in> set m. \<not> lt (fst x) k'" by (simp add: kv mm_wf_def)
    ultimately have "\<forall>x \<in> set m. \<not> lt (fst x) k" by (meson incomp_trans)
    with True \<open>\<not> lt k' k\<close> Cons.prems show ?thesis by (simp add: kv mm_wf_def)
  next
    case False
    with Cons show ?thesis by (auto simp: kv mm_wf_def set_mm_insert)
  qed
qed

lemma equal_range_filter:
  "mm_wf lt m \<Longrightarrow>
     equal_range lt m k = filter (\<lambda>kv. \<not> lt (fst kv) k \<and> \<not> lt k (fst kv)) m"
proof (induction m)
  case Nil
  then show ?case by (simp add: equal_range_def)
next
  case (Cons kv m)
  then have wf: "mm_wf lt m" and le: "\<forall>x \<in> set m. \<not> lt (fst x) (fst kv)"
    by (auto simp: mm_wf_def)
  show ?case
  proof (cases "lt (fst kv) k")
    case True
    with Cons.IH [OF wf] show ?thesis by (simp add: equal_range_def)
  next
    case ge: False
    have ge': "\<forall>x \<in> set m. \<not> lt (fst x) k"
      using le ge incomp_trans by blast
    then have drop: "dropWhile (\<lambda>kv. lt (fst kv) k) m = m"
      by (cases m) auto
    show ?thesis
    proof (cases "lt k (fst kv)")
      case True
      have "\<forall>x \<in> set m. lt k (fst x)"
        using le True by (meson incomp_trans)
      with True ge show ?thesis by (simp add: equal_range_def)
    next
      case False
      with ge drop Cons.IH [OF wf] show ?thesis by (simp add: equal_range_def)
    qed
  qed
qed

text \<open>A filter just added is found under every key equivalent to its own, after the
  ones added before it.\<close>

lemma filter_mm_insert:
  assumes "mm_wf lt m" and "P (k, v)" and "\<And>x. P x \<Longrightarrow> \<not> lt k (fst x)"
  shows "filter P (mm_insert lt k v m) = filter P m @ [(k, v)]"
  using assms(1)
proof (induction m)
  case Nil
  then show ?case using assms(2) by simp
next
  case (Cons kv m)
  then have wf: "mm_wf lt m" and le: "\<forall>x \<in> set m. \<not> lt (fst x) (fst kv)"
    by (auto simp: mm_wf_def)
  obtain k' v' where kv: "kv = (k', v')" by (cases kv)
  show ?case
  proof (cases "lt k k'")
    case True
    then have "lt k (fst x)" if "x \<in> set (kv # m)" for x
      using that le kv incomp_trans by (metis fst_conv set_ConsD)
    then have "filter P (kv # m) = []" using assms(3) unfolding filter_empty_conv by blast
    with True kv assms(2) show ?thesis by simp
  next
    case False
    with Cons.IH [OF wf] kv show ?thesis by simp
  qed
qed

lemma equal_range_insert:
  assumes wf: "mm_wf lt m"
  shows "equal_range lt (mm_insert lt k v m) k' =
    (if \<not> lt k k' \<and> \<not> lt k' k then equal_range lt m k' @ [(k, v)] else equal_range lt m k')"
proof (cases "\<not> lt k k' \<and> \<not> lt k' k")
  case True
  then have "\<not> lt k (fst x)" if "\<not> lt (fst x) k' \<and> \<not> lt k' (fst x)" for x :: "'k \<times> 'a"
    using that incomp_trans by blast
  with True show ?thesis
    by (simp add: equal_range_filter wf insert_wf filter_mm_insert)
next
  case False
  have "filter P (mm_insert lt k v m) = filter P m" if "\<not> P (k, v)" for P
    using that by (induction lt k v m rule: mm_insert.induct) auto
  with False show ?thesis by (auto simp: equal_range_filter wf insert_wf)
qed

end

end
