(* ===== verification/External_Lib.thy ===== *)
theory External_Lib
  imports Dup_Prelude
begin

text \<open>
  The functions of third-party libraries the modules call (boost::regex,
  boost::algorithm, boost::tokenizer, boost::lexical_cast) are parameters of the model,
  gathered in one record that the definitions take as an argument. A regular expression
  is its source text; \<open>regex_ok\<close> tells whether the constructor accepts it or raises
  \<open>boost::bad_expression\<close>. Where a theorem relies on what a library documents, it
  names one of the predicates below. \<open>ref_lib\<close> is a concrete instance that shows
  each of them can hold.
\<close>

record ext_lib =
  regex_ok :: "string \<Rightarrow> bool"
  regex_search :: "string \<Rightarrow> string \<Rightarrow> string option"
    \<comment> \<open>subject, expression: the text of the match, \<open>what[0]\<close>\<close>
  regex_replace :: "string \<Rightarrow> string \<Rightarrow> string \<Rightarrow> string"
    \<comment> \<open>subject, expression, format\<close>
  regex_icase_extract :: "string \<Rightarrow> string \<Rightarrow> string \<Rightarrow> string"
    \<comment> \<open>subject, case-insensitive expression, format; \<open>format_no_copy\<close>\<close>
  to_upper :: "string \<Rightarrow> string"
  tokenize :: "char \<Rightarrow> string \<Rightarrow> string list"
    \<comment> \<open>\<open>boost::tokenizer\<close> with a \<open>char_separator\<close>\<close>
  join_strings :: "string list \<Rightarrow> string \<Rightarrow> string"
  trim :: "string \<Rightarrow> string"
  replace_all :: "string \<Rightarrow> string \<Rightarrow> string \<Rightarrow> string"
  split_any_of :: "string \<Rightarrow> char \<Rightarrow> bool \<Rightarrow> string list"
    \<comment> \<open>subject, separator, whether \<open>token_compress_on\<close>\<close>
  lexical_uint :: "string \<Rightarrow> nat option"
  lexical_size :: "string \<Rightarrow> size_t option"
  lexical_int :: "string \<Rightarrow> int option"
  lexical_string :: "int \<Rightarrow> string"

section \<open>Documented behaviour the theorems rely on\<close>

text \<open>\<open>char_separator\<close> drops empty tokens unless told otherwise.\<close>

definition tokenizer_drops_empty :: "ext_lib \<Rightarrow> bool" where
  "tokenizer_drops_empty E \<longleftrightarrow> (\<forall>c s. tokenize E c s = filter (\<lambda>t. t \<noteq> []) (split_on c s))"

text \<open>\<open>join\<close> puts the separator between the elements.\<close>

fun intersperse :: "string \<Rightarrow> string list \<Rightarrow> string" where
  "intersperse sep [] = []"
| "intersperse sep [w] = w"
| "intersperse sep (w # ws) = w @ sep @ intersperse sep ws"

definition join_intersperses :: "ext_lib \<Rightarrow> bool" where
  "join_intersperses E \<longleftrightarrow> (\<forall>ws sep. join_strings E ws sep = intersperse sep ws)"

text \<open>\<open>replace_all\<close> of a one-character search string replaces each occurrence.\<close>

definition replace_all_char :: "ext_lib \<Rightarrow> bool" where
  "replace_all_char E \<longleftrightarrow>
     (\<forall>s c t. replace_all E s [c] t = concat (map (\<lambda>x. if x = c then t else [x]) s))"

text \<open>\<open>lexical_cast\<close> from a string reads what the stream operators print: a string of
  decimal digits denotes its value, as long as the target type can hold it.\<close>

definition lexical_reads_decimals :: "ext_lib \<Rightarrow> bool" where
  "lexical_reads_decimals E \<longleftrightarrow>
     (\<forall>s. s \<noteq> [] \<and> list_all is_digit s \<longrightarrow>
        (dec_value s < 2 ^ 32 \<longrightarrow> lexical_uint E s = Some (dec_value s)) \<and>
        (dec_value s < 2 ^ 64 \<longrightarrow> lexical_size E s = Some (of_nat (dec_value s))))"

definition lexical_prints_decimals :: "ext_lib \<Rightarrow> bool" where
  "lexical_prints_decimals E \<longleftrightarrow> (\<forall>i. lexical_string E i = show_int i)"

text \<open>\<open>split\<close> loses nothing but the separators.\<close>

definition split_keeps_text :: "ext_lib \<Rightarrow> bool" where
  "split_keeps_text E \<longleftrightarrow> (\<forall>s c b. concat (split_any_of E s c b) = filter (\<lambda>x. x \<noteq> c) s)"

text \<open>\<open>to_upper\<close> maps the bytes one by one, the C locale's way.\<close>

definition upper_char :: "char \<Rightarrow> char" where
  "upper_char c = (if 97 \<le> (of_char c :: nat) \<and> (of_char c :: nat) \<le> 122
                   then char_of ((of_char c :: nat) - 32) else c)"

definition to_upper_ascii :: "ext_lib \<Rightarrow> bool" where
  "to_upper_ascii E \<longleftrightarrow> (\<forall>s. to_upper E s = map upper_char s)"

section \<open>A concrete instance\<close>

text \<open>Expressions without special characters: a search looks for the literal text.\<close>

definition lit_search :: "string \<Rightarrow> string \<Rightarrow> string option" where
  "lit_search s r = (case find_str r s of None \<Rightarrow> None | Some _ \<Rightarrow> Some r)"

fun lit_replace :: "nat \<Rightarrow> string \<Rightarrow> string \<Rightarrow> string \<Rightarrow> string" where
  "lit_replace 0 s r f = s"
| "lit_replace (Suc n) [] r f = []"
| "lit_replace (Suc n) (x # xs) r f =
     (if r \<noteq> [] \<and> take (length r) (x # xs) = r
      then f @ lit_replace n (drop (length r) (x # xs)) r f
      else x # lit_replace n xs r f)"

definition is_space :: "char \<Rightarrow> bool" where
  "is_space c \<longleftrightarrow> c = CHR '' '' \<or> (9 \<le> (of_char c :: nat) \<and> (of_char c :: nat) \<le> 13)"

definition ref_trim :: "string \<Rightarrow> string" where
  "ref_trim s = rev (dropWhile is_space (rev (dropWhile is_space s)))"

definition dec_parse :: "nat \<Rightarrow> string \<Rightarrow> nat option" where
  "dec_parse bound s =
     (if s \<noteq> [] \<and> list_all is_digit s \<and> dec_value s < bound then Some (dec_value s) else None)"

definition ref_lib :: ext_lib where
  "ref_lib = \<lparr>
     regex_ok = (\<lambda>r. r \<noteq> ''[''),
     regex_search = lit_search,
     regex_replace = (\<lambda>s r f. lit_replace (length s) s r f),
     regex_icase_extract =
       (\<lambda>s r f. if lit_search (map upper_char s) (map upper_char r) = None then [] else f),
     to_upper = map upper_char,
     tokenize = (\<lambda>c s. filter (\<lambda>t. t \<noteq> []) (split_on c s)),
     join_strings = (\<lambda>ws sep. intersperse sep ws),
     trim = ref_trim,
     replace_all = (\<lambda>s r f. lit_replace (length s) s r f),
     split_any_of = (\<lambda>s c compress.
        if compress then filter (\<lambda>t. t \<noteq> []) (split_on c s) else split_on c s),
     lexical_uint = dec_parse (2 ^ 32),
     lexical_size = map_option of_nat \<circ> dec_parse (2 ^ 64),
     lexical_int = map_option int \<circ> dec_parse (2 ^ 31),
     lexical_string = show_int\<rparr>"

lemma ref_lib_sel [simp]:
  "regex_ok ref_lib r = (r \<noteq> ''['')" "regex_search ref_lib = lit_search"
  "regex_replace ref_lib s = lit_replace (length s) s"
  "to_upper ref_lib = map upper_char"
  "tokenize ref_lib c s = filter (\<lambda>t. t \<noteq> []) (split_on c s)"
  "join_strings ref_lib ws sep = intersperse sep ws" "trim ref_lib = ref_trim"
  "lexical_uint ref_lib = dec_parse (2 ^ 32)" "lexical_string ref_lib = show_int"
  by (simp_all add: ref_lib_def)

lemma lit_replace_char:
  "length s \<le> n \<Longrightarrow> lit_replace n s [c] t = concat (map (\<lambda>x. if x = c then t else [x]) s)"
proof (induction n arbitrary: s)
  case 0
  then show ?case by simp
next
  case (Suc n)
  then show ?case by (cases s) auto
qed

lemma ref_lib_documented:
  "tokenizer_drops_empty ref_lib" "join_intersperses ref_lib" "replace_all_char ref_lib"
  "lexical_reads_decimals ref_lib" "lexical_prints_decimals ref_lib" "to_upper_ascii ref_lib"
  by (simp_all add: ref_lib_def tokenizer_drops_empty_def join_intersperses_def
      replace_all_char_def lexical_reads_decimals_def lexical_prints_decimals_def
      to_upper_ascii_def lit_replace_char dec_parse_def)

lemma intersperse_append:
  "ws \<noteq> [] \<Longrightarrow> intersperse sep (w # ws) = w @ sep @ intersperse sep ws"
  by (cases ws) auto

lemma split_intersperse:
  "(\<And>w. w \<in> set ws \<Longrightarrow> c \<notin> set w) \<Longrightarrow> ws \<noteq> [] \<Longrightarrow> split_on c (intersperse [c] ws) = ws"
  by (induction "[c]" ws rule: intersperse.induct)
     (simp_all add: split_on_no_sep split_on_append)

lemma concat_nonempty: "concat (filter (\<lambda>t. t \<noteq> []) xs) = concat xs"
  by (induction xs) auto

lemma concat_split_on: "concat (split_on c s) = filter (\<lambda>x. x \<noteq> c) s"
  by (induction c s rule: split_on.induct) (auto split: list.splits)

lemma ref_lib_split: "split_keeps_text ref_lib"
  by (simp add: split_keeps_text_def ref_lib_def concat_nonempty concat_split_on)

end
