(* ===== verification/Request_Common.thy ===== *)
theory Request_Common
  imports External_Lib
begin

text \<open>
  The two enumerations every part of mod_dup uses: the application scope of a filter or
  substitution (RequestCommon.hh, RequestCommon.cc), a bit mask over the parts of a
  request, and the duplication type of a destination (RequestInfo.hh, RequestInfo.cc).
\<close>

section \<open>ApplicationScope\<close>

datatype eApplicationScope =
  PATH | QUERY_STRING | URL | HEADERS | BODY | METHOD | URL_AND_HEADERS | ALL_SCOPES

fun scope_mask :: "eApplicationScope \<Rightarrow> nat" where
  "scope_mask PATH = 1"
| "scope_mask QUERY_STRING = 2"
| "scope_mask URL = 3"
| "scope_mask HEADERS = 4"
| "scope_mask BODY = 8"
| "scope_mask METHOD = 16"
| "scope_mask URL_AND_HEADERS = 7"
| "scope_mask ALL_SCOPES = 31"

text \<open>The test \<open>a & b\<close> the code writes everywhere.\<close>

definition in_scope :: "eApplicationScope \<Rightarrow> eApplicationScope \<Rightarrow> bool" where
  "in_scope a b \<longleftrightarrow> (scope_mask a AND scope_mask b) \<noteq> 0"

definition scope_stringToEnum :: "string \<Rightarrow> eApplicationScope option" where
  "scope_stringToEnum str =
     (if str = ''ALL'' then Some ALL_SCOPES
      else if str = ''METHOD'' then Some METHOD
      else if str = ''PATH'' then Some PATH
      else if str = ''QUERY_STRING'' then Some QUERY_STRING
      else if str = ''URL_AND_HEADERS'' then Some URL_AND_HEADERS
      else if str = ''URL'' then Some URL
      else if str = ''HEADERS'' then Some HEADERS
      else if str = ''BODY'' then Some BODY
      else None)"

fun scope_enumToString :: "eApplicationScope \<Rightarrow> string" where
  "scope_enumToString ALL_SCOPES = ''ALL''"
| "scope_enumToString METHOD = ''METHOD''"
| "scope_enumToString PATH = ''PATH''"
| "scope_enumToString QUERY_STRING = ''QUERY_STRING''"
| "scope_enumToString URL = ''URL''"
| "scope_enumToString URL_AND_HEADERS = ''URL_AND_HEADERS''"
| "scope_enumToString HEADERS = ''HEADERS''"
| "scope_enumToString BODY = ''BODY''"

definition scope_c_ERROR_ON_STRING_VALUE :: string where
  "scope_c_ERROR_ON_STRING_VALUE =
     ''Invalid ApplicationScope Value. Supported Values: METHOD | PATH | QUERY_STRING | URL | HEADERS | URL_AND_HEADERS | BODY | ALL''"

text \<open>The parts of a request a scope covers, as the comments of the enumeration describe
  them: the specification of the mask.\<close>

datatype request_part = PartPath | PartArgs | PartHeaders | PartBody | PartMethod

fun scope_parts :: "eApplicationScope \<Rightarrow> request_part set" where
  "scope_parts PATH = {PartPath}"
| "scope_parts QUERY_STRING = {PartArgs}"
| "scope_parts URL = {PartPath, PartArgs}"
| "scope_parts HEADERS = {PartHeaders}"
| "scope_parts BODY = {PartBody}"
| "scope_parts METHOD = {PartMethod}"
| "scope_parts URL_AND_HEADERS = {PartPath, PartArgs, PartHeaders}"
| "scope_parts ALL_SCOPES = {PartPath, PartArgs, PartHeaders, PartBody, PartMethod}"

lemma in_scope_iff: "in_scope a b \<longleftrightarrow> scope_parts a \<inter> scope_parts b \<noteq> {}"
  by (cases a; cases b; simp add: in_scope_def)

lemma in_scope_table [simp]:
  "in_scope a PATH \<longleftrightarrow> a \<in> {PATH, URL, URL_AND_HEADERS, ALL_SCOPES}"
  "in_scope a QUERY_STRING \<longleftrightarrow> a \<in> {QUERY_STRING, URL, URL_AND_HEADERS, ALL_SCOPES}"
  "in_scope a HEADERS \<longleftrightarrow> a \<in> {HEADERS, URL_AND_HEADERS, ALL_SCOPES}"
  "in_scope a BODY \<longleftrightarrow> a \<in> {BODY, ALL_SCOPES}"
  "in_scope a METHOD \<longleftrightarrow> a \<in> {METHOD, ALL_SCOPES}"
  "in_scope a URL \<longleftrightarrow> a \<in> {PATH, QUERY_STRING, URL, URL_AND_HEADERS, ALL_SCOPES}"
  by (cases a; simp add: in_scope_def)+

lemma in_scope_commute: "in_scope a b = in_scope b a"
  by (simp add: in_scope_iff Int_commute)

lemma scope_string_roundtrip: "scope_stringToEnum (scope_enumToString s) = Some s"
  by (cases s) (simp_all add: scope_stringToEnum_def)

lemma scope_stringToEnum_Some:
  "scope_stringToEnum str = Some s \<Longrightarrow> str = scope_enumToString s"
  by (auto simp: scope_stringToEnum_def split: if_splits)

section \<open>DuplicationType\<close>

datatype eDuplicationType = NONE | HEADER_ONLY | COMPLETE_REQUEST | REQUEST_WITH_ANSWER

fun dup_type_value :: "eDuplicationType \<Rightarrow> nat" where
  "dup_type_value NONE = 0"
| "dup_type_value HEADER_ONLY = 1"
| "dup_type_value COMPLETE_REQUEST = 2"
| "dup_type_value REQUEST_WITH_ANSWER = 3"

definition dup_type_stringToEnum :: "string \<Rightarrow> eDuplicationType option" where
  "dup_type_stringToEnum value =
     (if value = ''NONE'' then Some NONE
      else if value = ''HEADER_ONLY'' then Some HEADER_ONLY
      else if value = ''COMPLETE_REQUEST'' then Some COMPLETE_REQUEST
      else if value = ''REQUEST_WITH_ANSWER'' then Some REQUEST_WITH_ANSWER
      else None)"

definition dup_type_c_ERROR_ON_STRING_VALUE :: string where
  "dup_type_c_ERROR_ON_STRING_VALUE =
     ''Invalid Duplication Type Value. Supported Values: HEADER_ONLY | COMPLETE_REQUEST | REQUEST_WITH_ANSWER''"

text \<open>The enumerators are compared with \<open>>\<close>: the type is a linear order by value.\<close>

instantiation eDuplicationType :: linorder
begin

definition less_eq_eDuplicationType :: "eDuplicationType \<Rightarrow> eDuplicationType \<Rightarrow> bool" where
  "less_eq_eDuplicationType a b \<longleftrightarrow> dup_type_value a \<le> dup_type_value b"

definition less_eDuplicationType :: "eDuplicationType \<Rightarrow> eDuplicationType \<Rightarrow> bool" where
  "less_eDuplicationType a b \<longleftrightarrow> dup_type_value a < dup_type_value b"

instance
proof
  fix a b c :: eDuplicationType
  show "a < b \<longleftrightarrow> a \<le> b \<and> \<not> b \<le> a"
    by (auto simp: less_eq_eDuplicationType_def less_eDuplicationType_def)
  show "a \<le> a" by (simp add: less_eq_eDuplicationType_def)
  show "a \<le> b \<Longrightarrow> b \<le> c \<Longrightarrow> a \<le> c" by (simp add: less_eq_eDuplicationType_def)
  show "a \<le> b \<Longrightarrow> b \<le> a \<Longrightarrow> a = b"
    by (cases a; cases b; simp add: less_eq_eDuplicationType_def)
  show "a \<le> b \<or> b \<le> a" by (auto simp: less_eq_eDuplicationType_def)
qed

end

lemma dup_type_order [simp]:
  "NONE < a \<longleftrightarrow> a \<noteq> NONE" "a \<le> REQUEST_WITH_ANSWER" "NONE \<le> a"
  by (cases a; simp add: less_eDuplicationType_def less_eq_eDuplicationType_def)+

section \<open>Properties\<close>

text \<open>The bit test the code applies to two scopes holds exactly when there is a part of
  the request that both cover.\<close>

theorem scope_mask_meaning:
  "in_scope a b \<longleftrightarrow> scope_parts a \<inter> scope_parts b \<noteq> {}"
  by (rule in_scope_iff)

end
