(* ===== verification/Url_Codec.thy ===== *)
theory Url_Codec
  imports External_Lib
begin

text \<open>
  The URL codecs of UrlCodec.cc and the two Apache functions they wrap, from the copy of
  the Apache sources kept in testing/unit/ApacheCopyPaste.cc. The interface
  \<open>IUrlCodec\<close> is the locale \<open>url_codec_laws\<close>: what the argument parser and the
  substitutions rely on. Both codecs are shown to satisfy it.
\<close>

section \<open>Apache's escaping of a path segment\<close>

definition test_char_table :: "nat list" where
  "test_char_table = [
    32,62,62,62,62,62,62,62,62,62,63,62,62,62,62,62,62,62,62,62,
    62,62,62,62,62,62,62,62,62,62,62,62,14,0,31,6,1,38,1,1,
    9,9,1,0,8,0,0,10,0,0,0,0,0,0,0,0,0,0,40,15,
    15,8,15,15,8,0,0,0,0,0,0,0,0,0,0,0,0,0,0,0,
    0,0,0,0,0,0,0,0,0,0,0,15,31,15,7,0,7,0,0,0,
    0,0,0,0,0,0,0,0,0,0,0,0,0,0,0,0,0,0,0,0,
    0,0,0,15,39,15,1,62,54,54,54,54,54,54,54,54,54,54,54,54,
    54,54,54,54,54,54,54,54,54,54,54,54,54,54,54,54,54,54,54,54,
    54,54,54,54,54,54,54,54,54,54,54,54,54,54,54,54,54,54,54,54,
    54,54,54,54,54,54,54,54,54,54,54,54,54,54,54,54,54,54,54,54,
    54,54,54,54,54,54,54,54,54,54,54,54,54,54,54,54,54,54,54,54,
    54,54,54,54,54,54,54,54,54,54,54,54,54,54,54,54,54,54,54,54,
    54,54,54,54,54,54,54,54,54,54,54,54,54,54,54,54]"

definition TEST_CHAR_segment :: "char \<Rightarrow> bool" where
  "TEST_CHAR_segment c \<longleftrightarrow> (test_char_table ! of_char c AND 2) \<noteq> 0"

definition c2x_table :: string where
  "c2x_table = ''0123456789abcdef''"

definition c2x :: "char \<Rightarrow> char \<Rightarrow> string" where
  "c2x what prefix =
     [prefix, c2x_table ! (of_char what div 16), c2x_table ! (of_char what mod 16)]"

fun escape_segment :: "string \<Rightarrow> string" where
  "escape_segment [] = []"
| "escape_segment (c # s) =
     (if TEST_CHAR_segment c then c2x c (CHR ''%'') @ escape_segment s
      else c # escape_segment s)"

definition ap_escape_path_segment :: "string \<Rightarrow> string" where
  "ap_escape_path_segment segment = escape_segment (c_str segment)"

section \<open>Apache's unescaping of a URL\<close>

definition isxdigit :: "char \<Rightarrow> bool" where
  "isxdigit c = (let n = (of_char c :: nat) in
     (48 \<le> n \<and> n \<le> 57) \<or> (65 \<le> n \<and> n \<le> 70) \<or> (97 \<le> n \<and> n \<le> 102))"

definition x2c_digit :: "char \<Rightarrow> nat" where
  "x2c_digit c = (let n = (of_char c :: nat) in
     if 65 \<le> n then (n AND 0xdf) - 65 + 10 else n - 48)"

definition x2c :: "char \<Rightarrow> char \<Rightarrow> char" where
  "x2c a b = char_of (x2c_digit a * 16 + x2c_digit b)"

datatype unescape_status = UnescapeOK | HTTP_BAD_REQUEST_esc | HTTP_NOT_FOUND_esc

text \<open>The loop over the buffer, with the flags \<open>badesc\<close> and \<open>badpath\<close>; a byte past
  the end is the terminating NUL, which is no hexadecimal digit.\<close>

fun unescape_loop :: "string \<Rightarrow> bool \<Rightarrow> bool \<Rightarrow> string \<times> bool \<times> bool" where
  "unescape_loop [] badesc badpath = ([], badesc, badpath)"
| "unescape_loop (c # s) badesc badpath =
     (if c \<noteq> CHR ''%'' then
        (case unescape_loop s badesc badpath of (out, be, bp) \<Rightarrow> (c # out, be, bp))
      else
        (case s of
           a # b # s' \<Rightarrow>
             if isxdigit a \<and> isxdigit b then
               (let decoded = x2c a b;
                    bad = (decoded = NUL \<or> decoded = CHR ''/'')
                in case unescape_loop s' badesc (badpath \<or> bad) of
                     (out, be, bp) \<Rightarrow> (decoded # out, be, bp))
             else
               (case unescape_loop s True badpath of (out, be, bp) \<Rightarrow> (CHR ''%'' # out, be, bp))
         | _ \<Rightarrow>
             (case unescape_loop s True badpath of (out, be, bp) \<Rightarrow> (CHR ''%'' # out, be, bp))))"

definition ap_unescape_url :: "string \<Rightarrow> string \<times> unescape_status" where
  "ap_unescape_url url =
     (case unescape_loop (c_str url) False False of
        (out, badesc, badpath) \<Rightarrow>
          (out, if badesc then HTTP_BAD_REQUEST_esc
                else if badpath then HTTP_NOT_FOUND_esc else UnescapeOK))"

section \<open>The codecs\<close>

datatype url_codec = ApacheUrlCodec | DefaultUrlCodec

text \<open>A bad escape is only logged: the buffer is used as it is, up to its first NUL.\<close>

definition apache_decode :: "string \<Rightarrow> string" where
  "apache_decode pIn = c_str (fst (ap_unescape_url pIn))"

definition apache_encode :: "string \<Rightarrow> string" where
  "apache_encode pIn = ap_escape_path_segment pIn"

definition default_decode :: "ext_lib \<Rightarrow> string \<Rightarrow> string" where
  "default_decode E pIn = c_str (fst (ap_unescape_url (replace_all E pIn ''+'' '' '')))"

definition default_encode :: "ext_lib \<Rightarrow> string \<Rightarrow> string" where
  "default_encode E pIn = replace_all E (ap_escape_path_segment pIn) ''+'' ''%2b''"

fun decode :: "ext_lib \<Rightarrow> url_codec \<Rightarrow> string \<Rightarrow> string" where
  "decode E ApacheUrlCodec pIn = apache_decode pIn"
| "decode E DefaultUrlCodec pIn = default_decode E pIn"

fun encode :: "ext_lib \<Rightarrow> url_codec \<Rightarrow> string \<Rightarrow> string" where
  "encode E ApacheUrlCodec pIn = apache_encode pIn"
| "encode E DefaultUrlCodec pIn = default_encode E pIn"

definition getUrlCodec :: "string \<Rightarrow> url_codec" where
  "getUrlCodec name = (if name = ''apache'' then ApacheUrlCodec else DefaultUrlCodec)"

section \<open>Lemmas\<close>

lemma length_test_char_table: "length test_char_table = 256"
  by (simp add: test_char_table_def)

lemma TEST_CHAR_special:
  "TEST_CHAR_segment (CHR ''%'')" "TEST_CHAR_segment (CHR '' '')" "TEST_CHAR_segment (CHR ''/'')"
  "\<not> TEST_CHAR_segment (CHR ''+'')" "\<not> TEST_CHAR_segment (CHR ''&'')"
  "\<not> TEST_CHAR_segment (CHR ''='')"
  by (simp_all add: TEST_CHAR_segment_def test_char_table_def)

lemma less_16_cases:
  "(d :: nat) < 16 \<Longrightarrow> d \<in> {0, 1, 2, 3, 4, 5, 6, 7, 8, 9, 10, 11, 12, 13, 14, 15}"
  by simp presburger

lemma hex_digit:
  assumes "d < 16"
  shows "isxdigit (c2x_table ! d)" and "x2c_digit (c2x_table ! d) = d"
    and "c2x_table ! d \<noteq> CHR ''%''" and "c2x_table ! d \<noteq> CHR ''+''"
    and "c2x_table ! d \<noteq> NUL" and "c2x_table ! d \<noteq> CHR ''&''"
  using less_16_cases [OF assms]
  by (auto simp: c2x_table_def isxdigit_def x2c_digit_def)

lemma of_char_less_256: "(of_char c :: nat) < 256"
  by (metis of_char_mod_256 mod_less_divisor zero_less_numeral)

lemma hex_pair:
  "isxdigit (c2x_table ! (of_char c div 16))" "isxdigit (c2x_table ! (of_char c mod 16))"
  "x2c (c2x_table ! (of_char c div 16)) (c2x_table ! (of_char c mod 16)) = c"
  by (simp_all add: hex_digit x2c_def less_mult_imp_div_less of_char_less_256)

text \<open>Unescaping is the inverse of escaping, whatever flags the loop starts with.\<close>

lemma unescape_escape: "fst (unescape_loop (escape_segment s) be bp) = s"
proof (induction s arbitrary: be bp)
  case Nil
  then show ?case by simp
next
  case (Cons c s)
  show ?case
  proof (cases "TEST_CHAR_segment c")
    case True
    then show ?thesis
      using Cons.IH by (simp add: c2x_def hex_pair Let_def split: prod.split) (metis fst_conv)
  next
    case False
    then have "c \<noteq> CHR ''%''" using TEST_CHAR_special by auto
    with False show ?thesis using Cons.IH by (simp split: prod.split) (metis fst_conv)
  qed
qed

lemma set_c2x: "set (c2x c p) \<subseteq> insert p (set c2x_table)"
proof -
  have "of_char c div 16 < length c2x_table" "of_char c mod 16 < length c2x_table"
    using of_char_less_256 [of c] by (simp_all add: c2x_table_def less_mult_imp_div_less)
  then show ?thesis by (simp add: c2x_def)
qed

text \<open>What an escaped segment is made of: bytes of the original that need no escaping,
  percent signs and hexadecimal digits.\<close>

lemma set_escape_segment:
  "x \<in> set (escape_segment s) \<Longrightarrow>
     x = CHR ''%'' \<or> x \<in> set c2x_table \<or> x \<in> set s \<and> \<not> TEST_CHAR_segment x"
  using set_c2x by (induction s) (fastforce split: if_splits)+

lemma set_c2x_table:
  "NUL \<notin> set c2x_table" "CHR ''+'' \<notin> set c2x_table" "CHR ''&'' \<notin> set c2x_table"
  by (simp_all add: c2x_table_def)

lemma escape_no_NUL: "NUL \<notin> set s \<Longrightarrow> NUL \<notin> set (escape_segment s)"
  using set_escape_segment [of NUL s] set_c2x_table by auto

lemma escape_no_amp: "CHR ''&'' \<notin> set s \<Longrightarrow> CHR ''&'' \<notin> set (escape_segment s)"
  using set_escape_segment [of "CHR ''&''" s] set_c2x_table by auto

text \<open>Replacing each plus sign of an escaped segment by its escape sequence is the
  escaping that treats the plus sign as special too.\<close>

fun escape_segment_plus :: "string \<Rightarrow> string" where
  "escape_segment_plus [] = []"
| "escape_segment_plus (c # s) =
     (if c = CHR ''+'' then ''%2b'' @ escape_segment_plus s
      else if TEST_CHAR_segment c then c2x c (CHR ''%'') @ escape_segment_plus s
      else c # escape_segment_plus s)"

abbreviation plus_to :: "string \<Rightarrow> string \<Rightarrow> string" where
  "plus_to t s \<equiv> concat (map (\<lambda>x. if x = CHR ''+'' then t else [x]) s)"

lemma plus_to_id: "CHR ''+'' \<notin> set s \<Longrightarrow> plus_to t s = s"
  by (induction s) auto

lemma plus_to_escape: "plus_to ''%2b'' (escape_segment s) = escape_segment_plus s"
proof (induction s)
  case Nil
  then show ?case by simp
next
  case (Cons c s)
  have "CHR ''+'' \<notin> set (c2x c (CHR ''%''))"
    using set_c2x [of c "CHR ''%''"] set_c2x_table by auto
  then show ?case using Cons TEST_CHAR_special by (auto simp: plus_to_id)
qed

lemma escape_plus_clean:
  "CHR ''+'' \<notin> set (escape_segment_plus s)"
  "NUL \<notin> set s \<Longrightarrow> NUL \<notin> set (escape_segment_plus s)"
  "CHR ''&'' \<notin> set s \<Longrightarrow> CHR ''&'' \<notin> set (escape_segment_plus s)"
  using set_c2x set_c2x_table by (induction s) (fastforce split: if_splits)+

lemma unescape_escape_plus: "fst (unescape_loop (escape_segment_plus s) be bp) = s"
proof (induction s arbitrary: be bp)
  case Nil
  then show ?case by simp
next
  case (Cons c s)
  have IH: "\<exists>be' bp'. unescape_loop (escape_segment_plus s) be bp = (s, be', bp')" for be bp
    using Cons.IH [of be bp] by (metis prod.collapse)
  have plus: "x2c (CHR ''2'') (CHR ''b'') = CHR ''+''" "isxdigit (CHR ''2'')" "isxdigit (CHR ''b'')"
    by (simp_all add: x2c_def x2c_digit_def isxdigit_def char_of_def bit_0)
  consider "c = CHR ''+''" | "c \<noteq> CHR ''+''" "TEST_CHAR_segment c"
    | "c \<noteq> CHR ''+''" "\<not> TEST_CHAR_segment c" by blast
  then show ?case
  proof cases
    case 1
    then show ?thesis using IH [of be bp] by (auto simp: plus)
  next
    case 2
    then show ?thesis
      using IH [of be "bp \<or> c = NUL \<or> c = CHR ''/''"] by (auto simp: c2x_def hex_pair)
  next
    case 3
    then have "c \<noteq> CHR ''%''" using TEST_CHAR_special by auto
    with 3 show ?thesis using IH [of be bp] by auto
  qed
qed

section \<open>The codec interface\<close>

text \<open>What the clients of \<open>IUrlCodec\<close> rely on: decoding undoes encoding on the strings
  a C function can see, and encoding neither adds NUL bytes nor ampersands.\<close>

locale url_codec_laws =
  fixes dec :: "string \<Rightarrow> string" and enc :: "string \<Rightarrow> string"
  assumes dec_enc: "NUL \<notin> set s \<Longrightarrow> dec (enc s) = s"
    and enc_no_amp: "CHR ''&'' \<notin> set s \<Longrightarrow> CHR ''&'' \<notin> set (enc s)"
    and dec_Nil: "dec [] = []"
begin

lemma enc_inj: "NUL \<notin> set s \<Longrightarrow> NUL \<notin> set t \<Longrightarrow> enc s = enc t \<Longrightarrow> s = t"
  by (metis dec_enc)

lemma enc_nonempty: "NUL \<notin> set s \<Longrightarrow> s \<noteq> [] \<Longrightarrow> enc s \<noteq> []"
  by (metis dec_Nil dec_enc)

end

lemma set_c_str: "x \<in> set (c_str s) \<Longrightarrow> x \<in> set s"
  by (auto simp: c_str_def dest: set_takeWhileD)

lemma fst_ap_unescape_url: "fst (ap_unescape_url s) = fst (unescape_loop (c_str s) False False)"
  by (simp add: ap_unescape_url_def split: prod.split)

interpretation apache_codec: url_codec_laws apache_decode apache_encode
proof
  fix s :: string
  assume "NUL \<notin> set s"
  then show "apache_decode (apache_encode s) = s"
    by (simp add: apache_decode_def apache_encode_def ap_escape_path_segment_def
        fst_ap_unescape_url escape_no_NUL unescape_escape)
next
  fix s :: string
  assume "CHR ''&'' \<notin> set s"
  then show "CHR ''&'' \<notin> set (apache_encode s)"
    using set_c_str by (simp add: apache_encode_def ap_escape_path_segment_def) (metis escape_no_amp)
next
  show "apache_decode [] = []"
    by (simp add: apache_decode_def fst_ap_unescape_url c_str_def)
qed

lemma default_codec:
  assumes E: "replace_all_char E"
  shows "url_codec_laws (default_decode E) (default_encode E)"
proof
  fix s :: string
  have enc: "default_encode E s = escape_segment_plus (c_str s)"
    using E by (simp add: default_encode_def replace_all_char_def ap_escape_path_segment_def
        plus_to_escape)
  show "NUL \<notin> set s \<Longrightarrow> default_decode E (default_encode E s) = s"
    using E by (simp add: enc default_decode_def replace_all_char_def plus_to_id
        escape_plus_clean fst_ap_unescape_url unescape_escape_plus)
  show "CHR ''&'' \<notin> set s \<Longrightarrow> CHR ''&'' \<notin> set (default_encode E s)"
    using set_c_str by (simp add: enc) (metis escape_plus_clean(3))
  show "default_decode E [] = []"
    using E by (simp add: default_decode_def replace_all_char_def fst_ap_unescape_url c_str_def)
qed

lemma codec_laws:
  assumes "replace_all_char E"
  shows "url_codec_laws (decode E c) (encode E c)"
proof (cases c)
  case ApacheUrlCodec
  have "decode E c = apache_decode" "encode E c = apache_encode"
    by (auto simp: ApacheUrlCodec)
  then show ?thesis by (simp add: apache_codec.url_codec_laws_axioms)
next
  case DefaultUrlCodec
  have "decode E c = default_decode E" "encode E c = default_encode E"
    by (auto simp: DefaultUrlCodec)
  with assms show ?thesis by (simp add: default_codec)
qed

section \<open>Properties\<close>

text \<open>C30: Under either codec, decoding an encoded string gives the string back, for every
  string without a NUL byte, and the encoded text has no ampersand unless the string has.\<close>

theorem codec_roundtrip:
  assumes "replace_all_char E" and "NUL \<notin> set s"
  shows "decode E c (encode E c s) = s \<and>
         (CHR ''&'' \<in> set (encode E c s) \<longrightarrow> CHR ''&'' \<in> set s)"
proof -
  have "url_codec_laws (decode E c) (encode E c)" by (rule codec_laws) (rule assms)
  then show ?thesis
    using assms(2) url_codec_laws.dec_enc url_codec_laws.enc_no_amp by blast
qed

theorem codec_roundtrip_witness:
  "decode ref_lib DefaultUrlCodec (encode ref_lib DefaultUrlCodec ''a+b c%'') = ''a+b c%'' \<and>
   encode ref_lib DefaultUrlCodec ''a+b c%'' = ''a%2bb%20c%25''"
  using codec_roundtrip [OF ref_lib_documented(3), of "''a+b c%''" DefaultUrlCodec]
  by (simp add: default_encode_def ap_escape_path_segment_def TEST_CHAR_segment_def
      test_char_table_def c2x_def c2x_table_def c_str_def ref_lib_def)

end
