(* ===== verification/Request_Info.thy ===== *)
theory Request_Info
  imports Std_Map Request_Common
begin

text \<open>
  \<open>DupModule::RequestInfo\<close> (RequestInfo.hh, RequestInfo.cc): what the filters collect
  about a request and what the processor and the comparison read. Times are microseconds
  since the epoch and the clock is an argument. A field that a constructor leaves
  uninitialised keeps the value of the memory it is built in, the argument \<open>mem\<close>.
\<close>

type_synonym conf_ptr = nat

record RequestInfo =
  mPoison :: bool
  mId :: string
  mMethod :: string
  mPath :: string
  mArgs :: string
  mParsedArgs :: key_val_list
  mBody :: string
  mAnswer :: string
  mRequest :: string
  mReqHeader :: "(string, string) std_map"
  mReqBody :: string
  mResponseHeader :: "(string, string) std_map"
  mResponseBody :: string
  mDupResponseHeader :: "(string, string) std_map"
  mDupResponseBody :: string
  mCurlCompResponseHeader :: "(string, string) std_map"
  mCurlCompResponseStatus :: int
  mHeadersIn :: key_val_list
  mHeadersOut :: key_val_list
  offset :: uint32
  mReqHttpStatus :: int
  mDupResponseHttpStatus :: int
  mValidationHeaderDup :: bool
  mValidationHeaderComp :: bool
  mConf :: "conf_ptr option"
  mEOS :: bool
  mStartTime :: int
  mElapsedTime :: int

text \<open>The initialisation every constructor shares: class-type members are default
  constructed, the members in the initialiser lists get the values given there.\<close>

definition RequestInfo_members :: "RequestInfo \<Rightarrow> int \<Rightarrow> RequestInfo" where
  "RequestInfo_members mem startTime = mem\<lparr>
     mPoison := False, mId := [], mMethod := [], mPath := [], mArgs := [], mParsedArgs := [],
     mBody := [], mAnswer := [], mRequest := [], mReqHeader := [], mReqBody := [],
     mResponseHeader := [], mResponseBody := [], mDupResponseHeader := [],
     mDupResponseBody := [], mCurlCompResponseHeader := [], mCurlCompResponseStatus := -1,
     mHeadersIn := [], mHeadersOut := [], mValidationHeaderDup := False,
     mValidationHeaderComp := False, mConf := None, mEOS := False,
     mStartTime := startTime, mElapsedTime := 0\<rparr>"

definition RequestInfo_full ::
    "RequestInfo \<Rightarrow> int \<Rightarrow> string \<Rightarrow> string \<Rightarrow> string \<Rightarrow> string \<Rightarrow> string option \<Rightarrow> RequestInfo" where
  "RequestInfo_full mem now rid pMethod pPath pArgs pBody =
     (RequestInfo_members mem now)\<lparr>mId := rid, mMethod := pMethod, mPath := pPath,
        mArgs := pArgs, mBody := (case pBody of None \<Rightarrow> [] | Some b \<Rightarrow> b)\<rparr>"

definition RequestInfo_serialization ::
    "RequestInfo \<Rightarrow> int \<Rightarrow> (string, string) std_map \<Rightarrow> string \<Rightarrow> (string, string) std_map \<Rightarrow>
     string \<Rightarrow> (string, string) std_map \<Rightarrow> string \<Rightarrow> RequestInfo" where
  "RequestInfo_serialization mem now reqHeader reqBody respHeader respBody dupHeader dupBody =
     (RequestInfo_members mem now)\<lparr>mReqHeader := reqHeader, mReqBody := reqBody,
        mResponseHeader := respHeader, mResponseBody := respBody,
        mDupResponseHeader := dupHeader, mDupResponseBody := dupBody\<rparr>"

text \<open>C++ integer division and remainder truncate towards zero.\<close>

definition c_div :: "int \<Rightarrow> int \<Rightarrow> int" where
  "c_div a b = sgn a * sgn b * (\<bar>a\<bar> div \<bar>b\<bar>)"

definition c_mod :: "int \<Rightarrow> int \<Rightarrow> int" where
  "c_mod a b = a - c_div a b * b"

definition RequestInfo_start :: "RequestInfo \<Rightarrow> string \<Rightarrow> int \<Rightarrow> RequestInfo" where
  "RequestInfo_start mem rid startTime =
     (RequestInfo_members mem
        (c_div startTime 1000000 * 1000000 + c_mod startTime 1000000))\<lparr>mId := rid\<rparr>"

definition RequestInfo_poison :: "RequestInfo \<Rightarrow> int \<Rightarrow> RequestInfo" where
  "RequestInfo_poison mem now = (RequestInfo_members mem now)\<lparr>mPoison := True\<rparr>"

text \<open>The members functions.\<close>

definition eos_seen :: "bool \<Rightarrow> int \<Rightarrow> RequestInfo \<Rightarrow> RequestInfo" where
  "eos_seen valToSet now r =
     (let r' = (if \<not> mEOS r \<and> valToSet then r\<lparr>mElapsedTime := now - mStartTime r\<rparr> else r)
      in r'\<lparr>mEOS := valToSet\<rparr>)"

definition flatten :: "key_val_list \<Rightarrow> string \<Rightarrow> string" where
  "flatten kvl sep = foldl (\<lambda>out (k, v). out @ k @ sep @ v) [] kvl"

definition isPoison :: "RequestInfo \<Rightarrow> bool" where
  "isPoison r = mPoison r"

definition hasBody :: "RequestInfo \<Rightarrow> bool" where
  "hasBody r \<longleftrightarrow> mBody r \<noteq> []"

definition Serialize :: "string \<Rightarrow> string \<Rightarrow> string" where
  "Serialize toSerialize ss =
     ss @ pad_left 8 (CHR ''0'') (show_nat (length toSerialize)) @ toSerialize"

definition to_int32 :: "int \<Rightarrow> int" where
  "to_int32 i = sint (word_of_int i :: 32 word)"

definition getElapsedTimeMS :: "RequestInfo \<Rightarrow> int" where
  "getElapsedTimeMS r = to_int32 (c_div (mElapsedTime r) 1000)"

definition resetStartTime :: "int \<Rightarrow> RequestInfo \<Rightarrow> RequestInfo" where
  "resetStartTime now r = r\<lparr>mStartTime := now\<rparr>"

section \<open>Lemmas\<close>

lemma to_int32_id: "- (2 ^ 31) \<le> n \<Longrightarrow> n < 2 ^ 31 \<Longrightarrow> to_int32 n = n"
  unfolding to_int32_def by transfer (simp add: signed_take_bit_int_eq_self)

lemma c_div_mod: "c_div a b * b + c_mod a b = a"
  by (simp add: c_mod_def)

lemma RequestInfo_start_time [simp]: "mStartTime (RequestInfo_start mem rid t) = t"
  by (simp add: RequestInfo_start_def RequestInfo_members_def c_div_mod)

text \<open>Only the default constructor builds a poison pill.\<close>

lemma isPoison_constructors:
  "isPoison (RequestInfo_poison mem now)"
  "\<not> isPoison (RequestInfo_start mem rid t)"
  "\<not> isPoison (RequestInfo_full mem now rid m p a b)"
  "\<not> isPoison (RequestInfo_serialization mem now rh rb ph pb dh db)"
  by (simp_all add: isPoison_def RequestInfo_poison_def RequestInfo_start_def
      RequestInfo_full_def RequestInfo_serialization_def RequestInfo_members_def)

text \<open>The elapsed time is fixed by the first end of stream; later ones do not move it.\<close>

lemma eos_seen_first: "\<not> mEOS r \<Longrightarrow> mElapsedTime (eos_seen True now r) = now - mStartTime r"
  by (simp add: eos_seen_def)

lemma eos_seen_again: "mEOS r \<Longrightarrow> mElapsedTime (eos_seen b now r) = mElapsedTime r"
  by (simp add: eos_seen_def)

lemma eos_seen_mEOS [simp]: "mEOS (eos_seen b now r) = b"
  by (simp add: eos_seen_def Let_def)

lemma flatten_foldl: "foldl (\<lambda>out (k, v). out @ k @ sep @ v) acc kvl =
    acc @ concat (map (\<lambda>(k, v). k @ sep @ v) kvl)"
  by (induction kvl arbitrary: acc) (auto split: prod.splits)

lemma flatten_concat: "flatten kvl sep = concat (map (\<lambda>(k, v). k @ sep @ v) kvl)"
  by (simp add: flatten_def flatten_foldl)

text \<open>A section of the dup format: eight digits, then the content.\<close>

definition section_prefix :: "string \<Rightarrow> string" where
  "section_prefix s = pad_left 8 (CHR ''0'') (show_nat (length s))"

lemma Serialize_section: "Serialize s ss = ss @ section_prefix s @ s"
  by (simp add: Serialize_def section_prefix_def)

lemma length_section_prefix: "length s < 10 ^ 8 \<Longrightarrow> length (section_prefix s) = 8"
  using length_show_nat [of 8 "length s"] by (simp add: section_prefix_def)

lemma section_prefix_digits: "list_all is_digit (section_prefix s)"
  by (simp add: section_prefix_def pad_zero_digits)

lemma section_prefix_nonempty [simp]: "section_prefix s \<noteq> []"
  by (simp add: section_prefix_def pad_left_def)

lemma dec_value_section_prefix [simp]: "dec_value (section_prefix s) = length s"
  by (simp add: section_prefix_def)

end
