(* ===== verification/Multi_Thread_Queue.thy ===== *)
theory Multi_Thread_Queue
  imports Dup_Prelude "HOL-Library.Sublist"
begin

text \<open>
  \<open>MultiThreadQueue\<close> (MultiThreadQueue.hh, MultiThreadQueue.cc): the bounded queue
  between the Apache threads and the workers. \<open>push\<close>, \<open>push_front\<close> and \<open>pop\<close>
  hold the mutex for their whole body, so each is one atomic step; \<open>pop\<close> on an empty
  queue waits, which is \<open>None\<close>. \<open>getCounters\<close> takes no lock: its reads and its resets
  are separate steps in the interleaving model below. The counters have the width of the
  code's \<open>unsigned\<close>, the drop size that of \<open>size_t\<close>.
\<close>

record 'a MultiThreadQueue =
  mQueue :: "'a list"
  mInCount :: uint32
  mOutCount :: uint32
  mDropCount :: uint32
  mDropSize :: size_t
  mRunning :: bool

definition MultiThreadQueue_init :: "'a MultiThreadQueue" where
  "MultiThreadQueue_init =
     \<lparr>mQueue = [], mInCount = 0, mOutCount = 0, mDropCount = 0, mDropSize = 0, mRunning = True\<rparr>"

definition queue_full :: "'a MultiThreadQueue \<Rightarrow> bool" where
  "queue_full q \<longleftrightarrow> mDropSize q > 0 \<and> length (mQueue q) \<ge> unat (mDropSize q)"

definition push :: "'a \<Rightarrow> 'a MultiThreadQueue \<Rightarrow> 'a MultiThreadQueue" where
  "push object q =
     (if queue_full q then q\<lparr>mDropCount := mDropCount q + 1\<rparr>
      else q\<lparr>mQueue := mQueue q @ [object], mInCount := mInCount q + 1\<rparr>)"

definition push_front :: "'a \<Rightarrow> 'a MultiThreadQueue \<Rightarrow> 'a MultiThreadQueue" where
  "push_front object q =
     (let q' = (if queue_full q
                then q\<lparr>mDropCount := mDropCount q + 1, mQueue := butlast (mQueue q)\<rparr> else q)
      in q'\<lparr>mQueue := object # mQueue q'\<rparr>)"

definition pop :: "'a MultiThreadQueue \<Rightarrow> ('a \<times> 'a MultiThreadQueue) option" where
  "pop q = (case mQueue q of
       [] \<Rightarrow> None
     | x # xs \<Rightarrow> Some (x, q\<lparr>mQueue := xs, mOutCount := mOutCount q + 1\<rparr>))"

definition queue_size :: "'a MultiThreadQueue \<Rightarrow> nat" where
  "queue_size q = length (mQueue q)"

definition setDropSize :: "size_t \<Rightarrow> 'a MultiThreadQueue \<Rightarrow> 'a MultiThreadQueue" where
  "setDropSize pDropSize q = q\<lparr>mDropSize := pDropSize\<rparr>"

definition getCounters :: "'a MultiThreadQueue \<Rightarrow> (uint32 \<times> uint32 \<times> uint32) \<times> 'a MultiThreadQueue" where
  "getCounters q = ((mInCount q, mOutCount q, mDropCount q),
     q\<lparr>mInCount := 0, mOutCount := 0, mDropCount := 0\<rparr>)"

definition queue_stop :: "'a MultiThreadQueue \<Rightarrow> 'a MultiThreadQueue" where
  "queue_stop q = q\<lparr>mRunning := False\<rparr>"

definition isRunning :: "'a MultiThreadQueue \<Rightarrow> bool" where
  "isRunning q = mRunning q"

section \<open>The bound\<close>

text \<open>With a drop size set, the queue never holds more items than that.\<close>

definition queue_bounded :: "'a MultiThreadQueue \<Rightarrow> bool" where
  "queue_bounded q \<longleftrightarrow> (mDropSize q > 0 \<longrightarrow> length (mQueue q) \<le> unat (mDropSize q))"

lemma mDropSize_frame [simp]:
  "mDropSize (push x q) = mDropSize q" "mDropSize (push_front x q) = mDropSize q"
  "mRunning (push x q) = mRunning q" "mRunning (push_front x q) = mRunning q"
  "mQueue (setDropSize n q) = mQueue q" "mDropSize (setDropSize n q) = n"
  "mQueue (queue_stop q) = mQueue q" "mDropSize (queue_stop q) = mDropSize q"
  "mQueue (snd (getCounters q)) = mQueue q" "mDropSize (snd (getCounters q)) = mDropSize q"
  by (simp_all add: push_def push_front_def Let_def setDropSize_def queue_stop_def getCounters_def)

lemma pop_Some:
  "pop q = Some (x, q') \<longleftrightarrow>
     mQueue q \<noteq> [] \<and> x = hd (mQueue q) \<and>
     q' = q\<lparr>mQueue := tl (mQueue q), mOutCount := mOutCount q + 1\<rparr>"
  by (cases "mQueue q") (auto simp: pop_def)

lemma pop_None: "pop q = None \<longleftrightarrow> mQueue q = []"
  by (simp add: pop_def split: list.split)

lemma push_not_full:
  "\<not> queue_full q \<Longrightarrow> mQueue (push x q) = mQueue q @ [x]"
  by (simp add: push_def)

lemma push_full: "queue_full q \<Longrightarrow> mQueue (push x q) = mQueue q"
  by (simp add: push_def)

lemma mQueue_push_front:
  "mQueue (push_front x q) = x # (if queue_full q then butlast (mQueue q) else mQueue q)"
  by (simp add: push_front_def)

lemma queue_full_pos: "queue_full q \<Longrightarrow> mQueue q \<noteq> []"
  by (auto simp: queue_full_def unat_eq_0 word_gt_0)

lemma queue_bounded_push: "queue_bounded q \<Longrightarrow> queue_bounded (push x q)"
  by (auto simp: queue_bounded_def push_def queue_full_def)

lemma queue_bounded_push_front: "queue_bounded q \<Longrightarrow> queue_bounded (push_front x q)"
  using queue_full_pos [of q]
  by (auto simp: queue_bounded_def mQueue_push_front queue_full_def Suc_le_eq)

lemma queue_bounded_pop: "queue_bounded q \<Longrightarrow> pop q = Some (y, q') \<Longrightarrow> queue_bounded q'"
  by (auto simp: queue_bounded_def pop_Some)

section \<open>The queue interface the thread pool relies on\<close>

text \<open>A queue that hands its items out in order, in which an urgent item can be placed in
  front, and that never refuses an urgent item.\<close>

locale work_queue =
  fixes items :: "'q \<Rightarrow> 'a list"
    and put :: "'a \<Rightarrow> 'q \<Rightarrow> 'q"
    and put_urgent :: "'a \<Rightarrow> 'q \<Rightarrow> 'q"
    and take_first :: "'q \<Rightarrow> ('a \<times> 'q) option"
    and room :: "'q \<Rightarrow> nat option"
  assumes put_items: "items (put x q) = items q @ [x] \<or> items (put x q) = items q"
    and put_room: "room (put x q) = room q" "room (put_urgent x q) = room q"
    and put_when_room: "(case room q of None \<Rightarrow> True | Some n \<Rightarrow> length (items q) < n) \<Longrightarrow>
          items (put x q) = items q @ [x]"
    and urgent_when_room: "(case room q of None \<Rightarrow> True | Some n \<Rightarrow> length (items q) < n) \<Longrightarrow>
          items (put_urgent x q) = x # items q"
    and urgent_evicts: "room q = Some n \<Longrightarrow> n \<le> length (items q) \<Longrightarrow>
          items (put_urgent x q) = x # butlast (items q)"
    and take_first_hd: "take_first q = Some (x, q') \<Longrightarrow> items q = x # items q'"
    and take_first_None: "take_first q = None \<longleftrightarrow> items q = []"
begin

lemma urgent_items: "\<exists>ys. items (put_urgent x q) = x # ys \<and> (ys = items q \<or> ys = butlast (items q))"
proof (cases "room q")
  case None
  then show ?thesis by (simp add: urgent_when_room)
next
  case (Some n)
  then show ?thesis
    by (cases "length (items q) < n") (simp_all add: urgent_when_room urgent_evicts)
qed

lemma urgent_room: "room ((put_urgent x ^^ n) q) = room q"
  by (induction n) (simp_all add: put_room)

text \<open>Any number of urgent items up to the room of the queue all end up in front: none of
  them pushes out another.\<close>

lemma urgent_prefix:
  assumes "\<forall>m. room q = Some m \<longrightarrow> n \<le> m"
  shows "\<exists>ys. items ((put_urgent x ^^ n) q) = replicate n x @ ys"
  using assms
proof (induction n)
  case 0
  then show ?case by simp
next
  case (Suc n)
  then have "\<forall>m. room q = Some m \<longrightarrow> n \<le> m" by auto
  then obtain ys where ys: "items ((put_urgent x ^^ n) q) = replicate n x @ ys"
    using Suc.IH by blast
  let ?q = "(put_urgent x ^^ n) q"
  show ?case
  proof (cases "case room ?q of None \<Rightarrow> True | Some m \<Rightarrow> length (items ?q) < m")
    case True
    then show ?thesis by (simp add: urgent_when_room ys)
  next
    case False
    then obtain m where m: "room ?q = Some m" "m \<le> length (items ?q)"
      by (auto split: option.splits)
    then have "ys \<noteq> []" using Suc.prems urgent_room ys by auto
    then show ?thesis using m by (simp add: urgent_evicts ys butlast_append)
  qed
qed

end

definition queue_room :: "'a MultiThreadQueue \<Rightarrow> nat option" where
  "queue_room q = (if mDropSize q > 0 then Some (unat (mDropSize q)) else None)"

lemma queue_full_room:
  "queue_full q \<longleftrightarrow> \<not> (case queue_room q of None \<Rightarrow> True | Some n \<Rightarrow> length (mQueue q) < n)"
  by (auto simp: queue_full_def queue_room_def)

interpretation mtq: work_queue mQueue push push_front pop queue_room
  by unfold_locales
    (auto simp: push_def queue_full_room mQueue_push_front pop_Some pop_None queue_room_def
      split: option.splits if_splits)

section \<open>Sequences of operations\<close>

text \<open>The operations under the mutex, in the order in which the threads obtain it. A
  \<open>pop\<close> on an empty queue waits: the queue is unchanged and nothing is delivered.\<close>

datatype 'a queue_op = OpPush 'a | OpPushFront 'a | OpPop

fun queue_exec :: "'a queue_op \<Rightarrow> 'a MultiThreadQueue \<Rightarrow> 'a list \<times> 'a MultiThreadQueue" where
  "queue_exec (OpPush x) q = ([], push x q)"
| "queue_exec (OpPushFront x) q = ([], push_front x q)"
| "queue_exec OpPop q = (case pop q of None \<Rightarrow> ([], q) | Some (x, q') \<Rightarrow> ([x], q'))"

fun queue_run :: "'a queue_op list \<Rightarrow> 'a MultiThreadQueue \<Rightarrow> 'a list \<times> 'a MultiThreadQueue" where
  "queue_run [] q = ([], q)"
| "queue_run (op # ops) q =
     (case queue_exec op q of (o1, q1) \<Rightarrow> case queue_run ops q1 of (o2, q2) \<Rightarrow> (o1 @ o2, q2))"

fun pushed :: "'a queue_op list \<Rightarrow> 'a list" where
  "pushed [] = []"
| "pushed (OpPush x # ops) = x # pushed ops"
| "pushed (op # ops) = pushed ops"

definition enqueue_calls :: "'a queue_op list \<Rightarrow> nat" where
  "enqueue_calls ops = length (filter (\<lambda>op. op \<noteq> OpPop) ops)"

abbreviation no_push_front :: "'a queue_op list \<Rightarrow> bool" where
  "no_push_front ops \<equiv> list_all (\<lambda>op. \<forall>x. op \<noteq> OpPushFront x) ops"

text \<open>The items present, delivered and dropped, as the counters have them.\<close>

definition accounted :: "'a MultiThreadQueue \<Rightarrow> uint32" where
  "accounted q = of_nat (length (mQueue q)) + mOutCount q + mDropCount q"

lemma queue_exec_bounded: "queue_bounded q \<Longrightarrow> queue_bounded (snd (queue_exec op q))"
  by (cases op) (auto simp: queue_bounded_push queue_bounded_push_front
      split: option.split dest: queue_bounded_pop)

lemma queue_exec_accounted:
  "accounted (snd (queue_exec op q)) = accounted q + (if op = OpPop then 0 else 1)"
proof (cases op)
  case (OpPush x)
  then show ?thesis by (simp add: accounted_def push_def)
next
  case (OpPushFront x)
  then show ?thesis
    using queue_full_pos [of q]
    by (auto simp: accounted_def push_front_def Let_def) (cases "mQueue q"; simp)
next
  case OpPop
  then show ?thesis by (cases "mQueue q") (simp_all add: accounted_def pop_def)
qed

lemma queue_run_bounded: "queue_bounded q \<Longrightarrow> queue_bounded (snd (queue_run ops q))"
proof (induction ops arbitrary: q)
  case (Cons op ops)
  then show ?case using queue_exec_bounded [of q op] by (simp split: prod.split) (metis snd_conv)
qed simp

lemma queue_run_accounted:
  "accounted (snd (queue_run ops q)) = accounted q + of_nat (enqueue_calls ops)"
proof (induction ops arbitrary: q)
  case Nil
  then show ?case by (simp add: enqueue_calls_def)
next
  case (Cons op ops)
  obtain o1 q1 where e: "queue_exec op q = (o1, q1)" by fastforce
  have "accounted q1 = accounted q + (if op = OpPop then 0 else 1)"
    using queue_exec_accounted [of op q] e by simp
  moreover have "snd (queue_run (op # ops) q) = snd (queue_run ops q1)"
    by (simp add: e split: prod.split)
  ultimately show ?case using Cons.IH [of q1] by (simp add: enqueue_calls_def)
qed

text \<open>Without urgent items, what has been delivered followed by what is waiting is what was
  there followed by the accepted items, in the order of their arrival.\<close>

lemma queue_run_order:
  assumes "no_push_front ops" and "queue_run ops q = (outs, q')"
  shows "\<exists>acc. subseq acc (pushed ops) \<and> outs @ mQueue q' = mQueue q @ acc \<and>
           mInCount q' = mInCount q + of_nat (length acc)"
  using assms
proof (induction ops arbitrary: q outs)
  case Nil
  then show ?case by auto
next
  case (Cons op ops)
  obtain o1 q1 where e: "queue_exec op q = (o1, q1)" by fastforce
  obtain o2 where r: "queue_run ops q1 = (o2, q')" and outs: "outs = o1 @ o2"
    using Cons.prems(2) e by (auto split: prod.splits)
  obtain acc where acc: "subseq acc (pushed ops)" "o2 @ mQueue q' = mQueue q1 @ acc"
      "mInCount q' = mInCount q1 + of_nat (length acc)"
    using Cons.IH [OF _ r] Cons.prems(1) by auto
  show ?case
  proof (cases op)
    case (OpPush x)
    show ?thesis
    proof (cases "queue_full q")
      case True
      with OpPush e acc outs show ?thesis
        by (intro exI [of _ acc]) (auto simp: push_def)
    next
      case False
      with OpPush e acc outs show ?thesis
        by (intro exI [of _ "x # acc"]) (auto simp: push_def)
    qed
  next
    case (OpPushFront x)
    with Cons.prems(1) show ?thesis by simp
  next
    case OpPop
    with e acc outs show ?thesis
      by (cases "mQueue q") (auto simp: pop_def)
  qed
qed

section \<open>Reading the counters without the lock\<close>

text \<open>The manager thread reads the counters and then resets them; an operation of another
  thread can come between the two.\<close>

definition getCounters_read :: "'a MultiThreadQueue \<Rightarrow> uint32 \<times> uint32 \<times> uint32" where
  "getCounters_read q = (mInCount q, mOutCount q, mDropCount q)"

definition getCounters_reset :: "'a MultiThreadQueue \<Rightarrow> 'a MultiThreadQueue" where
  "getCounters_reset q = q\<lparr>mInCount := 0, mOutCount := 0, mDropCount := 0\<rparr>"

lemma getCounters_steps: "getCounters q = (getCounters_read q, getCounters_reset q)"
  by (simp add: getCounters_def getCounters_read_def getCounters_reset_def)

section \<open>Properties\<close>

text \<open>C19: Starting from the empty queue, whatever pushes and pops the threads perform, in
  whatever order they obtain the mutex, what has been delivered followed by what is waiting
  is a subsequence of the pushed items in the order of the pushes, and its length is the
  number of accepted items the counter \<open>mInCount\<close> shows (modulo its width).\<close>

theorem queue_fifo:
  assumes "no_push_front ops"
    and "queue_run ops (setDropSize n MultiThreadQueue_init) = (outs, q')"
  shows "subseq (outs @ mQueue q') (pushed ops) \<and>
         mInCount q' = of_nat (length (outs @ mQueue q'))"
  using queue_run_order [OF assms] by (auto simp: setDropSize_def MultiThreadQueue_init_def)

theorem queue_fifo_witness:
  "subseq ([1] @ mQueue (snd (queue_run [OpPush 1, OpPush 2, OpPush (3 :: nat), OpPop]
       (setDropSize 2 MultiThreadQueue_init)))) [1, 2, 3 :: nat] \<and>
   mQueue (snd (queue_run [OpPush 1, OpPush 2, OpPush (3 :: nat), OpPop]
       (setDropSize 2 MultiThreadQueue_init))) = [2]"
  using queue_fifo [of "[OpPush 1, OpPush 2, OpPush (3 :: nat), OpPop]" 2 "[1]"]
  by (simp add: setDropSize_def MultiThreadQueue_init_def push_def pop_def queue_full_def)

text \<open>C20: Nothing is lost from the counts: the number of items given to \<open>push\<close> and
  \<open>push_front\<close> is, modulo \<open>2^32\<close>, the number of items waiting, plus the items
  counted as delivered, plus the items counted as dropped.\<close>

theorem queue_accounting:
  "of_nat (length (mQueue (snd (queue_run ops (setDropSize n MultiThreadQueue_init))))) +
   mOutCount (snd (queue_run ops (setDropSize n MultiThreadQueue_init))) +
   mDropCount (snd (queue_run ops (setDropSize n MultiThreadQueue_init))) =
   of_nat (enqueue_calls ops)"
  using queue_run_accounted [of ops "setDropSize n MultiThreadQueue_init"]
  by (simp add: accounted_def setDropSize_def MultiThreadQueue_init_def)


end
