(* ===== verification/Thread_Pool.thy ===== *)
theory Thread_Pool
  imports Multi_Thread_Queue Std_Map
begin

text \<open>
  \<open>ThreadPool\<close> (ThreadPool.hh, ThreadPool.cc): the pool of workers that serve the queue and
  its manager thread. A thread is the number of its creation. What the manager learns from
  outside is an argument: the sizes of the queue it samples without the lock, which threads
  \<open>timed_join\<close> reports as ended, and the text each statistics provider returns. The
  comparison of the load uses single precision floating point, written out below. The
  interleaving with the workers is the step relation of the last sections.
\<close>

section \<open>Single precision arithmetic on the values the manager compares\<close>

text \<open>The finite values are non-negative multiples of \<open>2^-96\<close>: sizes are below
  \<open>2^64\<close>, so quotients are above \<open>2^-65\<close> or zero, and 24 significant bits of them
  are all such multiples. \<open>rne num den\<close> rounds \<open>num / den\<close> to 24 significant bits, to
  nearest, ties to even. A division by zero gives infinity or not-a-number.\<close>

datatype float32 = Finite nat | Infinite | NotANumber

fun bit_length :: "nat \<Rightarrow> nat" where
  "bit_length n = (if n = 0 then 0 else Suc (bit_length (n div 2)))"

declare bit_length.simps [simp del]

definition rne :: "nat \<Rightarrow> nat \<Rightarrow> nat" where
  "rne num den =
     (let k = bit_length (num div den) - 24;
          d = num div (den * 2 ^ k);
          r = num mod (den * 2 ^ k);
          up = (den * 2 ^ k < 2 * r \<or> 2 * r = den * 2 ^ k \<and> odd d)
      in (if up then d + 1 else d) * 2 ^ k)"

definition float_of_nat :: "nat \<Rightarrow> float32" where
  "float_of_nat n = Finite (rne (n * 2 ^ 96) 1)"

fun float_div :: "float32 \<Rightarrow> float32 \<Rightarrow> float32" where
  "float_div (Finite x) (Finite y) =
     (if y = 0 then (if x = 0 then NotANumber else Infinite) else Finite (rne (x * 2 ^ 96) y))"
| "float_div (Finite x) Infinite = Finite 0"
| "float_div Infinite (Finite y) = Infinite"
| "float_div _ _ = NotANumber"

fun float_less :: "float32 \<Rightarrow> float32 \<Rightarrow> bool" where
  "float_less (Finite x) (Finite y) \<longleftrightarrow> x < y"
| "float_less (Finite x) Infinite \<longleftrightarrow> True"
| "float_less _ _ \<longleftrightarrow> False"

lemma float_of_nat_small:
  "float_of_nat 0 = Finite 0" "float_of_nat (Suc 0) = Finite (2 ^ 96)"
  "float_of_nat 10 = Finite (10 * 2 ^ 96)" "rne 0 n = 0"
  by (simp_all add: float_of_nat_def rne_def bit_length.simps)

section \<open>The pool\<close>

type_synonym thread = nat

text \<open>\<open>mAdditionalStats\<close> holds function objects; the model keeps the number of each and
  takes what a call returns from the environment. \<open>pool_created\<close> counts the threads
  created so far, which names the next one.\<close>

record 'a ThreadPool =
  mThreads :: "thread list"
  mManagerThread :: bool
  mMinThreads :: size_t
  mMaxThreads :: size_t
  mMinQueued :: size_t
  mMaxQueued :: size_t
  mBeingKilled :: uint32
  mStatsInterval :: uint32
  pool_mQueue :: "'a MultiThreadQueue"
  mPoisonItem :: 'a
  pool_mRunning :: bool
  mProgramName :: string
  mAdditionalStats :: "(string, nat) std_map"
  pool_created :: nat

definition mManageInterval :: uint32 where
  "mManageInterval = 100000"

definition ThreadPool_init :: "'a \<Rightarrow> 'a ThreadPool" where
  "ThreadPool_init pPoisonItem = \<lparr>
     mThreads = [], mManagerThread = False, mMinThreads = 1, mMaxThreads = 10,
     mMinQueued = 1, mMaxQueued = 10, mBeingKilled = 0, mStatsInterval = 10000000,
     pool_mQueue = MultiThreadQueue_init, mPoisonItem = pPoisonItem, pool_mRunning = False,
     mProgramName = ''ModDup'', mAdditionalStats = [], pool_created = 0\<rparr>"

definition newThread :: "'a ThreadPool \<Rightarrow> 'a ThreadPool" where
  "newThread p = p\<lparr>mThreads := mThreads p @ [pool_created p], pool_created := pool_created p + 1\<rparr>"

definition poisonThread :: "'a ThreadPool \<Rightarrow> 'a ThreadPool" where
  "poisonThread p =
     p\<lparr>pool_mQueue := push_front (mPoisonItem p) (pool_mQueue p),
       mBeingKilled := mBeingKilled p + 1\<rparr>"

text \<open>The loop over the list: a thread that has ended is erased and counted off.\<close>

fun collect_loop :: "(thread \<Rightarrow> bool) \<Rightarrow> thread list \<Rightarrow> uint32 \<Rightarrow> thread list \<times> uint32" where
  "collect_loop joined [] killed = ([], killed)"
| "collect_loop joined (t # ts) killed =
     (if joined t then collect_loop joined ts (killed - 1)
      else (case collect_loop joined ts killed of (ts', killed') \<Rightarrow> (t # ts', killed')))"

definition collectKilled :: "(thread \<Rightarrow> bool) \<Rightarrow> 'a ThreadPool \<Rightarrow> 'a ThreadPool" where
  "collectKilled joined p =
     (case collect_loop joined (mThreads p) (mBeingKilled p) of
        (ts, killed) \<Rightarrow> p\<lparr>mThreads := ts, mBeingKilled := killed\<rparr>)"

definition pool_size :: "'a ThreadPool \<Rightarrow> size_t" where
  "pool_size p = of_nat (length (mThreads p))"

text \<open>The part of an iteration of \<open>run\<close> that adapts the number of threads;
  \<open>queued\<close> is the size of the queue sampled at its start.\<close>

definition manageThreads :: "nat \<Rightarrow> (thread \<Rightarrow> bool) \<Rightarrow> 'a ThreadPool \<Rightarrow> 'a ThreadPool" where
  "manageThreads queued joined p =
     (let lQueuedPerThread = float_div (float_of_nat queued) (float_of_nat (length (mThreads p)));
          p1 = collectKilled joined p
      in if float_less (float_of_nat (unat (mMaxQueued p1))) lQueuedPerThread \<and>
            pool_size p1 < mMaxThreads p1
         then newThread p1
         else if float_less lQueuedPerThread (float_of_nat (unat (mMinQueued p1))) \<and>
                 pool_size p1 - ucast (mBeingKilled p1) > mMinThreads p1
         then poisonThread p1
         else p1)"

text \<open>The statistics: the line of the log and the warning about dropped requests.\<close>

record stats_line =
  st_program :: string
  st_pid :: uint32
  st_queued :: nat
  st_threads :: nat
  st_in :: uint32
  st_out :: uint32
  st_dropped :: uint32
  st_timeouts :: string
  st_duplicates :: string

definition stat_text :: "(nat \<Rightarrow> string) \<Rightarrow> string \<Rightarrow> 'a ThreadPool \<Rightarrow> string" where
  "stat_text provide name p =
     (case map_find (mAdditionalStats p) name of None \<Rightarrow> ''??'' | Some f \<Rightarrow> provide f)"

definition emitStats ::
    "uint32 \<Rightarrow> (nat \<Rightarrow> string) \<Rightarrow> nat \<Rightarrow> uint32 \<Rightarrow> 'a ThreadPool \<Rightarrow>
       'a ThreadPool \<times> uint32 \<times> stats_line option \<times> uint32 option" where
  "emitStats pid provide lQueued iterations p =
     (let it = iterations + 1 in
      if it * mManageInterval \<ge> mStatsInterval p then
        (case getCounters (pool_mQueue p) of ((lInCount, lOutCount, lDropCount), q) \<Rightarrow>
           let p' = p\<lparr>pool_mQueue := q\<rparr> in
           (p', 0,
            Some \<lparr>st_program = mProgramName p', st_pid = pid, st_queued = lQueued,
              st_threads = length (mThreads p'), st_in = lInCount, st_out = lOutCount,
              st_dropped = lDropCount, st_timeouts = stat_text provide ''#TmOut'' p',
              st_duplicates = stat_text provide ''#DupReq'' p'\<rparr>,
            if lDropCount > 0 then Some lDropCount else None))
      else (p, it, None, None))"

definition run_iteration ::
    "uint32 \<Rightarrow> (nat \<Rightarrow> string) \<Rightarrow> nat \<Rightarrow> nat \<Rightarrow> (thread \<Rightarrow> bool) \<Rightarrow> uint32 \<Rightarrow> 'a ThreadPool \<Rightarrow>
       'a ThreadPool \<times> uint32 \<times> stats_line option \<times> uint32 option" where
  "run_iteration pid provide lQueued queued joined iterations p =
     emitStats pid provide lQueued iterations (manageThreads queued joined p)"

text \<open>The end of \<open>run\<close>: a pill for every thread of the list, then one collection.\<close>

definition poisonAll :: "'a ThreadPool \<Rightarrow> 'a ThreadPool" where
  "poisonAll p = (poisonThread ^^ length (mThreads p)) p"

definition run_shutdown :: "(thread \<Rightarrow> bool) \<Rightarrow> 'a ThreadPool \<Rightarrow> 'a ThreadPool" where
  "run_shutdown joined p = collectKilled joined (poisonAll p)"

definition setStatsInterval :: "uint32 \<Rightarrow> 'a ThreadPool \<Rightarrow> 'a ThreadPool" where
  "setStatsInterval pStatsInterval p = p\<lparr>mStatsInterval := pStatsInterval\<rparr>"

definition addStat :: "string \<Rightarrow> nat \<Rightarrow> 'a ThreadPool \<Rightarrow> 'a ThreadPool" where
  "addStat pStatName pStatProvider p =
     p\<lparr>mAdditionalStats := map_put pStatName pStatProvider (mAdditionalStats p)\<rparr>"

definition setProgramName :: "string \<Rightarrow> 'a ThreadPool \<Rightarrow> 'a ThreadPool" where
  "setProgramName pProgramName p = p\<lparr>mProgramName := pProgramName\<rparr>"

definition pool_setThreads :: "size_t \<Rightarrow> size_t \<Rightarrow> 'a ThreadPool \<Rightarrow> 'a ThreadPool" where
  "pool_setThreads pMinThreads pMaxThreads p =
     p\<lparr>mMinThreads := pMinThreads, mMaxThreads := pMaxThreads\<rparr>"

definition pool_setQueue :: "size_t \<Rightarrow> size_t \<Rightarrow> 'a ThreadPool \<Rightarrow> 'a ThreadPool" where
  "pool_setQueue pMinQueued pMaxQueued p =
     p\<lparr>mMinQueued := pMinQueued, mMaxQueued := pMaxQueued\<rparr>"

definition pool_start :: "'a ThreadPool \<Rightarrow> 'a ThreadPool" where
  "pool_start p =
     (let p1 = p\<lparr>pool_mRunning := True,
                 pool_mQueue := setDropSize (mMaxQueued p * mMaxThreads p) (pool_mQueue p)\<rparr>;
          p2 = (newThread ^^ unat (mMinThreads p1)) p1
      in p2\<lparr>mManagerThread := True\<rparr>)"

text \<open>\<open>stop\<close> in the thread that calls it: the manager sees \<open>mRunning\<close> false and runs
  its shutdown part, the join waits for it.\<close>

definition pool_stop :: "(thread \<Rightarrow> bool) \<Rightarrow> 'a ThreadPool \<Rightarrow> 'a ThreadPool" where
  "pool_stop joined p =
     (let p1 = p\<lparr>pool_mRunning := False, pool_mQueue := queue_stop (pool_mQueue p)\<rparr>
      in if mManagerThread p1
         then (run_shutdown joined p1)\<lparr>mManagerThread := False\<rparr>
         else p1)"

definition pool_push :: "'a \<Rightarrow> 'a ThreadPool \<Rightarrow> 'a ThreadPool" where
  "pool_push pItem p = p\<lparr>pool_mQueue := push pItem (pool_mQueue p)\<rparr>"

definition getThreadCount :: "'a ThreadPool \<Rightarrow> nat" where
  "getThreadCount p = length (mThreads p)"

section \<open>Facts about the operations\<close>

lemma collect_loop_eq:
  "collect_loop joined ts killed =
     (filter (\<lambda>t. \<not> joined t) ts, killed - of_nat (length (filter joined ts)))"
  by (induction joined ts killed rule: collect_loop.induct) auto

lemma collectKilled_eq:
  "collectKilled joined p = p\<lparr>mThreads := filter (\<lambda>t. \<not> joined t) (mThreads p),
     mBeingKilled := mBeingKilled p - of_nat (length (filter joined (mThreads p)))\<rparr>"
  by (simp add: collectKilled_def collect_loop_eq)

lemma length_filter_joined:
  "length (filter joined ts) + length (filter (\<lambda>t. \<not> joined t) ts) = length ts"
  by (rule sum_length_filter_compl)

lemma poisonThread_frame [simp]:
  "mThreads (poisonThread p) = mThreads p" "mPoisonItem (poisonThread p) = mPoisonItem p"
  "mMaxThreads (poisonThread p) = mMaxThreads p" "mMinThreads (poisonThread p) = mMinThreads p"
  "pool_created (poisonThread p) = pool_created p"
  "pool_mQueue (poisonThread p) = push_front (mPoisonItem p) (pool_mQueue p)"
  "mBeingKilled (poisonThread p) = mBeingKilled p + 1"
  by (simp_all add: poisonThread_def)

lemma newThread_frame [simp]:
  "mThreads (newThread p) = mThreads p @ [pool_created p]"
  "pool_created (newThread p) = Suc (pool_created p)"
  "mBeingKilled (newThread p) = mBeingKilled p" "pool_mQueue (newThread p) = pool_mQueue p"
  "mMaxThreads (newThread p) = mMaxThreads p" "mMinThreads (newThread p) = mMinThreads p"
  "mPoisonItem (newThread p) = mPoisonItem p" "pool_mRunning (newThread p) = pool_mRunning p"
  by (simp_all add: newThread_def)

lemma poisonThread_iterate:
  "pool_mQueue ((poisonThread ^^ n) p) = (push_front (mPoisonItem p) ^^ n) (pool_mQueue p)
   \<and> mPoisonItem ((poisonThread ^^ n) p) = mPoisonItem p
   \<and> mThreads ((poisonThread ^^ n) p) = mThreads p
   \<and> mBeingKilled ((poisonThread ^^ n) p) = mBeingKilled p + of_nat n"
  by (induction n) (simp_all add: algebra_simps)

lemma newThread_iterate:
  "mThreads ((newThread ^^ n) p) = mThreads p @ [pool_created p ..< pool_created p + n]
   \<and> pool_created ((newThread ^^ n) p) = pool_created p + n
   \<and> mBeingKilled ((newThread ^^ n) p) = mBeingKilled p
   \<and> pool_mQueue ((newThread ^^ n) p) = pool_mQueue p
   \<and> mMaxThreads ((newThread ^^ n) p) = mMaxThreads p
   \<and> mMinThreads ((newThread ^^ n) p) = mMinThreads p
   \<and> mPoisonItem ((newThread ^^ n) p) = mPoisonItem p
   \<and> pool_mRunning ((newThread ^^ n) p) = pool_mRunning p"
  by (induction n) simp_all

section \<open>The pool and its workers as a state machine\<close>

text \<open>While the pool runs: a client pushes an item, a worker of the list that has not ended
  takes the head of the queue and ends if it is a pill, or the manager performs an iteration.
  The manager's \<open>timed_join\<close> reports only threads that have ended; which of these it
  reports and what queue size it sampled is up to the environment. \<open>is_pill\<close> is the
  workers' test (\<open>RequestInfo::isPoison\<close>).\<close>

record 'a pool_state =
  st_pool :: "'a ThreadPool"
  st_ended :: "thread set"
  st_iterations :: uint32

inductive pool_step :: "('a \<Rightarrow> bool) \<Rightarrow> 'a pool_state \<Rightarrow> 'a pool_state \<Rightarrow> bool"
  for is_pill :: "'a \<Rightarrow> bool" where
  client_push: "\<not> is_pill x \<Longrightarrow>
     pool_step is_pill s (s\<lparr>st_pool := pool_push x (st_pool s)\<rparr>)"
| worker_pill: "t \<in> set (mThreads (st_pool s)) \<Longrightarrow> t \<notin> st_ended s \<Longrightarrow>
     pop (pool_mQueue (st_pool s)) = Some (x, q) \<Longrightarrow> is_pill x \<Longrightarrow>
     pool_step is_pill s
       (s\<lparr>st_pool := (st_pool s)\<lparr>pool_mQueue := q\<rparr>, st_ended := insert t (st_ended s)\<rparr>)"
| worker_item: "t \<in> set (mThreads (st_pool s)) \<Longrightarrow> t \<notin> st_ended s \<Longrightarrow>
     pop (pool_mQueue (st_pool s)) = Some (x, q) \<Longrightarrow> \<not> is_pill x \<Longrightarrow>
     pool_step is_pill s (s\<lparr>st_pool := (st_pool s)\<lparr>pool_mQueue := q\<rparr>\<rparr>)"
| manager: "(\<And>t. joined t \<Longrightarrow> t \<in> st_ended s) \<Longrightarrow>
     run_iteration pid provide lQueued queued joined (st_iterations s) (st_pool s) = (p, it, out) \<Longrightarrow>
     pool_step is_pill s (s\<lparr>st_pool := p, st_iterations := it\<rparr>)"

inductive_cases pool_step_cases: "pool_step is_pill s s'"

inductive pool_reaches :: "('a \<Rightarrow> bool) \<Rightarrow> 'a pool_state \<Rightarrow> 'a pool_state \<Rightarrow> bool"
  for is_pill :: "'a \<Rightarrow> bool" where
  reaches_refl: "pool_reaches is_pill s s"
| reaches_step: "pool_reaches is_pill s s' \<Longrightarrow> pool_step is_pill s' s'' \<Longrightarrow>
     pool_reaches is_pill s s''"

text \<open>The pool after its configuration and \<open>start\<close>.\<close>

definition started_pool ::
    "'a \<Rightarrow> size_t \<Rightarrow> size_t \<Rightarrow> size_t \<Rightarrow> size_t \<Rightarrow> 'a pool_state" where
  "started_pool pill minT maxT minQ maxQ =
     \<lparr>st_pool = pool_start (pool_setQueue minQ maxQ (pool_setThreads minT maxT (ThreadPool_init pill))),
      st_ended = {}, st_iterations = 0\<rparr>"

section \<open>The invariant\<close>

text \<open>The pills form the front of the queue; a pill counted in \<open>mBeingKilled\<close> is either
  still queued or has ended a thread that is not collected yet; the threads not counted there
  are at least the minimum.\<close>

definition pills_in :: "('a \<Rightarrow> bool) \<Rightarrow> 'a list \<Rightarrow> nat" where
  "pills_in is_pill xs = length (filter is_pill xs)"

definition pills_first :: "('a \<Rightarrow> bool) \<Rightarrow> 'a list \<Rightarrow> bool" where
  "pills_first is_pill xs \<longleftrightarrow> sorted_wrt (\<lambda>a b. is_pill b \<longrightarrow> is_pill a) xs"

definition ended_count :: "thread set \<Rightarrow> 'a ThreadPool \<Rightarrow> nat" where
  "ended_count ended p = length (filter (\<lambda>t. t \<in> ended) (mThreads p))"

definition pool_ok :: "('a \<Rightarrow> bool) \<Rightarrow> thread set \<Rightarrow> 'a ThreadPool \<Rightarrow> bool" where
  "pool_ok is_pill ended p \<longleftrightarrow>
     is_pill (mPoisonItem p) \<and> distinct (mThreads p) \<and>
     (\<forall>t \<in> set (mThreads p) \<union> ended. t < pool_created p) \<and>
     pills_first is_pill (mQueue (pool_mQueue p)) \<and>
     unat (mBeingKilled p) = pills_in is_pill (mQueue (pool_mQueue p)) + ended_count ended p \<and>
     unat (mMinThreads p) + unat (mBeingKilled p) \<le> length (mThreads p) \<and>
     length (mThreads p) \<le> unat (mMaxThreads p) \<and>
     unat (mMaxThreads p) < 2 ^ 32 \<and>
     (mDropSize (pool_mQueue p) > 0 \<longrightarrow>
        unat (mMaxThreads p) \<le> unat (mDropSize (pool_mQueue p)))"

abbreviation pool_inv :: "('a \<Rightarrow> bool) \<Rightarrow> 'a pool_state \<Rightarrow> bool" where
  "pool_inv is_pill s \<equiv> pool_ok is_pill (st_ended s) (st_pool s)"

lemma pills_first_Nil [simp]: "pills_first P []"
  by (simp add: pills_first_def)

lemma list_all_not_pills: "list_all (\<lambda>x. \<not> P x) xs \<Longrightarrow> pills_first P xs \<and> pills_in P xs = 0"
  by (induction xs) (auto simp: pills_first_def pills_in_def list_all_iff)

lemma pills_first_Cons: "pills_first P (x # xs) \<longleftrightarrow>
   (if P x then pills_first P xs else list_all (\<lambda>x. \<not> P x) xs)"
  using list_all_not_pills [of P xs] by (auto simp: pills_first_def list_all_iff)

lemma pills_first_snoc: "pills_first P xs \<Longrightarrow> \<not> P x \<Longrightarrow> pills_first P (xs @ [x])"
  by (simp add: pills_first_def sorted_wrt_append)

lemma pills_first_butlast: "pills_first P xs \<Longrightarrow> pills_first P (butlast xs)"
proof (induction xs)
  case (Cons x xs)
  then show ?case
    by (auto simp: pills_first_Cons list_all_iff split: if_splits dest: in_set_butlastD)
qed simp

text \<open>With fewer pills than items, the item a full queue evicts is no pill.\<close>

lemma pills_in_butlast:
  "pills_first P xs \<Longrightarrow> pills_in P xs < length xs \<Longrightarrow> pills_in P (butlast xs) = pills_in P xs"
proof (induction xs)
  case (Cons x xs)
  show ?case
  proof (cases "P x")
    case True
    with Cons.prems have "xs \<noteq> []" by (auto simp: pills_in_def)
    with Cons True show ?thesis by (simp add: pills_first_Cons pills_in_def)
  next
    case False
    with Cons.prems(1) have all: "list_all (\<lambda>x. \<not> P x) xs" by (simp add: pills_first_Cons)
    then have "list_all (\<lambda>x. \<not> P x) (butlast xs)"
      by (auto simp: list_all_iff dest: in_set_butlastD)
    with all False show ?thesis
      using list_all_not_pills [of P xs] list_all_not_pills [of P "butlast xs"]
      by (simp add: pills_in_def)
  qed
qed simp

lemma filter_remove_ended:
  assumes "\<And>t. joined t \<Longrightarrow> t \<in> ended"
  shows "length (filter (\<lambda>t. t \<in> ended) (filter (\<lambda>t. \<not> joined t) ts)) + length (filter joined ts)
         = length (filter (\<lambda>t. t \<in> ended) ts)"
  using assms by (induction ts) auto

lemma pool_ok_push:
  "pool_ok is_pill ended p \<Longrightarrow> \<not> is_pill x \<Longrightarrow> pool_ok is_pill ended (pool_push x p)"
  by (auto simp: pool_ok_def pool_push_def push_def pills_first_snoc pills_in_def ended_count_def)

lemma pool_ok_collect:
  assumes ok: "pool_ok is_pill ended p" and j: "\<And>t. joined t \<Longrightarrow> t \<in> ended"
  shows "pool_ok is_pill ended (collectKilled joined p)"
proof -
  let ?c = "length (filter joined (mThreads p))"
  have cnt: "ended_count ended (collectKilled joined p) + ?c = ended_count ended p"
    using filter_remove_ended [of joined ended "mThreads p"] j
    by (simp add: ended_count_def collectKilled_eq)
  have len: "length (mThreads (collectKilled joined p)) + ?c = length (mThreads p)"
    using length_filter_joined [of joined "mThreads p"] by (simp add: collectKilled_eq)
  have "?c \<le> unat (mBeingKilled p)" using ok cnt by (simp add: pool_ok_def)
  then have "unat (mBeingKilled (collectKilled joined p)) = unat (mBeingKilled p) - ?c"
    by (simp add: collectKilled_eq unat_minus_of_nat)
  with ok cnt len \<open>?c \<le> unat (mBeingKilled p)\<close> show ?thesis
    by (simp add: pool_ok_def) (auto simp: collectKilled_eq)
qed

lemma pool_ok_newThread:
  assumes ok: "pool_ok is_pill ended p" and room: "pool_size p < mMaxThreads p"
  shows "pool_ok is_pill ended (newThread p)"
proof -
  have "length (mThreads p) < 2 ^ 64" using ok by (simp add: pool_ok_def)
  then have "length (mThreads p) < unat (mMaxThreads p)"
    using room by (simp add: pool_size_def word_less_nat_alt unat_of_nat_small)
  with ok show ?thesis
    by (auto simp: pool_ok_def ended_count_def less_Suc_eq)
qed

lemma pills_after_push_front:
  assumes ok: "pool_ok is_pill ended p"
    and few: "pills_in is_pill (mQueue (pool_mQueue p)) < unat (mMaxThreads p)"
    and pill: "is_pill x"
  shows "pills_first is_pill (mQueue (push_front x (pool_mQueue p)))"
    and "pills_in is_pill (mQueue (push_front x (pool_mQueue p))) =
           Suc (pills_in is_pill (mQueue (pool_mQueue p)))"
proof -
  have first: "pills_first is_pill (mQueue (pool_mQueue p))" using ok by (simp add: pool_ok_def)
  show "pills_first is_pill (mQueue (push_front x (pool_mQueue p)))"
    using first pill by (auto simp: mQueue_push_front pills_first_Cons pills_first_butlast)
  have "pills_in is_pill (mQueue (pool_mQueue p)) < length (mQueue (pool_mQueue p))"
    if "queue_full (pool_mQueue p)"
    using that ok few by (auto simp: queue_full_def pool_ok_def)
  with first pill
  show "pills_in is_pill (mQueue (push_front x (pool_mQueue p))) =
           Suc (pills_in is_pill (mQueue (pool_mQueue p)))"
    using pills_in_butlast [of is_pill "mQueue (pool_mQueue p)"]
    by (auto simp: mQueue_push_front pills_in_def)
qed

lemma pool_ok_poison:
  assumes ok: "pool_ok is_pill ended p"
    and room: "pool_size p - ucast (mBeingKilled p) > mMinThreads p"
  shows "pool_ok is_pill ended (poisonThread p)"
proof -
  let ?k = "unat (mBeingKilled p)"
  have k: "?k \<le> length (mThreads p)" "length (mThreads p) \<le> unat (mMaxThreads p)"
      "unat (mMaxThreads p) < 2 ^ 32"
    using ok by (simp_all add: pool_ok_def)
  have uk: "unat (ucast (mBeingKilled p) :: size_t) = ?k"
    by (rule unat_ucast_32_64)
  have ul: "unat (pool_size p) = length (mThreads p)"
    using k by (simp add: pool_size_def unat_of_nat_small)
  have "unat (pool_size p - ucast (mBeingKilled p)) = length (mThreads p) - ?k"
    using k uk ul by (simp add: unat_sub word_le_nat_alt)
  then have more: "unat (mMinThreads p) + ?k < length (mThreads p)"
    using room k by (simp add: word_less_nat_alt)
  then have "?k + 1 < 2 ^ 32" using k by linarith
  then have k1: "unat (mBeingKilled p + 1) = ?k + 1"
    by (simp add: unat_plus_one)
  have few: "pills_in is_pill (mQueue (pool_mQueue p)) < unat (mMaxThreads p)"
    using ok more k by (simp add: pool_ok_def)
  show ?thesis
    using ok more k1 pills_after_push_front [OF ok few]
    by (simp add: pool_ok_def ended_count_def)
qed

lemma pool_ok_pop_item:
  assumes "pool_ok is_pill ended p" and "pop (pool_mQueue p) = Some (x, q)" and "\<not> is_pill x"
  shows "pool_ok is_pill ended (p\<lparr>pool_mQueue := q\<rparr>)"
proof -
  from assms(2) obtain xs where "mQueue (pool_mQueue p) = x # xs" "mQueue q = xs"
      "mDropSize q = mDropSize (pool_mQueue p)"
    by (cases "mQueue (pool_mQueue p)") (auto simp: pop_Some)
  with assms show ?thesis
    using list_all_not_pills [of is_pill xs]
    by (simp add: pool_ok_def ended_count_def pills_first_Cons pills_in_def)
qed

lemma pool_ok_pop_pill:
  assumes ok: "pool_ok is_pill ended p" and "pop (pool_mQueue p) = Some (x, q)" and "is_pill x"
    and t: "t \<in> set (mThreads p)" "t \<notin> ended"
  shows "pool_ok is_pill (insert t ended) (p\<lparr>pool_mQueue := q\<rparr>)"
proof -
  from assms(2) obtain xs where q: "mQueue (pool_mQueue p) = x # xs" "mQueue q = xs"
      "mDropSize q = mDropSize (pool_mQueue p)"
    by (cases "mQueue (pool_mQueue p)") (auto simp: pop_Some)
  have dist: "distinct (mThreads p)" using ok by (simp add: pool_ok_def)
  have "length (filter (\<lambda>t'. t' \<in> insert t ended) ts) = Suc (length (filter (\<lambda>t'. t' \<in> ended) ts))"
    if "distinct ts" "t \<in> set ts" for ts
    using that
  proof (induction ts)
    case (Cons a ts)
    have "filter (\<lambda>t'. t' = t \<or> t' \<in> ended) ts = filter (\<lambda>t'. t' \<in> ended) ts" if "t \<notin> set ts"
      using that by (metis (mono_tags, lifting) filter_cong)
    with Cons t(2) show ?case by auto
  qed simp
  with dist t have "ended_count (insert t ended) p = Suc (ended_count ended p)"
    by (simp add: ended_count_def)
  with assms q t(1) show ?thesis
    by (simp add: pool_ok_def pills_first_Cons pills_in_def) (auto simp: ended_count_def)
qed

lemma pool_ok_manage:
  assumes "pool_ok is_pill ended p" and "\<And>t. joined t \<Longrightarrow> t \<in> ended"
  shows "pool_ok is_pill ended (manageThreads queued joined p)"
  using pool_ok_collect [OF assms]
  by (simp add: manageThreads_def Let_def pool_ok_newThread pool_ok_poison)

lemma pool_ok_stats:
  "pool_ok is_pill ended p \<Longrightarrow> emitStats pid provide n it p = (p', out) \<Longrightarrow> pool_ok is_pill ended p'"
  by (auto simp: emitStats_def Let_def getCounters_def pool_ok_def ended_count_def split: if_splits)

lemma pool_inv_step: "pool_step is_pill s s' \<Longrightarrow> pool_inv is_pill s \<Longrightarrow> pool_inv is_pill s'"
proof (induction rule: pool_step.induct)
  case (client_push x s)
  then show ?case by (simp add: pool_ok_push)
next
  case (worker_pill t s x q)
  then show ?case by (simp add: pool_ok_pop_pill)
next
  case (worker_item t s x q)
  then show ?case by (simp add: pool_ok_pop_item)
next
  case (manager joined s pid provide lQueued queued p it out)
  then show ?case
    using pool_ok_stats pool_ok_manage [of is_pill "st_ended s" "st_pool s" joined queued]
    by (fastforce simp: run_iteration_def)
qed

lemma pool_inv_reaches: "pool_reaches is_pill s s' \<Longrightarrow> pool_inv is_pill s \<Longrightarrow> pool_inv is_pill s'"
  by (induction rule: pool_reaches.induct) (auto intro: pool_inv_step)

text \<open>No step changes the configured bounds.\<close>

lemma manage_bounds:
  "mMinThreads (manageThreads n j p) = mMinThreads p \<and> mMaxThreads (manageThreads n j p) = mMaxThreads p"
  by (simp add: manageThreads_def Let_def collectKilled_eq)

lemma pool_step_bounds:
  "pool_step is_pill s s' \<Longrightarrow>
     mMinThreads (st_pool s') = mMinThreads (st_pool s) \<and>
     mMaxThreads (st_pool s') = mMaxThreads (st_pool s)"
  by (induction rule: pool_step.induct)
     (auto simp: pool_push_def run_iteration_def emitStats_def Let_def getCounters_def manage_bounds
       split: if_splits)

lemma pool_reaches_bounds:
  "pool_reaches is_pill s s' \<Longrightarrow>
     mMinThreads (st_pool s') = mMinThreads (st_pool s) \<and>
     mMaxThreads (st_pool s') = mMaxThreads (st_pool s)"
  by (induction rule: pool_reaches.induct) (auto dest: pool_step_bounds)

lemma product_bound:
  "unat (b :: size_t) * unat a < 2 ^ 64 \<Longrightarrow> a * b > 0 \<Longrightarrow> unat b \<le> unat (a * b)"
  by (cases "a = 0") (auto simp: unat_word_ariths mult.commute word_gt_0 unat_gt_0 Suc_le_eq)

lemma pool_inv_started:
  assumes "is_pill pill" and "minT \<le> maxT" and "unat maxT < 2 ^ 32"
    and "unat maxT * unat maxQ < 2 ^ 64"
  shows "pool_inv is_pill (started_pool pill minT maxT minQ maxQ)"
proof -
  have "filter (\<lambda>t. False) [0..<n] = []" for n :: nat by simp
  with assms show ?thesis
    using product_bound [of maxT maxQ]
    by (simp add: pool_ok_def started_pool_def pool_start_def Let_def newThread_iterate
        pool_setQueue_def pool_setThreads_def ThreadPool_init_def MultiThreadQueue_init_def
        ended_count_def pills_in_def word_le_nat_alt setDropSize_def)
qed

lemma started_pool_bounds:
  "mMinThreads (st_pool (started_pool pill minT maxT minQ maxQ)) = minT"
  "mMaxThreads (st_pool (started_pool pill minT maxT minQ maxQ)) = maxT"
  by (simp_all add: started_pool_def pool_start_def Let_def newThread_iterate
      pool_setQueue_def pool_setThreads_def)

text \<open>Threads that have not ended, and that no queued pill is waiting for.\<close>

definition live_threads :: "'a pool_state \<Rightarrow> nat" where
  "live_threads s = length (filter (\<lambda>t. t \<notin> st_ended s) (mThreads (st_pool s)))"

lemma pool_inv_live:
  assumes "pool_inv is_pill s"
  shows "unat (mMinThreads (st_pool s)) + pills_in is_pill (mQueue (pool_mQueue (st_pool s)))
         \<le> live_threads s"
  using assms sum_length_filter_compl [of "\<lambda>t. t \<in> st_ended s" "mThreads (st_pool s)"]
  by (simp add: pool_ok_def live_threads_def ended_count_def)

lemma queue_run_pops:
  "mQueue q = xs @ ys \<Longrightarrow>
     fst (queue_run (replicate (length xs) OpPop) q) = xs \<and>
     mQueue (snd (queue_run (replicate (length xs) OpPop) q)) = ys"
proof (induction xs arbitrary: q)
  case (Cons x xs)
  then obtain q1 where "pop q = Some (x, q1)" "mQueue q1 = xs @ ys"
    by (auto simp: pop_def)
  with Cons.IH [of q1] show ?case by (auto split: prod.split)
qed simp

lemma poisonAll_queue:
  assumes "mDropSize (pool_mQueue p) > 0 \<longrightarrow> length (mThreads p) \<le> unat (mDropSize (pool_mQueue p))"
  shows "\<exists>ys. mQueue (pool_mQueue (poisonAll p)) = replicate (length (mThreads p)) (mPoisonItem p) @ ys"
  using assms mtq.urgent_prefix [of "pool_mQueue p" "length (mThreads p)" "mPoisonItem p"]
  by (auto simp: poisonAll_def poisonThread_iterate queue_room_def split: if_splits)

section \<open>Properties\<close>



text \<open>C24: When the pool shuts down, from any state it can reach, the pills it drops come out
  of the queue before anything else, one for each thread of its list: none of them is evicted
  by another, so every worker that takes one item more ends.\<close>

theorem shutdown_pills_reach_all:
  assumes "is_pill pill" and "minT \<le> maxT" and "unat maxT < 2 ^ 32"
    and "unat maxT * unat maxQ < 2 ^ 64"
    and "pool_reaches is_pill (started_pool pill minT maxT minQ maxQ) s"
  shows "fst (queue_run (replicate (length (mThreads (st_pool s))) OpPop)
            (pool_mQueue (poisonAll (st_pool s)))) =
         replicate (length (mThreads (st_pool s))) (mPoisonItem (st_pool s)) \<and>
         is_pill (mPoisonItem (st_pool s))"
proof -
  have inv: "pool_inv is_pill s"
    using pool_inv_reaches [OF assms(5) pool_inv_started] assms by blast
  then obtain ys where "mQueue (pool_mQueue (poisonAll (st_pool s))) =
      replicate (length (mThreads (st_pool s))) (mPoisonItem (st_pool s)) @ ys"
    using poisonAll_queue [of "st_pool s"] by (auto simp: pool_ok_def)
  then show ?thesis
    using inv queue_run_pops [of "pool_mQueue (poisonAll (st_pool s))"
        "replicate (length (mThreads (st_pool s))) (mPoisonItem (st_pool s))" ys]
    by (simp add: pool_ok_def)
qed

theorem shutdown_pills_reach_all_witness:
  "fst (queue_run [OpPop, OpPop]
     (pool_mQueue (poisonAll (st_pool (started_pool (0 :: nat) 2 5 1 10))))) = [0, 0]"
proof -
  have "length (mThreads (st_pool (started_pool (0 :: nat) 2 5 1 10))) = 2"
       "mPoisonItem (st_pool (started_pool (0 :: nat) 2 5 1 10)) = 0"
    by (simp_all add: started_pool_def pool_start_def Let_def newThread_iterate
        pool_setQueue_def pool_setThreads_def ThreadPool_init_def)
  moreover have "replicate 2 OpPop = [OpPop, OpPop :: nat queue_op]" "replicate 2 (0 :: nat) = [0, 0]"
    by (simp_all add: numeral_2_eq_2)
  ultimately show ?thesis
    using shutdown_pills_reach_all [of "\<lambda>x. x = 0" "0 :: nat" 2 5 10 1, OF _ _ _ _ reaches_refl]
    by (simp del: queue_run.simps)
qed


end
