(* ===== verification/Dup_Commands.thy ===== *)
theory Dup_Commands
  imports Request_Info Url_Codec
begin

text \<open>
  The per-location configuration \<open>DupConf\<close> (mod_dup.hh, mod_dup.cc) and the commands the
  \<open>RequestProcessor\<close> keeps for each location and destination (RequestProcessor.hh,
  RequestProcessor.cc): filters, substitutions, the duplication percentage, and the operations
  that register them while the configuration is read. A location is the address of its
  \<open>DupConf\<close>. A \<open>boost::regex\<close> is its expression; a constructor that raises
  \<open>boost::bad_expression\<close> is an error value.
\<close>

datatype dup_exception = BadExpression | StdException | OutOfRange

section \<open>DupConf\<close>

record DupConf =
  currentApplicationScope :: eApplicationScope
  dirName :: "string option"
  currentDupDestination :: string
  synchronous :: bool
  errorLogBodyMatch :: string
  mCurrentDuplicationType :: eDuplicationType
  mHighestDuplicationType :: eDuplicationType

definition DupConf_init :: DupConf where
  "DupConf_init = \<lparr>currentApplicationScope = QUERY_STRING, dirName = None,
     currentDupDestination = [], synchronous = False, errorLogBodyMatch = [],
     mCurrentDuplicationType = NONE, mHighestDuplicationType = NONE\<rparr>"

definition conf_setErrorLogBodyMatch ::
    "ext_lib \<Rightarrow> string \<Rightarrow> DupConf \<Rightarrow> string option \<times> DupConf" where
  "conf_setErrorLogBodyMatch E m conf =
     (if regex_ok E m then (None, conf\<lparr>errorLogBodyMatch := m\<rparr>)
      else (Some ''Invalid regular expression in filter definition.'', conf))"

definition setCurrentDuplicationType :: "eDuplicationType \<Rightarrow> DupConf \<Rightarrow> DupConf" where
  "setCurrentDuplicationType dt conf =
     (let c = conf\<lparr>mCurrentDuplicationType := dt\<rparr>
      in if dt > mHighestDuplicationType c then c\<lparr>mHighestDuplicationType := dt\<rparr> else c)"

definition getCurrentDuplicationType :: "DupConf \<Rightarrow> eDuplicationType" where
  "getCurrentDuplicationType conf = mCurrentDuplicationType conf"

definition getHighestDuplicationType :: "DupConf \<Rightarrow> eDuplicationType" where
  "getHighestDuplicationType conf = mHighestDuplicationType conf"

section \<open>Filters and substitutions\<close>

record tElementBase =
  mScope :: eApplicationScope
  mRegex :: string

datatype eFilterTypes = REGULAR | PREVENT_DUPLICATION

record tFilter = tElementBase +
  mDestination :: string
  mErrorLogBodyMatch :: string
  mDuplicationType :: eDuplicationType
  mFilterType :: eFilterTypes
  mMatch :: string

record tSubstitute = tElementBase +
  mReplacement :: string

definition tFilter_new ::
    "ext_lib \<Rightarrow> string \<Rightarrow> eApplicationScope \<Rightarrow> string \<Rightarrow> eDuplicationType \<Rightarrow> string \<Rightarrow>
     eFilterTypes \<Rightarrow> dup_exception + tFilter" where
  "tFilter_new E regex scope currentDupDest dupType errLogBodyMatch fType =
     (if regex_ok E regex
      then Inr \<lparr>mScope = scope, mRegex = regex, mDestination = currentDupDest,
             mErrorLogBodyMatch = errLogBodyMatch, mDuplicationType = dupType,
             mFilterType = fType, mMatch = []\<rparr>
      else Inl BadExpression)"

definition tSubstitute_new ::
    "ext_lib \<Rightarrow> string \<Rightarrow> string \<Rightarrow> eApplicationScope \<Rightarrow> dup_exception + tSubstitute" where
  "tSubstitute_new E regex replacement scope =
     (if regex_ok E regex
      then Inr \<lparr>mScope = scope, mRegex = regex, mReplacement = replacement\<rparr>
      else Inl BadExpression)"

text \<open>The case-insensitive order of the filter map: lexicographic on \<open>tolower\<close>.\<close>

fun ci_less :: "string \<Rightarrow> string \<Rightarrow> bool" where
  "ci_less s1 [] \<longleftrightarrow> False"
| "ci_less [] (b # bs) \<longleftrightarrow> True"
| "ci_less (a # as) (b # bs) \<longleftrightarrow>
     (if tolower a < tolower b then True
      else if tolower b < tolower a then False
      else ci_less as bs)"

type_synonym tFiltersMap = "(string \<times> tFilter) list"
type_synonym tFieldSubstitutionMap = "(string, tSubstitute list) std_map"

record Commands =
  mFilters :: tFiltersMap
  mRawFilters :: "tFilter list"
  mSubstitutions :: tFieldSubstitutionMap
  mRawSubstitutions :: "tSubstitute list"
  mDuplicationPercentage :: uint32

definition Commands_init :: Commands where
  "Commands_init = \<lparr>mFilters = [], mRawFilters = [], mSubstitutions = [],
     mRawSubstitutions = [], mDuplicationPercentage = 100\<rparr>"

section \<open>How often a request is duplicated\<close>

text \<open>The result of \<open>random_r\<close> is an argument, \<open>None\<close> when it fails.\<close>

definition toDuplicate :: "int option \<Rightarrow> Commands \<Rightarrow> bool" where
  "toDuplicate rnd c = (case rnd of
       None \<Rightarrow> False
     | Some randNum \<Rightarrow> c_mod randNum 100 < int (unat (mDuplicationPercentage c mod 100)))"

definition toDuplicateInt :: "int option \<Rightarrow> Commands \<Rightarrow> uint32" where
  "toDuplicateInt rnd c =
     (let numDups = (mDuplicationPercentage c - mDuplicationPercentage c mod 100) div 100
      in if mDuplicationPercentage c mod 100 \<noteq> 0 \<and> toDuplicate rnd c
         then numDups + 1 else numDups)"

section \<open>The processor and the registration of commands\<close>

type_synonym tCommandsByDestination = "(string, Commands) std_map"

record RequestProcessor =
  mCommands :: "(conf_ptr, tCommandsByDestination) std_map"
  mTimeout :: uint32
  mTimeoutCount :: uint32
  mDuplicatedCount :: uint32
  mUrlCodec :: url_codec

definition proc_setUrlCodec :: "string \<Rightarrow> RequestProcessor \<Rightarrow> RequestProcessor" where
  "proc_setUrlCodec pUrlCodec rp = rp\<lparr>mUrlCodec := getUrlCodec pUrlCodec\<rparr>"

definition RequestProcessor_init :: RequestProcessor where
  "RequestProcessor_init = proc_setUrlCodec ''default''
     \<lparr>mCommands = [], mTimeout = 0, mTimeoutCount = 0, mDuplicatedCount = 0,
      mUrlCodec = DefaultUrlCodec\<rparr>"

definition proc_setTimeout :: "uint32 \<Rightarrow> RequestProcessor \<Rightarrow> RequestProcessor" where
  "proc_setTimeout pTimeout rp = rp\<lparr>mTimeout := pTimeout\<rparr>"

definition getTimeoutCount :: "RequestProcessor \<Rightarrow> uint32 \<times> RequestProcessor" where
  "getTimeoutCount rp = (mTimeoutCount rp, rp\<lparr>mTimeoutCount := mTimeoutCount rp AND 0\<rparr>)"

definition getDuplicatedCount :: "RequestProcessor \<Rightarrow> uint32 \<times> RequestProcessor" where
  "getDuplicatedCount rp = (mDuplicatedCount rp, rp\<lparr>mDuplicatedCount := mDuplicatedCount rp AND 0\<rparr>)"

text \<open>\<open>mCommands[&conf][dest]\<close> used as a reference that is modified by \<open>f\<close>.\<close>

definition at_commands ::
    "conf_ptr \<Rightarrow> string \<Rightarrow> (Commands \<Rightarrow> Commands) \<Rightarrow> RequestProcessor \<Rightarrow> RequestProcessor" where
  "at_commands cp dest f rp =
     rp\<lparr>mCommands := map_modify cp [] (map_modify dest Commands_init f) (mCommands rp)\<rparr>"

definition addFilter ::
    "ext_lib \<Rightarrow> string \<Rightarrow> string \<Rightarrow> conf_ptr \<Rightarrow> DupConf \<Rightarrow> eFilterTypes \<Rightarrow> RequestProcessor \<Rightarrow>
     dup_exception + RequestProcessor" where
  "addFilter E pField pFilter cp conf fType rp =
     (if scope_mask (currentApplicationScope conf) AND
           (scope_mask BODY OR scope_mask HEADERS OR scope_mask QUERY_STRING) = 0
      then Inl StdException
      else (case tFilter_new E pFilter (currentApplicationScope conf) (currentDupDestination conf)
                   (getCurrentDuplicationType conf) (errorLogBodyMatch conf) fType of
              Inl e \<Rightarrow> Inl e
            | Inr flt \<Rightarrow> Inr (at_commands cp (currentDupDestination conf)
                (\<lambda>c. c\<lparr>mFilters := mm_insert ci_less (to_upper E pField) flt (mFilters c)\<rparr>) rp)))"

definition setDestinationDuplicationPercentage ::
    "conf_ptr \<Rightarrow> string \<Rightarrow> int \<Rightarrow> RequestProcessor \<Rightarrow> RequestProcessor" where
  "setDestinationDuplicationPercentage cp destination percentage rp =
     at_commands cp destination (\<lambda>c. c\<lparr>mDuplicationPercentage := word_of_int percentage\<rparr>) rp"

definition addRawFilter ::
    "ext_lib \<Rightarrow> string \<Rightarrow> conf_ptr \<Rightarrow> DupConf \<Rightarrow> eFilterTypes \<Rightarrow> RequestProcessor \<Rightarrow>
     dup_exception + RequestProcessor" where
  "addRawFilter E pFilter cp conf fType rp =
     (case tFilter_new E pFilter (currentApplicationScope conf) (currentDupDestination conf)
             (getCurrentDuplicationType conf) (errorLogBodyMatch conf) fType of
        Inl e \<Rightarrow> Inl e
      | Inr flt \<Rightarrow> Inr (at_commands cp (currentDupDestination conf)
          (\<lambda>c. c\<lparr>mRawFilters := mRawFilters c @ [flt]\<rparr>) rp))"

definition addSubstitution ::
    "ext_lib \<Rightarrow> string \<Rightarrow> string \<Rightarrow> string \<Rightarrow> conf_ptr \<Rightarrow> DupConf \<Rightarrow> RequestProcessor \<Rightarrow>
     dup_exception + RequestProcessor" where
  "addSubstitution E pField pMatch pReplace cp conf rp =
     (case tSubstitute_new E pMatch pReplace (currentApplicationScope conf) of
        Inl e \<Rightarrow> Inl e
      | Inr s \<Rightarrow> Inr (at_commands cp (currentDupDestination conf)
          (\<lambda>c. c\<lparr>mSubstitutions := map_modify (to_upper E pField) [] (\<lambda>l. l @ [s])
                                     (mSubstitutions c)\<rparr>) rp))"

definition addRawSubstitution ::
    "ext_lib \<Rightarrow> string \<Rightarrow> string \<Rightarrow> conf_ptr \<Rightarrow> DupConf \<Rightarrow> RequestProcessor \<Rightarrow>
     dup_exception + RequestProcessor" where
  "addRawSubstitution E pRegex pReplace cp conf rp =
     (case tSubstitute_new E pRegex pReplace (currentApplicationScope conf) of
        Inl e \<Rightarrow> Inl e
      | Inr s \<Rightarrow> Inr (at_commands cp (currentDupDestination conf)
          (\<lambda>c. c\<lparr>mRawSubstitutions := mRawSubstitutions c @ [s]\<rparr>) rp))"

section \<open>The order of the filter map\<close>

lemma ci_less_lex: "ci_less s t \<longleftrightarrow> map tolower s < map tolower t"
  by (induction s t rule: ci_less.induct) auto

interpretation ci_map: multimap_order ci_less
  by unfold_locales (auto simp: ci_less_lex not_less)

lemma ci_equiv: "\<not> ci_less s t \<and> \<not> ci_less t s \<longleftrightarrow> map tolower s = map tolower t"
  by (auto simp: ci_less_lex)

text \<open>What \<open>equal_range\<close> delivers: the entries whose key is the same up to case, in the
  order of their registration.\<close>

lemma equal_range_ci:
  "mm_wf ci_less m \<Longrightarrow>
     equal_range ci_less m k = filter (\<lambda>kv. map tolower (fst kv) = map tolower k) m"
  by (simp add: ci_map.equal_range_filter ci_equiv)

section \<open>The well-formedness of the registered commands\<close>

text \<open>The percentage is in the range the directive allows, the containers are in order, every
  expression compiles, every filter is stored under its
  own destination, and a key filter can match: its scope covers the body, the headers or the
  query string.\<close>

definition filter_ok :: "ext_lib \<Rightarrow> string \<Rightarrow> tFilter \<Rightarrow> bool" where
  "filter_ok E dest f \<longleftrightarrow> regex_ok E (mRegex f) \<and> mDestination f = dest"

definition commands_ok :: "ext_lib \<Rightarrow> string \<Rightarrow> Commands \<Rightarrow> bool" where
  "commands_ok E dest c \<longleftrightarrow>
     unat (mDuplicationPercentage c) \<le> 10000 \<and>
     mm_wf ci_less (mFilters c) \<and> map_wf (mSubstitutions c) \<and>
     (\<forall>(k, f) \<in> set (mFilters c). filter_ok E dest f \<and>
        (in_scope (mScope f) BODY \<or> in_scope (mScope f) HEADERS \<or> in_scope (mScope f) QUERY_STRING)) \<and>
     list_all (filter_ok E dest) (mRawFilters c) \<and>
     (\<forall>(k, ss) \<in> set (mSubstitutions c). ss \<noteq> [] \<and> list_all (\<lambda>s. regex_ok E (mRegex s)) ss) \<and>
     list_all (\<lambda>s. regex_ok E (mRegex s)) (mRawSubstitutions c)"

definition destinations_ok :: "ext_lib \<Rightarrow> tCommandsByDestination \<Rightarrow> bool" where
  "destinations_ok E m \<longleftrightarrow> map_wf m \<and> (\<forall>(dest, c) \<in> set m. commands_ok E dest c)"

definition processor_ok :: "ext_lib \<Rightarrow> RequestProcessor \<Rightarrow> bool" where
  "processor_ok E rp \<longleftrightarrow>
     map_wf (mCommands rp) \<and> (\<forall>(cp, m) \<in> set (mCommands rp). destinations_ok E m)"

lemma commands_ok_init [simp]: "commands_ok E dest Commands_init"
  by (simp add: commands_ok_def Commands_init_def mm_wf_def)

lemma processor_ok_init [simp]: "processor_ok E RequestProcessor_init"
  by (simp add: processor_ok_def RequestProcessor_init_def proc_setUrlCodec_def)

lemma modify_ok:
  assumes "map_wf m" and "\<forall>(k, v) \<in> set m. P k v" and "P k d" and "\<And>v. P k v \<Longrightarrow> P k (f v)"
  shows "map_wf (map_modify k d f m) \<and> (\<forall>(k, v) \<in> set (map_modify k d f m). P k v)"
proof -
  have wf: "map_wf (map_modify k d f m)" using assms(1) by simp
  have "P k' v" if "(k', v) \<in> set (map_modify k d f m)" for k' v
  proof -
    have "map_find (map_modify k d f m) k' = Some v" using that wf by (simp add: map_find_entries)
    then have "k' = k \<and> v = f (case map_find m k of None \<Rightarrow> d | Some v \<Rightarrow> v) \<or> (k', v) \<in> set m"
      using assms(1) by (auto simp: map_find_modify map_find_entries split: if_splits)
    moreover have "P k (case map_find m k of None \<Rightarrow> d | Some v \<Rightarrow> v)"
      using assms(1,2,3) by (auto simp: map_find_entries split: option.split)
    ultimately show ?thesis using assms(2,4) by auto
  qed
  with wf show ?thesis by auto
qed

lemma destinations_ok_modify:
  "destinations_ok E m \<Longrightarrow> (\<And>c. commands_ok E dest c \<Longrightarrow> commands_ok E dest (f c)) \<Longrightarrow>
     destinations_ok E (map_modify dest Commands_init f m)"
  using modify_ok [of m "commands_ok E" dest Commands_init f] by (simp add: destinations_ok_def)

lemma processor_ok_at:
  assumes "processor_ok E rp" and "\<And>c. commands_ok E dest c \<Longrightarrow> commands_ok E dest (f c)"
  shows "processor_ok E (at_commands cp dest f rp)"
  using modify_ok [of "mCommands rp" "\<lambda>_. destinations_ok E" cp "[]"
      "map_modify dest Commands_init f"] assms
  by (simp add: processor_ok_def at_commands_def destinations_ok_modify) (simp add: destinations_ok_def)

lemma tFilter_new_ok:
  "tFilter_new E r s d dt el ft = Inr f \<Longrightarrow>
     filter_ok E d f \<and> mScope f = s \<and> mDuplicationType f = dt \<and> mFilterType f = ft"
  by (auto simp: tFilter_new_def filter_ok_def split: if_splits)

lemma scope_guard:
  "(scope_mask s AND (scope_mask BODY OR scope_mask HEADERS OR scope_mask QUERY_STRING) = 0) \<longleftrightarrow>
     \<not> (in_scope s BODY \<or> in_scope s HEADERS \<or> in_scope s QUERY_STRING)"
  by (cases s) simp_all

lemma commands_ok_add_filter:
  "commands_ok E dest c \<Longrightarrow> filter_ok E dest f \<Longrightarrow>
   in_scope (mScope f) BODY \<or> in_scope (mScope f) HEADERS \<or> in_scope (mScope f) QUERY_STRING \<Longrightarrow>
   commands_ok E dest (c\<lparr>mFilters := mm_insert ci_less k f (mFilters c)\<rparr>)"
  by (simp add: commands_ok_def ci_map.insert_wf set_mm_insert)

lemma commands_ok_add_subst:
  assumes "commands_ok E dest c" and "regex_ok E (mRegex s)"
  shows "commands_ok E dest
    (c\<lparr>mSubstitutions := map_modify k [] (\<lambda>l. l @ [s]) (mSubstitutions c)\<rparr>)"
proof -
  let ?P = "\<lambda>(k' :: string) ss. (ss = [] \<longrightarrow> k' = k \<and> map_find (mSubstitutions c) k = None) \<and>
    list_all (\<lambda>s. regex_ok E (mRegex s)) ss"
  have all: "\<forall>(k, ss) \<in> set (mSubstitutions c). ss \<noteq> [] \<and> list_all (\<lambda>s. regex_ok E (mRegex s)) ss"
    using assms(1) by (simp add: commands_ok_def)
  have wf: "map_wf (mSubstitutions c)" using assms(1) by (simp add: commands_ok_def)
  have "ss \<noteq> [] \<and> list_all (\<lambda>s. regex_ok E (mRegex s)) ss"
    if "(k', ss) \<in> set (map_modify k [] (\<lambda>l. l @ [s]) (mSubstitutions c))" for k' ss
  proof -
    have "map_find (map_modify k [] (\<lambda>l. l @ [s]) (mSubstitutions c)) k' = Some ss"
      using that wf by (simp add: map_find_entries)
    then show ?thesis
      using all wf assms(2)
      by (auto simp: map_find_modify map_find_entries split: if_splits option.splits)
  qed
  then show ?thesis using assms(1) by (auto simp: commands_ok_def)
qed

text \<open>Every registration keeps the processor well-formed.\<close>

lemma addFilter_ok:
  "processor_ok E rp \<Longrightarrow> addFilter E fld flt cp conf ft rp = Inr rp' \<Longrightarrow> processor_ok E rp'"
  by (auto simp: addFilter_def scope_guard simp del: scope_mask.simps in_scope_table
      split: if_splits sum.splits dest!: tFilter_new_ok intro!: processor_ok_at commands_ok_add_filter)

lemma addRawFilter_ok:
  "processor_ok E rp \<Longrightarrow> addRawFilter E flt cp conf ft rp = Inr rp' \<Longrightarrow> processor_ok E rp'"
  by (auto simp: addRawFilter_def commands_ok_def split: sum.splits dest!: tFilter_new_ok
      intro!: processor_ok_at)

lemma addSubstitution_ok:
  "processor_ok E rp \<Longrightarrow> addSubstitution E fld m r cp conf rp = Inr rp' \<Longrightarrow> processor_ok E rp'"
  by (auto simp: addSubstitution_def tSubstitute_new_def split: if_splits
      intro!: processor_ok_at commands_ok_add_subst)

lemma addRawSubstitution_ok:
  "processor_ok E rp \<Longrightarrow> addRawSubstitution E m r cp conf rp = Inr rp' \<Longrightarrow> processor_ok E rp'"
  by (auto simp: addRawSubstitution_def tSubstitute_new_def commands_ok_def split: if_splits
      intro!: processor_ok_at)

lemma unat_word_of_int_small: "0 \<le> n \<Longrightarrow> n \<le> 10000 \<Longrightarrow> unat (word_of_int n :: uint32) \<le> 10000"
  by (simp add: unat_eq_nat_uint uint_word_of_int_eq take_bit_int_eq_self)

lemma setDestinationDuplicationPercentage_ok:
  "processor_ok E rp \<Longrightarrow> 0 \<le> n \<Longrightarrow> n \<le> 10000 \<Longrightarrow> processor_ok E (setDestinationDuplicationPercentage cp d n rp)"
  by (auto simp: setDestinationDuplicationPercentage_def commands_ok_def unat_word_of_int_small intro!: processor_ok_at)

lemmas registration_ok = addFilter_ok addRawFilter_ok addSubstitution_ok addRawSubstitution_ok
  setDestinationDuplicationPercentage_ok

section \<open>The number of duplicates\<close>

lemma unat_toDuplicateInt:
  "unat (toDuplicateInt rnd c) = unat (mDuplicationPercentage c) div 100 +
     (if unat (mDuplicationPercentage c) mod 100 \<noteq> 0 \<and> toDuplicate rnd c then 1 else 0)"
proof -
  let ?p = "mDuplicationPercentage c"
  have "unat ?p mod 100 \<le> unat ?p" by simp
  then have base: "unat ((?p - ?p mod 100) div 100) = unat ?p div 100"
    by (simp add: unat_sub word_le_nat_alt unat_mod unat_div)
       (metis minus_mod_eq_div_mult nonzero_mult_div_cancel_right zero_neq_numeral)
  have "unat ?p div 100 + 1 < 2 ^ 32"
    using unat_less_32 [of ?p] by simp
  moreover have "?p mod 100 = 0 \<longleftrightarrow> unat ?p mod 100 = 0"
    by (simp flip: unat_eq_0 add: unat_mod)
  ultimately show ?thesis
    by (simp add: toDuplicateInt_def Let_def base unat_plus_one)
qed

lemma c_mod_small: "r < 100 \<Longrightarrow> c_mod (int r) 100 = int r"
  by (simp add: c_mod_def c_div_def)

lemma sum_below: "m \<le> n \<Longrightarrow> (\<Sum>r<n. if r < (m :: nat) then 1 else 0 :: nat) = m"
proof (induction n)
  case (Suc n)
  then show ?case by (cases "m = Suc n") auto
qed simp

section \<open>Properties\<close>

text \<open>C31: A duplication percentage means what it says: over the hundred equally likely values of
  the random number modulo 100, the numbers of duplicates sent add up to exactly the percentage,
  so their mean is the percentage over 100, also above 100\%.\<close>

theorem duplication_rate:
  "(\<Sum>r<100. unat (toDuplicateInt (Some (int r)) c)) = unat (mDuplicationPercentage c)"
proof -
  let ?p = "unat (mDuplicationPercentage c)"
  have "unat (toDuplicateInt (Some (int r)) c) = ?p div 100 + (if r < ?p mod 100 then 1 else 0)"
    if "r < 100" for r
    using that by (simp add: unat_toDuplicateInt toDuplicate_def c_mod_small unat_mod)
  then have "(\<Sum>r<100. unat (toDuplicateInt (Some (int r)) c)) =
      (\<Sum>r<100. ?p div 100 + (if r < ?p mod 100 then 1 else 0))"
    by (intro sum.cong) auto
  also have "\<dots> = 100 * (?p div 100) + ?p mod 100"
    using sum_below [of "?p mod 100" 100] by (simp add: sum.distrib)
  finally show ?thesis by simp
qed

end
