(* ===== verification/Request_Filter.thy ===== *)
theory Request_Filter
  imports Dup_Commands
begin

text \<open>
  Which destinations a request is duplicated to: the parsing of arguments and the matching of
  filters (RequestProcessor.cc, \<open>parseArgs\<close>, \<open>keyFilterMatch\<close>, \<open>applicationOnMap\<close>,
  \<open>matchesFilter\<close>). The code writes the matched text into the mutable field
  \<open>mMatch\<close> of the shared filter and returns a pointer to it; the model returns the filter with
  that field set. The last section is the abstract view: a filter matches a request if its
  expression matches one of the texts its scope and key select, and a request is duplicated if no
  preventing filter matches and some regular one does.
\<close>

section \<open>Arguments\<close>

text \<open>\<open>substr\<close> at a position \<open>find\<close> returned does not raise.\<close>

definition parse_token :: "ext_lib \<Rightarrow> url_codec \<Rightarrow> string \<Rightarrow> key_val" where
  "parse_token E c lToken =
     (case find_char (CHR ''='') lToken of
        None \<Rightarrow> (to_upper E lToken, [])
      | Some lEqualPos \<Rightarrow>
          (to_upper E (take lEqualPos lToken), decode E c (drop (lEqualPos + 1) lToken)))"

definition parseArgs :: "ext_lib \<Rightarrow> url_codec \<Rightarrow> key_val_list \<Rightarrow> string \<Rightarrow> key_val_list" where
  "parseArgs E c pParsedArgs pArgs =
     foldl (\<lambda>acc lToken. acc @ [parse_token E c lToken]) pParsedArgs (tokenize E (CHR ''&'') pArgs)"

section \<open>Key filters\<close>

fun filter_iteration ::
    "ext_lib \<Rightarrow> eApplicationScope \<Rightarrow> eFilterTypes \<Rightarrow> string \<Rightarrow> (string \<times> tFilter) list \<Rightarrow>
     tFilter option" where
  "filter_iteration E scope fType val [] = None"
| "filter_iteration E scope fType val ((k, f) # fs) =
     (if in_scope (mScope f) scope \<and> mFilterType f = fType
      then (if regex_search E val (mRegex f) \<noteq> None then Some (f\<lparr>mMatch := mRegex f\<rparr>)
            else filter_iteration E scope fType val fs)
      else filter_iteration E scope fType val fs)"

fun keyFilterMatch ::
    "ext_lib \<Rightarrow> tFiltersMap \<Rightarrow> key_val_list \<Rightarrow> eApplicationScope \<Rightarrow> eFilterTypes \<Rightarrow> tFilter option" where
  "keyFilterMatch E pFilters [] scope fType = None"
| "keyFilterMatch E pFilters ((k, v) # kvs) scope fType =
     (case filter_iteration E scope fType v (equal_range ci_less pFilters k) of
        Some f \<Rightarrow> Some f
      | None \<Rightarrow> keyFilterMatch E pFilters kvs scope fType)"

text \<open>How many key filters apply to the query string, the headers and the body.\<close>

fun applicationOnMap :: "tFiltersMap \<Rightarrow> int \<times> int \<times> int \<Rightarrow> int \<times> int \<times> int" where
  "applicationOnMap [] (qs, header, body) = (qs, header, body)"
| "applicationOnMap ((k, f) # fs) (qs, header, body) =
     applicationOnMap fs
       (if in_scope (mScope f) QUERY_STRING then qs + 1 else qs,
        if in_scope (mScope f) HEADERS then header + 1 else header,
        if in_scope (mScope f) BODY then body + 1 else body)"

section \<open>Raw filters\<close>

text \<open>The five tests a raw filter goes through, in the order of the code; the result is the
  text matched.\<close>

definition raw_test ::
    "ext_lib \<Rightarrow> eApplicationScope \<Rightarrow> string \<Rightarrow> tFilter \<Rightarrow> string option" where
  "raw_test E scope text f =
     (if in_scope (mScope f) scope then regex_search E text (mRegex f) else None)"

definition raw_match :: "ext_lib \<Rightarrow> RequestInfo \<Rightarrow> tFilter \<Rightarrow> string option" where
  "raw_match E r f =
     (case raw_test E METHOD (mMethod r) f of Some m \<Rightarrow> Some m | None \<Rightarrow>
      case raw_test E PATH (mPath r) f of Some m \<Rightarrow> Some m | None \<Rightarrow>
      case raw_test E QUERY_STRING (mArgs r) f of Some m \<Rightarrow> Some m | None \<Rightarrow>
      case raw_test E HEADERS (flatten (mHeadersIn r) '': '') f of Some m \<Rightarrow> Some m | None \<Rightarrow>
      raw_test E BODY (mBody r) f)"

fun raw_prevents :: "ext_lib \<Rightarrow> RequestInfo \<Rightarrow> tFilter list \<Rightarrow> bool" where
  "raw_prevents E r [] \<longleftrightarrow> False"
| "raw_prevents E r (raw # raws) \<longleftrightarrow>
     (if mFilterType raw = PREVENT_DUPLICATION \<and> raw_match E r raw \<noteq> None then True
      else raw_prevents E r raws)"

fun raw_matches :: "ext_lib \<Rightarrow> RequestInfo \<Rightarrow> tFilter list \<Rightarrow> tFilter option" where
  "raw_matches E r [] = None"
| "raw_matches E r (raw # raws) =
     (if mFilterType raw \<noteq> PREVENT_DUPLICATION
      then (case raw_match E r raw of
              Some what \<Rightarrow> Some (raw\<lparr>mMatch := what\<rparr>)
            | None \<Rightarrow> raw_matches E r raws)
      else raw_matches E r raws)"

definition matchesFilter :: "ext_lib \<Rightarrow> url_codec \<Rightarrow> RequestInfo \<Rightarrow> Commands \<Rightarrow> tFilter option" where
  "matchesFilter E c pRequest pCommands =
     (let pFilters = mFilters pCommands in
      case applicationOnMap pFilters (0, 0, 0) of (keyFilterOnQS, keyFilterOnHeader, keyFilterOnBody) \<Rightarrow>
      if keyFilterOnQS \<noteq> 0 \<and>
         keyFilterMatch E pFilters (mParsedArgs pRequest) QUERY_STRING PREVENT_DUPLICATION \<noteq> None
      then None
      else if keyFilterOnHeader \<noteq> 0 \<and>
         keyFilterMatch E pFilters (mHeadersIn pRequest) HEADERS PREVENT_DUPLICATION \<noteq> None
      then None
      else
       (let lParsedArgs = (if keyFilterOnBody \<noteq> 0 then parseArgs E c [] (mBody pRequest) else []) in
        if keyFilterOnBody \<noteq> 0 \<and>
           keyFilterMatch E pFilters lParsedArgs BODY PREVENT_DUPLICATION \<noteq> None
        then None
        else if raw_prevents E pRequest (mRawFilters pCommands) then None
        else
         (case (if keyFilterOnQS \<noteq> 0
                then keyFilterMatch E pFilters (mParsedArgs pRequest) QUERY_STRING REGULAR else None) of
            Some f \<Rightarrow> Some f
          | None \<Rightarrow>
         (case (if keyFilterOnHeader \<noteq> 0
                then keyFilterMatch E pFilters (mHeadersIn pRequest) HEADERS REGULAR else None) of
            Some f \<Rightarrow> Some f
          | None \<Rightarrow>
         (case (if keyFilterOnBody \<noteq> 0
                then keyFilterMatch E pFilters lParsedArgs BODY REGULAR else None) of
            Some f \<Rightarrow> Some f
          | None \<Rightarrow> raw_matches E pRequest (mRawFilters pCommands))))))"

section \<open>What matching means\<close>

text \<open>The texts of a request a key filter looks at under a scope, and the keys it has.\<close>

definition key_texts :: "ext_lib \<Rightarrow> url_codec \<Rightarrow> RequestInfo \<Rightarrow> eApplicationScope \<Rightarrow> key_val_list" where
  "key_texts E c r scope =
     (if scope = QUERY_STRING then mParsedArgs r
      else if scope = HEADERS then mHeadersIn r
      else if scope = BODY then parseArgs E c [] (mBody r) else [])"

definition key_matches ::
    "ext_lib \<Rightarrow> url_codec \<Rightarrow> RequestInfo \<Rightarrow> string \<Rightarrow> tFilter \<Rightarrow> bool" where
  "key_matches E c r field f \<longleftrightarrow>
     (\<exists>scope \<in> {QUERY_STRING, HEADERS, BODY}. in_scope (mScope f) scope \<and>
        (\<exists>(k, v) \<in> set (key_texts E c r scope).
           map tolower field = map tolower k \<and> regex_search E v (mRegex f) \<noteq> None))"

definition raw_texts :: "RequestInfo \<Rightarrow> (eApplicationScope \<times> string) list" where
  "raw_texts r = [(METHOD, mMethod r), (PATH, mPath r), (QUERY_STRING, mArgs r),
     (HEADERS, flatten (mHeadersIn r) '': ''), (BODY, mBody r)]"

definition raw_matches_spec :: "ext_lib \<Rightarrow> RequestInfo \<Rightarrow> tFilter \<Rightarrow> bool" where
  "raw_matches_spec E r f \<longleftrightarrow>
     (\<exists>(scope, text) \<in> set (raw_texts r). in_scope (mScope f) scope \<and>
        regex_search E text (mRegex f) \<noteq> None)"

definition some_filter ::
    "ext_lib \<Rightarrow> url_codec \<Rightarrow> RequestInfo \<Rightarrow> Commands \<Rightarrow> eFilterTypes \<Rightarrow> bool" where
  "some_filter E c r cmds ft \<longleftrightarrow>
     (\<exists>(field, f) \<in> set (mFilters cmds). mFilterType f = ft \<and> key_matches E c r field f) \<or>
     (\<exists>f \<in> set (mRawFilters cmds). mFilterType f = ft \<and> raw_matches_spec E r f)"

section \<open>Lemmas\<close>

lemma parseArgs_map: "parseArgs E c acc args = acc @ map (parse_token E c) (tokenize E (CHR ''&'') args)"
proof -
  have "foldl (\<lambda>acc t. acc @ [parse_token E c t]) acc ts = acc @ map (parse_token E c) ts" for acc ts
    by (induction ts arbitrary: acc) auto
  then show ?thesis by (simp add: parseArgs_def)
qed

text \<open>A key filter hits an entry of a request.\<close>

definition key_hit ::
    "ext_lib \<Rightarrow> eApplicationScope \<Rightarrow> eFilterTypes \<Rightarrow> key_val \<Rightarrow> string \<times> tFilter \<Rightarrow> bool" where
  "key_hit E scope ft kv kf \<longleftrightarrow>
     map tolower (fst kf) = map tolower (fst kv) \<and> in_scope (mScope (snd kf)) scope \<and>
     mFilterType (snd kf) = ft \<and> regex_search E (snd kv) (mRegex (snd kf)) \<noteq> None"

abbreviation key_hits :: "ext_lib \<Rightarrow> tFiltersMap \<Rightarrow> key_val_list \<Rightarrow> eApplicationScope \<Rightarrow> eFilterTypes \<Rightarrow> bool" where
  "key_hits E fs kvs scope ft \<equiv> \<exists>kv \<in> set kvs. \<exists>kf \<in> set fs. key_hit E scope ft kv kf"

lemma filter_iteration_hit:
  "filter_iteration E scope ft v (filter (\<lambda>kf. map tolower (fst kf) = map tolower k) fs) =
     map_option (\<lambda>kf. (snd kf)\<lparr>mMatch := mRegex (snd kf)\<rparr>) (find (key_hit E scope ft (k, v)) fs)"
  by (induction fs) (auto simp: key_hit_def simp del: in_scope_table)

lemma keyFilterMatch_None:
  assumes "mm_wf ci_less fs"
  shows "keyFilterMatch E fs kvs scope ft = None \<longleftrightarrow> \<not> key_hits E fs kvs scope ft"
proof (induction kvs)
  case (Cons kv kvs)
  obtain k v where kv: "kv = (k, v)" by (cases kv)
  show ?case
    by (simp add: kv Cons equal_range_ci assms filter_iteration_hit find_None_iff split: option.split)
       (auto simp: find_Some_iff find_None_iff dest: nth_mem)
qed simp

lemma keyFilterMatch_Some:
  assumes "mm_wf ci_less fs" and "keyFilterMatch E fs kvs scope ft = Some g"
  shows "\<exists>kv \<in> set kvs. \<exists>kf \<in> set fs. key_hit E scope ft kv kf \<and>
           g = (snd kf)\<lparr>mMatch := mRegex (snd kf)\<rparr>"
  using assms(2)
proof (induction kvs)
  case (Cons kv kvs)
  obtain k v where kv: "kv = (k, v)" by (cases kv)
  show ?case
  proof (cases "find (key_hit E scope ft (k, v)) fs")
    case None
    with Cons show ?thesis by (simp add: kv equal_range_ci assms(1) filter_iteration_hit)
  next
    case (Some kf)
    then have "kf \<in> set fs" "key_hit E scope ft (k, v) kf"
      by (auto simp: find_Some_iff)
    with Some Cons.prems show ?thesis
      by (auto simp: kv equal_range_ci assms(1) filter_iteration_hit)
  qed
qed simp

lemma applicationOnMap_count:
  "applicationOnMap fs (a, b, d) =
     (a + int (length (filter (\<lambda>kf. in_scope (mScope (snd kf)) QUERY_STRING) fs)),
      b + int (length (filter (\<lambda>kf. in_scope (mScope (snd kf)) HEADERS) fs)),
      d + int (length (filter (\<lambda>kf. in_scope (mScope (snd kf)) BODY) fs)))"
proof (induction fs arbitrary: a b d)
  case (Cons kf fs)
  then show ?case by (cases kf) (simp del: in_scope_table)
qed simp

text \<open>The counts only avoid work: without a filter in the scope nothing can match.\<close>

lemma keyFilterMatch_count:
  assumes "mm_wf ci_less fs"
  shows "(if int (length (filter (\<lambda>kf. in_scope (mScope (snd kf)) scope) fs)) \<noteq> 0
          then keyFilterMatch E fs kvs scope ft else None) = keyFilterMatch E fs kvs scope ft"
proof (cases "filter (\<lambda>kf. in_scope (mScope (snd kf)) scope) fs = []")
  case True
  then have "\<not> key_hits E fs kvs scope ft" by (auto simp: key_hit_def filter_empty_conv simp del: in_scope_table)
  then have "keyFilterMatch E fs kvs scope ft = None" by (simp add: keyFilterMatch_None assms)
  with True show ?thesis by (simp del: in_scope_table)
next
  case False
  then show ?thesis by (simp del: in_scope_table)
qed

definition first_some :: "'a option \<Rightarrow> 'a option \<Rightarrow> 'a option" where
  "first_some a b = (case a of Some x \<Rightarrow> Some x | None \<Rightarrow> b)"

lemma first_some_None [simp]: "first_some a b = None \<longleftrightarrow> a = None \<and> b = None"
  by (simp add: first_some_def split: option.split)

lemma first_some_Some: "first_some a b = Some x \<longleftrightarrow> a = Some x \<or> a = None \<and> b = Some x"
  by (simp add: first_some_def split: option.split)

definition key_match_all ::
    "ext_lib \<Rightarrow> url_codec \<Rightarrow> RequestInfo \<Rightarrow> tFiltersMap \<Rightarrow> eFilterTypes \<Rightarrow> tFilter option" where
  "key_match_all E c r fs ft =
     first_some (keyFilterMatch E fs (mParsedArgs r) QUERY_STRING ft)
       (first_some (keyFilterMatch E fs (mHeadersIn r) HEADERS ft)
          (keyFilterMatch E fs (parseArgs E c [] (mBody r)) BODY ft))"

lemma matchesFilter_simple:
  assumes wf: "mm_wf ci_less (mFilters cmds)"
  shows "matchesFilter E c r cmds =
    (if key_match_all E c r (mFilters cmds) PREVENT_DUPLICATION \<noteq> None \<or>
        raw_prevents E r (mRawFilters cmds) then None
     else first_some (key_match_all E c r (mFilters cmds) REGULAR) (raw_matches E r (mRawFilters cmds)))"
proof -
  let ?n = "\<lambda>scope. int (length (filter (\<lambda>kf. in_scope (mScope (snd kf)) scope) (mFilters cmds)))"
  have skip: "keyFilterMatch E (mFilters cmds) kvs scope ft = None" if "?n scope = 0" for kvs scope ft
    using keyFilterMatch_count [OF wf, of scope E kvs ft] that by (simp del: in_scope_table)
  show ?thesis
    unfolding matchesFilter_def Let_def applicationOnMap_count key_match_all_def first_some_def
    by (cases "?n QUERY_STRING = 0"; cases "?n HEADERS = 0"; cases "?n BODY = 0";
        simp add: skip split: option.split del: in_scope_table of_nat_eq_0_iff)
qed

lemma raw_match_spec: "raw_match E r f \<noteq> None \<longleftrightarrow> raw_matches_spec E r f"
  by (auto simp: raw_match_def raw_matches_spec_def raw_texts_def raw_test_def
      simp del: in_scope_table split: option.splits if_splits)

lemma raw_prevents_spec:
  "raw_prevents E r fs \<longleftrightarrow>
     (\<exists>f \<in> set fs. mFilterType f = PREVENT_DUPLICATION \<and> raw_matches_spec E r f)"
  by (induction fs) (auto simp flip: raw_match_spec)

lemma raw_matches_None:
  "raw_matches E r fs = None \<longleftrightarrow>
     \<not> (\<exists>f \<in> set fs. mFilterType f = REGULAR \<and> raw_matches_spec E r f)"
proof (induction fs)
  case (Cons f fs)
  then show ?case
    using raw_match_spec [of E r f]
    by (cases "mFilterType f") (auto split: option.split)
qed simp

lemma raw_matches_Some:
  "raw_matches E r fs = Some g \<Longrightarrow>
     \<exists>f \<in> set fs. mFilterType f = REGULAR \<and> (\<exists>what. raw_match E r f = Some what \<and> g = f\<lparr>mMatch := what\<rparr>)"
proof (induction fs)
  case (Cons f fs)
  then show ?case
    by (cases "mFilterType f") (auto split: option.splits)
qed simp

lemma key_match_all_None:
  assumes "mm_wf ci_less fs"
  shows "key_match_all E c r fs ft = None \<longleftrightarrow>
     \<not> (\<exists>(field, f) \<in> set fs. mFilterType f = ft \<and> key_matches E c r field f)"
proof -
  define H where "H scope kf \<longleftrightarrow> in_scope (mScope (snd kf)) scope \<and>
     (\<exists>kv \<in> set (key_texts E c r scope). map tolower (fst kf) = map tolower (fst kv) \<and>
        regex_search E (snd kv) (mRegex (snd kf)) \<noteq> None)" for scope and kf :: "string \<times> tFilter"
  have hits: "key_hits E fs (key_texts E c r scope) scope ft \<longleftrightarrow>
     (\<exists>kf \<in> set fs. mFilterType (snd kf) = ft \<and> H scope kf)" for scope
    unfolding key_hit_def H_def by blast
  have km: "key_matches E c r (fst kf) (snd kf) \<longleftrightarrow> H QUERY_STRING kf \<or> H HEADERS kf \<or> H BODY kf" for kf
    unfolding key_matches_def H_def case_prod_beta by (simp del: in_scope_table not_None_eq)
  have texts: "mParsedArgs r = key_texts E c r QUERY_STRING" "mHeadersIn r = key_texts E c r HEADERS"
      "parseArgs E c [] (mBody r) = key_texts E c r BODY"
    by (simp_all add: key_texts_def)
  show ?thesis
    unfolding key_match_all_def first_some_None keyFilterMatch_None [OF assms] texts hits
      case_prod_beta km
    by blast
qed

text \<open>The filter returned is one of the registered regular filters, with the matched text set.\<close>

lemma matchesFilter_registered:
  assumes wf: "mm_wf ci_less (mFilters cmds)" and m: "matchesFilter E c r cmds = Some g"
  shows "\<exists>f. (f \<in> snd ` set (mFilters cmds) \<or> f \<in> set (mRawFilters cmds)) \<and>
           mFilterType f = REGULAR \<and> (\<exists>what. g = f\<lparr>mMatch := what\<rparr>)"
proof -
  have key: "?thesis"
    if "keyFilterMatch E (mFilters cmds) kvs scope REGULAR = Some g" for kvs scope
    using keyFilterMatch_Some [OF wf that] by (auto simp: key_hit_def)
  have raw: "?thesis" if "raw_matches E r (mRawFilters cmds) = Some g"
    using raw_matches_Some [OF that] by blast
  show ?thesis
    using m
    by (auto intro: key raw simp: matchesFilter_simple [OF wf] first_some_Some key_match_all_def split: if_splits)
qed

section \<open>Printing and parsing arguments\<close>

text \<open>An argument as it is written in a query string: the key alone when the value is empty.\<close>

definition print_arg :: "ext_lib \<Rightarrow> url_codec \<Rightarrow> key_val \<Rightarrow> string" where
  "print_arg E c kv = (if snd kv = [] then fst kv else fst kv @ ''='' @ encode E c (snd kv))"

definition plain_key :: "string \<Rightarrow> bool" where
  "plain_key k \<longleftrightarrow> k \<noteq> [] \<and> CHR ''='' \<notin> set k \<and> CHR ''&'' \<notin> set k"

definition plain_val :: "string \<Rightarrow> bool" where
  "plain_val v \<longleftrightarrow> CHR ''&'' \<notin> set v \<and> NUL \<notin> set v"

lemma parse_print_arg:
  assumes "replace_all_char E" and "plain_key k" and "plain_val v"
  shows "parse_token E c (print_arg E c (k, v)) = (to_upper E k, v)"
proof -
  have laws: "url_codec_laws (decode E c) (encode E c)" by (rule codec_laws) (rule assms(1))
  then have "decode E c (encode E c v) = v"
    using assms(3) by (simp add: plain_val_def url_codec_laws.dec_enc)
  moreover have "find_char (CHR ''='') k = None"
    using assms(2) by (simp add: plain_key_def find_char_None)
  moreover have "find_char (CHR ''='') (k @ CHR ''='' # encode E c v) = Some (length k)"
    using assms(2) by (simp add: plain_key_def find_char_append)
  ultimately show ?thesis by (simp add: parse_token_def print_arg_def)
qed

lemma print_arg_no_amp:
  assumes "replace_all_char E" and "plain_key k" and "plain_val v"
  shows "CHR ''&'' \<notin> set (print_arg E c (k, v)) \<and> print_arg E c (k, v) \<noteq> []"
proof -
  have "url_codec_laws (decode E c) (encode E c)" by (rule codec_laws) (rule assms(1))
  then have "CHR ''&'' \<notin> set (encode E c v)"
    using assms(3) by (simp add: plain_val_def url_codec_laws.enc_no_amp)
  then show ?thesis using assms(2) by (auto simp: print_arg_def plain_key_def)
qed

lemma tokenize_join:
  assumes "tokenizer_drops_empty E" and "\<And>w. w \<in> set ws \<Longrightarrow> c \<notin> set w \<and> w \<noteq> []"
  shows "tokenize E c (intersperse [c] ws) = ws"
proof (cases "ws = []")
  case True
  with assms(1) show ?thesis by (simp add: tokenizer_drops_empty_def)
next
  case False
  with assms show ?thesis
    by (simp add: tokenizer_drops_empty_def split_intersperse filter_id_conv)
qed

lemma parse_print_args:
  assumes "replace_all_char E" and "tokenizer_drops_empty E"
    and "\<And>k v. (k, v) \<in> set kvs \<Longrightarrow> plain_key k \<and> plain_val v"
  shows "parseArgs E c [] (intersperse ''&'' (map (print_arg E c) kvs)) =
           map (\<lambda>(k, v). (to_upper E k, v)) kvs"
proof -
  have "tokenize E (CHR ''&'') (intersperse ''&'' (map (print_arg E c) kvs)) = map (print_arg E c) kvs"
    using assms print_arg_no_amp by (intro tokenize_join) auto
  then show ?thesis using assms by (auto simp: parseArgs_map parse_print_arg)
qed

section \<open>Properties\<close>

text \<open>C5: A request matches the commands of a destination exactly when no preventing filter
  matches it and at least one regular filter does, where a key filter matches if its expression is
  found in the value of an entry with its key, up to case, in a part its scope covers, and a raw
  filter if its expression is found in a whole part its scope covers; and the filter returned is a
  registered regular one, with only its matched text changed.\<close>

theorem matchesFilter_meaning:
  assumes "mm_wf ci_less (mFilters cmds)"
  shows "(matchesFilter E c r cmds \<noteq> None \<longleftrightarrow>
            \<not> some_filter E c r cmds PREVENT_DUPLICATION \<and> some_filter E c r cmds REGULAR) \<and>
         (\<forall>g. matchesFilter E c r cmds = Some g \<longrightarrow>
            (\<exists>f what. (f \<in> snd ` set (mFilters cmds) \<or> f \<in> set (mRawFilters cmds)) \<and>
               mFilterType f = REGULAR \<and> g = f\<lparr>mMatch := what\<rparr>))"
proof
  show "matchesFilter E c r cmds \<noteq> None \<longleftrightarrow>
      \<not> some_filter E c r cmds PREVENT_DUPLICATION \<and> some_filter E c r cmds REGULAR"
    unfolding matchesFilter_simple [OF assms] some_filter_def
    using key_match_all_None [OF assms] raw_matches_None raw_prevents_spec
    by (simp del: not_None_eq)
  show "\<forall>g. matchesFilter E c r cmds = Some g \<longrightarrow>
      (\<exists>f what. (f \<in> snd ` set (mFilters cmds) \<or> f \<in> set (mRawFilters cmds)) \<and>
         mFilterType f = REGULAR \<and> g = f\<lparr>mMatch := what\<rparr>)"
  proof (intro allI impI)
    fix g assume "matchesFilter E c r cmds = Some g"
    from matchesFilter_registered [OF assms this]
    show "\<exists>f what. (f \<in> snd ` set (mFilters cmds) \<or> f \<in> set (mRawFilters cmds)) \<and>
         mFilterType f = REGULAR \<and> g = f\<lparr>mMatch := what\<rparr>" by metis
  qed
qed

theorem matchesFilter_meaning_witness:
  "\<forall>r. let rq = RequestInfo_full r 0 ''id'' ''GET'' ''/p'' ''a=1'' None;
         f = \<lparr>mScope = PATH, mRegex = ''/p'', mDestination = ''h'', mErrorLogBodyMatch = [],
           mDuplicationType = NONE, mFilterType = REGULAR, mMatch = []\<rparr>;
         cmds = Commands_init\<lparr>mRawFilters := [f]\<rparr>
     in matchesFilter ref_lib DefaultUrlCodec rq cmds = Some (f\<lparr>mMatch := ''/p''\<rparr>) \<and>
        some_filter ref_lib DefaultUrlCodec rq cmds REGULAR"
proof -
  have "some_filter ref_lib DefaultUrlCodec rq cmds REGULAR"
    if "mm_wf ci_less (mFilters cmds)" "matchesFilter ref_lib DefaultUrlCodec rq cmds = Some g"
    for rq cmds g
    using matchesFilter_meaning [OF that(1), of ref_lib DefaultUrlCodec rq] that(2) by auto
  then show ?thesis
    by (simp add: Let_def Commands_init_def mm_wf_def matchesFilter_def raw_match_def raw_test_def
        RequestInfo_full_def RequestInfo_members_def ref_lib_def lit_search_def)
qed

text \<open>Printing arguments and parsing them again gives them back, with the keys in upper case:
  for keys without separators and values without ampersand and NUL, under either codec.\<close>

theorem parseArgs_roundtrip:
  assumes "replace_all_char E" and "tokenizer_drops_empty E"
    and "\<And>k v. (k, v) \<in> set kvs \<Longrightarrow> plain_key k \<and> plain_val v"
  shows "parseArgs E c [] (intersperse ''&'' (map (print_arg E c) kvs)) =
           map (\<lambda>(k, v). (to_upper E k, v)) kvs"
  by (rule parse_print_args) (use assms in blast)+

theorem parseArgs_roundtrip_witness:
  "parseArgs ref_lib DefaultUrlCodec []
     (intersperse ''&'' (map (print_arg ref_lib DefaultUrlCodec) [(''a'', ''x y''), (''Bc'', [])])) =
   [(''A'', ''x y''), (''BC'', [])]"
proof -
  let ?kvs = "[(''a'', ''x y''), (''Bc'', [])]"
  have "plain_key k \<and> plain_val v" if "(k, v) \<in> set ?kvs" for k v
    using that by (auto simp: plain_key_def plain_val_def)
  with parseArgs_roundtrip [OF ref_lib_documented(3) ref_lib_documented(1), of ?kvs DefaultUrlCodec]
  have "parseArgs ref_lib DefaultUrlCodec []
      (intersperse ''&'' (map (print_arg ref_lib DefaultUrlCodec) ?kvs)) =
    map (\<lambda>(k, v). (to_upper ref_lib k, v)) ?kvs" by blast
  then show ?thesis by (simp add: upper_char_def char_of_def bit_0)
qed

end
