(* ===== verification/Request_Substitution.thy ===== *)
theory Request_Substitution
  imports Request_Filter
begin

text \<open>
  The substitutions applied to a copy of the request before it is sent to a destination
  (RequestProcessor.cc, \<open>keySubstitute\<close>, \<open>headerSubstitute\<close>, \<open>substituteRequest\<close>).
\<close>

section \<open>The code\<close>

text \<open>The inner loop: the substitutions of a key in the given scope, one after the other; the
  flag tells whether one of them was applied.\<close>

fun subst_loop ::
    "ext_lib \<Rightarrow> eApplicationScope \<Rightarrow> tSubstitute list \<Rightarrow> string \<times> bool \<Rightarrow> string \<times> bool" where
  "subst_loop E scope [] (lVal, did) = (lVal, did)"
| "subst_loop E scope (s # ss) (lVal, did) =
     (if \<not> in_scope scope (mScope s) then subst_loop E scope ss (lVal, did)
      else subst_loop E scope ss (regex_replace E lVal (mRegex s) (mReplacement s), True))"

definition subst_value ::
    "ext_lib \<Rightarrow> eApplicationScope \<Rightarrow> tFieldSubstitutionMap \<Rightarrow> key_val \<Rightarrow> string \<times> bool" where
  "subst_value E scope pSubs kv =
     (case map_find pSubs (fst kv) of
        None \<Rightarrow> (snd kv, False)
      | Some ss \<Rightarrow> subst_loop E scope ss (snd kv, False))"

fun keySubstitute_loop ::
    "ext_lib \<Rightarrow> url_codec \<Rightarrow> tFieldSubstitutionMap \<Rightarrow> eApplicationScope \<Rightarrow> key_val_list \<Rightarrow>
     string list \<times> bool \<Rightarrow> string list \<times> bool" where
  "keySubstitute_loop E c pSubs scope [] (lNewArgs, did) = (lNewArgs, did)"
| "keySubstitute_loop E c pSubs scope (kv # kvs) (lNewArgs, did) =
     (case subst_value E scope pSubs kv of (lVal, d) \<Rightarrow>
        keySubstitute_loop E c pSubs scope kvs
          (lNewArgs @ [if lVal = [] then fst kv else fst kv @ ''='' @ encode E c lVal], did \<or> d))"

text \<open>The reference argument \<open>result\<close> is passed in and returned.\<close>

definition keySubstitute ::
    "ext_lib \<Rightarrow> url_codec \<Rightarrow> tFieldSubstitutionMap \<Rightarrow> key_val_list \<Rightarrow> eApplicationScope \<Rightarrow> string \<Rightarrow>
     string \<times> bool" where
  "keySubstitute E c pSubs pParsedArgs scope result =
     (case keySubstitute_loop E c pSubs scope pParsedArgs ([], False) of (lNewArgs, lDidSubstitute) \<Rightarrow>
        (if lDidSubstitute then join_strings E lNewArgs ''&'' else result, lDidSubstitute))"

fun headerSubstitute ::
    "ext_lib \<Rightarrow> tFieldSubstitutionMap \<Rightarrow> key_val_list \<Rightarrow> key_val_list \<times> bool" where
  "headerSubstitute E pSubs [] = ([], False)"
| "headerSubstitute E pSubs (kv # kvs) =
     (case subst_value E HEADERS pSubs kv of (v, d) \<Rightarrow>
      case headerSubstitute E pSubs kvs of (kvs', d') \<Rightarrow> ((fst kv, v) # kvs', d \<or> d'))"

definition any_subst_scope :: "eApplicationScope \<Rightarrow> tFieldSubstitutionMap \<Rightarrow> bool" where
  "any_subst_scope scope subs \<longleftrightarrow> list_ex (\<lambda>f. list_ex (\<lambda>s. in_scope (mScope s) scope) (snd f)) subs"

definition raw_substitute :: "ext_lib \<Rightarrow> tSubstitute \<Rightarrow> RequestInfo \<Rightarrow> RequestInfo" where
  "raw_substitute E s r =
     (let r1 = (if in_scope (mScope s) URL
                then r\<lparr>mPath := regex_replace E (mPath r) (mRegex s) (mReplacement s)\<rparr> else r);
          r2 = (if in_scope (mScope s) BODY
                then r1\<lparr>mBody := regex_replace E (mBody r1) (mRegex s) (mReplacement s)\<rparr> else r1)
      in if in_scope (mScope s) QUERY_STRING
         then r2\<lparr>mArgs := regex_replace E (mArgs r2) (mRegex s) (mReplacement s)\<rparr> else r2)"

definition substituteRequest ::
    "ext_lib \<Rightarrow> url_codec \<Rightarrow> Commands \<Rightarrow> RequestInfo \<Rightarrow> RequestInfo \<times> bool" where
  "substituteRequest E c cmds r0 =
     (let subs = mSubstitutions cmds;
          keySubOnBody = any_subst_scope BODY subs;
          keySubOnQs = any_subst_scope QUERY_STRING subs;
          keySubOnHeader = any_subst_scope HEADERS subs;
          (r1, d1) = (if keySubOnQs
             then (case keySubstitute E c subs (mParsedArgs r0) QUERY_STRING (mArgs r0) of
                     (args, d) \<Rightarrow> (r0\<lparr>mArgs := args\<rparr>, d))
             else (r0, False));
          (r2, d2) = (if keySubOnHeader
             then (case headerSubstitute E subs (mHeadersIn r1) of
                     (hs, d) \<Rightarrow> (r1\<lparr>mHeadersIn := hs\<rparr>, d1 \<or> d))
             else (r1, d1));
          (r3, d3) = (if keySubOnBody
             then (case keySubstitute E c subs (parseArgs E c [] (mBody r2)) BODY (mBody r2) of
                     (b, d) \<Rightarrow> (r2\<lparr>mBody := b\<rparr>, d2 \<or> d))
             else (r2, d2));
          r4 = foldl (\<lambda>r s. raw_substitute E s r) r3 (mRawSubstitutions cmds)
      in (r4, d3 \<or> mRawSubstitutions cmds \<noteq> []))"

section \<open>Lemmas\<close>

text \<open>What the substitutions of a scope make of a value.\<close>

definition subst_fun :: "ext_lib \<Rightarrow> eApplicationScope \<Rightarrow> tFieldSubstitutionMap \<Rightarrow> key_val \<Rightarrow> string" where
  "subst_fun E scope subs kv =
     foldl (\<lambda>v s. regex_replace E v (mRegex s) (mReplacement s)) (snd kv)
       (filter (\<lambda>s. in_scope scope (mScope s))
          (case map_find subs (fst kv) of None \<Rightarrow> [] | Some ss \<Rightarrow> ss))"

definition subst_applies :: "eApplicationScope \<Rightarrow> tFieldSubstitutionMap \<Rightarrow> string \<Rightarrow> bool" where
  "subst_applies scope subs k \<longleftrightarrow>
     (case map_find subs k of None \<Rightarrow> False | Some ss \<Rightarrow> list_ex (\<lambda>s. in_scope scope (mScope s)) ss)"

lemma subst_loop_eq:
  "subst_loop E scope ss (v, d) =
     (foldl (\<lambda>v s. regex_replace E v (mRegex s) (mReplacement s)) v
        (filter (\<lambda>s. in_scope scope (mScope s)) ss),
      d \<or> list_ex (\<lambda>s. in_scope scope (mScope s)) ss)"
  by (induction ss arbitrary: v d) (auto simp del: in_scope_table)

lemma subst_value_eq:
  "subst_value E scope subs kv = (subst_fun E scope subs kv, subst_applies scope subs (fst kv))"
  by (simp add: subst_value_def subst_fun_def subst_applies_def subst_loop_eq split: option.split)

lemma keySubstitute_loop_eq:
  "keySubstitute_loop E c subs scope kvs (acc, d) =
     (acc @ map (\<lambda>kv. print_arg E c (fst kv, subst_fun E scope subs kv)) kvs,
      d \<or> list_ex (\<lambda>kv. subst_applies scope subs (fst kv)) kvs)"
  by (induction kvs arbitrary: acc d) (auto simp: subst_value_eq print_arg_def)

lemma keySubstitute_eq:
  "keySubstitute E c subs kvs scope result =
     (if list_ex (\<lambda>kv. subst_applies scope subs (fst kv)) kvs
      then (join_strings E (map (\<lambda>kv. print_arg E c (fst kv, subst_fun E scope subs kv)) kvs) ''&'', True)
      else (result, False))"
  by (simp add: keySubstitute_def keySubstitute_loop_eq)

lemma headerSubstitute_eq:
  "headerSubstitute E subs kvs =
     (map (\<lambda>kv. (fst kv, subst_fun E HEADERS subs kv)) kvs,
      list_ex (\<lambda>kv. subst_applies HEADERS subs (fst kv)) kvs)"
  by (induction kvs) (auto simp: subst_value_eq)

lemma subst_not_applies: "\<not> subst_applies scope subs (fst kv) \<Longrightarrow> subst_fun E scope subs kv = snd kv"
  by (auto simp: subst_applies_def subst_fun_def list_ex_iff filter_empty_conv
      split: option.splits simp del: in_scope_table)

text \<open>The fields of a request a substitution never touches.\<close>

lemma raw_substitute_frame [simp]:
  "mMethod (raw_substitute E s r) = mMethod r" "mHeadersIn (raw_substitute E s r) = mHeadersIn r"
  "mHeadersOut (raw_substitute E s r) = mHeadersOut r" "mAnswer (raw_substitute E s r) = mAnswer r"
  "mConf (raw_substitute E s r) = mConf r" "mPoison (raw_substitute E s r) = mPoison r"
  "mId (raw_substitute E s r) = mId r" "mParsedArgs (raw_substitute E s r) = mParsedArgs r"
  by (simp_all add: raw_substitute_def Let_def del: in_scope_table)

lemma raw_substitute_fold_frame [simp]:
  "mMethod (foldl (\<lambda>r s. raw_substitute E s r) r ss) = mMethod r"
  "mHeadersIn (foldl (\<lambda>r s. raw_substitute E s r) r ss) = mHeadersIn r"
  "mHeadersOut (foldl (\<lambda>r s. raw_substitute E s r) r ss) = mHeadersOut r"
  "mAnswer (foldl (\<lambda>r s. raw_substitute E s r) r ss) = mAnswer r"
  "mConf (foldl (\<lambda>r s. raw_substitute E s r) r ss) = mConf r"
  by (induction ss arbitrary: r) simp_all

lemma raw_substitute_untouched:
  "list_all (\<lambda>s. \<not> in_scope (mScope s) BODY) ss \<Longrightarrow> mBody (foldl (\<lambda>r s. raw_substitute E s r) r ss) = mBody r"
  "list_all (\<lambda>s. \<not> in_scope (mScope s) QUERY_STRING) ss \<Longrightarrow> mArgs (foldl (\<lambda>r s. raw_substitute E s r) r ss) = mArgs r"
  "list_all (\<lambda>s. \<not> in_scope (mScope s) URL) ss \<Longrightarrow> mPath (foldl (\<lambda>r s. raw_substitute E s r) r ss) = mPath r"
  by (induction ss arbitrary: r) (auto simp: raw_substitute_def Let_def simp del: in_scope_table)

text \<open>\<open>covers scope cmds\<close>: a key or raw substitution of the commands has the scope.\<close>

definition covers :: "eApplicationScope \<Rightarrow> Commands \<Rightarrow> bool" where
  "covers scope cmds \<longleftrightarrow> any_subst_scope scope (mSubstitutions cmds) \<or>
     list_ex (\<lambda>s. in_scope (mScope s) scope) (mRawSubstitutions cmds)"

lemma not_covers:
  "\<not> covers scope cmds \<Longrightarrow> \<not> any_subst_scope scope (mSubstitutions cmds) \<and>
     list_all (\<lambda>s. \<not> in_scope (mScope s) scope) (mRawSubstitutions cmds)"
  by (auto simp: covers_def list_ex_iff list_all_iff simp del: in_scope_table)

lemma substituteRequest_fields:
  "mMethod (fst (substituteRequest E c cmds r)) = mMethod r"
  "mAnswer (fst (substituteRequest E c cmds r)) = mAnswer r"
  "mHeadersOut (fst (substituteRequest E c cmds r)) = mHeadersOut r"
  "mConf (fst (substituteRequest E c cmds r)) = mConf r"
  by (simp_all add: substituteRequest_def Let_def split: prod.split)

lemma substituteRequest_path:
  "list_all (\<lambda>s. \<not> in_scope (mScope s) URL) (mRawSubstitutions cmds) \<Longrightarrow>
     mPath (fst (substituteRequest E c cmds r)) = mPath r"
  by (simp add: substituteRequest_def Let_def raw_substitute_untouched del: in_scope_table split: prod.split)

lemma substituteRequest_uncovered:
  "\<not> covers QUERY_STRING cmds \<Longrightarrow> mArgs (fst (substituteRequest E c cmds r)) = mArgs r"
  "\<not> covers BODY cmds \<Longrightarrow> mBody (fst (substituteRequest E c cmds r)) = mBody r"
  "\<not> any_subst_scope HEADERS (mSubstitutions cmds) \<Longrightarrow>
     mHeadersIn (fst (substituteRequest E c cmds r)) = mHeadersIn r"
  by (auto dest!: not_covers simp: substituteRequest_def Let_def raw_substitute_untouched
      simp del: in_scope_table split: prod.split)

section \<open>Properties\<close>



text \<open>C33: A substitution stays within its scope: the method, the answer and the response headers
  are never changed, and the query string, the body and the request headers only if a registered
  substitution has them in its scope.\<close>

theorem substitution_scope_confined:
  "mMethod (fst (substituteRequest E c cmds r)) = mMethod r \<and>
   mAnswer (fst (substituteRequest E c cmds r)) = mAnswer r \<and>
   mHeadersOut (fst (substituteRequest E c cmds r)) = mHeadersOut r \<and>
   (mArgs (fst (substituteRequest E c cmds r)) \<noteq> mArgs r \<longrightarrow> covers QUERY_STRING cmds) \<and>
   (mBody (fst (substituteRequest E c cmds r)) \<noteq> mBody r \<longrightarrow> covers BODY cmds) \<and>
   (mHeadersIn (fst (substituteRequest E c cmds r)) \<noteq> mHeadersIn r \<longrightarrow>
      any_subst_scope HEADERS (mSubstitutions cmds))"
  using substituteRequest_fields [of E c cmds r] substituteRequest_uncovered [of cmds E c r] by blast

theorem substitution_scope_confined_witness:
  "\<forall>r. let s = \<lparr>mScope = BODY, mRegex = ''x'', mReplacement = ''y''\<rparr>;
         r0 = RequestInfo_full r 0 ''id'' ''GET'' ''/p'' ''a=1'' (Some ''axb'');
         r1 = fst (substituteRequest ref_lib ApacheUrlCodec (Commands_init\<lparr>mRawSubstitutions := [s]\<rparr>) r0)
     in mBody r1 = ''ayb'' \<and> mArgs r1 = mArgs r0 \<and> mMethod r1 = mMethod r0"
proof -
  let ?cmds = "Commands_init\<lparr>mRawSubstitutions := [\<lparr>mScope = BODY, mRegex = ''x'', mReplacement = ''y''\<rparr>]\<rparr>"
  have "\<not> covers QUERY_STRING ?cmds" by (simp add: covers_def any_subst_scope_def Commands_init_def)
  then have "mArgs (fst (substituteRequest ref_lib ApacheUrlCodec ?cmds r)) = mArgs r \<and>
      mMethod (fst (substituteRequest ref_lib ApacheUrlCodec ?cmds r)) = mMethod r" for r
    using substitution_scope_confined [of ref_lib ApacheUrlCodec ?cmds r] by blast
  then show ?thesis
    by (simp add: Let_def substituteRequest_def any_subst_scope_def Commands_init_def
        raw_substitute_def RequestInfo_full_def RequestInfo_members_def in_scope_def)
qed

text \<open>Substitutions on request headers do not apply to headers as clients write them: the
  directive stores its field in upper case and the lookup by header name is case sensitive, so a
  header whose name has a lower-case letter is left as it is by a substitution registered for
  exactly that name.\<close>

theorem header_substitution_misses_mixed_case:
  assumes "to_upper_ascii E" and "regex_ok E m" and "map upper_char h \<noteq> h"
    and "currentApplicationScope conf = HEADERS"
  shows "\<exists>rp m1 cmds. addSubstitution E h m rep cp conf RequestProcessor_init = Inr rp \<and>
           map_find (mCommands rp) cp = Some m1 \<and>
           map_find m1 (currentDupDestination conf) = Some cmds \<and>
           headerSubstitute E (mSubstitutions cmds) [(h, v)] = ([(h, v)], False)"
proof -
  have up: "to_upper E h = map upper_char h" using assms(1) by (simp add: to_upper_ascii_def)
  have "map upper_char h < h \<or> h < map upper_char h" using assms(3) by (simp add: neq_iff)
  then show ?thesis
    using assms(2,3)
    by (auto simp: addSubstitution_def tSubstitute_new_def at_commands_def RequestProcessor_init_def
        proc_setUrlCodec_def map_modify_def Commands_init_def up subst_value_def)
qed

theorem header_substitution_misses_mixed_case_witness:
  "let conf = DupConf_init\<lparr>currentApplicationScope := HEADERS, currentDupDestination := ''h''\<rparr>
   in \<exists>rp m1 cmds. addSubstitution ref_lib ''Host'' ''a'' ''b'' 0 conf RequestProcessor_init = Inr rp \<and>
        map_find (mCommands rp) 0 = Some m1 \<and> map_find m1 ''h'' = Some cmds \<and>
        headerSubstitute ref_lib (mSubstitutions cmds) [(''Host'', ''aaa'')] = ([(''Host'', ''aaa'')], False)"
  using header_substitution_misses_mixed_case [of ref_lib "''a''" "''Host''"
      "DupConf_init\<lparr>currentApplicationScope := HEADERS, currentDupDestination := ''h''\<rparr>" "''b''" 0 "''aaa''"]
  by (simp add: Let_def ref_lib_documented upper_char_def char_of_def bit_0)

end
