(* ===== verification/Request_Send.thy ===== *)
theory Request_Send
  imports Request_Substitution
begin

text \<open>
  Building and sending the duplicated request (RequestProcessor.cc: \<open>sendInBody\<close>,
  \<open>sendDupFormat\<close>, \<open>addOrigHeaders\<close>, \<open>addCommonHeaders\<close>,
  \<open>addValidationHeadersCompare\<close>, \<open>performCurlCall\<close> and the header callback). libcurl is
  a parameter: a function from the requests sent so far and the new request to a result. A
  \<open>curl_slist\<close> is the list of its strings.
\<close>

section \<open>What is handed to libcurl and what comes back\<close>

record curl_request =
  cr_url :: string
  cr_post :: "string option"
  cr_headers :: "string list"
  cr_agent :: string
  cr_timeout :: uint32

record curl_result =
  res_code :: int
  res_http :: int
  res_headers :: "string list"

type_synonym curl_net = "curl_request list \<Rightarrow> curl_request \<Rightarrow> curl_result"

definition CURLE_OPERATION_TIMEDOUT :: int where
  "CURLE_OPERATION_TIMEDOUT = 28"

definition gUserAgent :: string where
  "gUserAgent = ''mod-dup''"

text \<open>A response header line. Without a colon, \<open>find\<close> returns \<open>npos\<close>, so the key is
  the whole line and the value starts at \<open>npos + 1 = 0\<close>: it is the whole line too.\<close>

definition getCurlResponseHeaderCallback ::
    "ext_lib \<Rightarrow> string \<Rightarrow> (string, string) std_map \<Rightarrow> (string, string) std_map" where
  "getCurlResponseHeaderCallback E buffer hdrs =
     (let lheaderLine = filter (\<lambda>ch. ch \<noteq> CRchar) (c_str buffer);
          (k, v) = (case find_char (CHR '':'') lheaderLine of
                      None \<Rightarrow> (lheaderLine, lheaderLine)
                    | Some i \<Rightarrow> (take i lheaderLine, drop (i + 1) lheaderLine))
      in map_put (trim E k) (trim E v) hdrs)"

section \<open>Headers\<close>

definition slist_append :: "string \<Rightarrow> string list \<Rightarrow> string list" where
  "slist_append s slist = slist @ [c_str s]"

text \<open>The names of the headers already in the list: the texts before a colon.\<close>

definition slist_names :: "string list \<Rightarrow> string list" where
  "slist_names slist = map (takeWhile (\<lambda>ch. ch \<noteq> CHR '':'')) (filter (\<lambda>s. CHR '':'' \<in> set s) slist)"

definition never_copied :: "string list" where
  "never_copied = [''Host'', ''Transfer-Encoding'', ''Content-Length'', ''Duplication-Type'']"

fun orig_headers_loop :: "string list \<Rightarrow> key_val_list \<Rightarrow> string list \<Rightarrow> string list" where
  "orig_headers_loop headers [] slist = slist"
| "orig_headers_loop headers ((k, v) # kvs) slist =
     (if k \<notin> set headers \<and> k \<noteq> ''Host'' \<and> k \<noteq> ''Transfer-Encoding'' \<and>
         k \<noteq> ''Content-Length'' \<and> k \<noteq> ''Duplication-Type''
      then orig_headers_loop (k # headers) kvs (slist_append (k @ '': '' @ v) slist)
      else orig_headers_loop headers kvs slist)"

definition addOrigHeaders :: "RequestInfo \<Rightarrow> string list \<Rightarrow> string list" where
  "addOrigHeaders rInfo slist = orig_headers_loop (slist_names slist) (mHeadersIn rInfo) slist"

definition addCommonHeaders :: "ext_lib \<Rightarrow> RequestInfo \<Rightarrow> string list \<Rightarrow> string list" where
  "addCommonHeaders E rInfo slist =
     slist_append ''User-RealAgent: mod-dup''
       (slist_append ''X-DUPLICATED-REQUEST: 1''
          (slist_append ''Expect:''
             (slist_append (''ELAPSED_TIME_BY_DUP: '' @ lexical_string E (getElapsedTimeMS rInfo)) slist)))"

definition addValidationHeadersCompare ::
    "tFilter \<Rightarrow> RequestInfo \<times> string list \<Rightarrow> RequestInfo \<times> string list" where
  "addValidationHeadersCompare flt rs =
     (case rs of (rInfo, slist) \<Rightarrow>
        if mDuplicationType flt = REQUEST_WITH_ANSWER \<and> mValidationHeaderDup rInfo
        then (rInfo\<lparr>mValidationHeaderComp := True\<rparr>, slist_append ''X_COMP_LOG: ON'' slist)
        else (rInfo, slist))"

section \<open>The body\<close>

text \<open>The post field size is that of the whole string, so NUL bytes are sent.\<close>

definition sendInBody ::
    "ext_lib \<Rightarrow> RequestInfo \<Rightarrow> string list \<Rightarrow> string \<Rightarrow> string option \<times> string list" where
  "sendInBody E rInfo slist toSend =
     (let slist1 = slist_append (''Content-Length: '' @ lexical_string E (int (length toSend))) slist
      in (Some toSend, addOrigHeaders rInfo slist1))"

definition answerHeaders :: "key_val_list \<Rightarrow> string" where
  "answerHeaders kvs = foldl (\<lambda>acc (k, v). acc @ k @ '': '' @ v @ [NL]) [] kvs"

definition dupFormat :: "RequestInfo \<Rightarrow> string" where
  "dupFormat rInfo =
     Serialize (mAnswer rInfo) (Serialize (answerHeaders (mHeadersOut rInfo)) (Serialize (mBody rInfo) []))"

definition sendDupFormat ::
    "ext_lib \<Rightarrow> RequestInfo \<Rightarrow> string list \<Rightarrow> string option \<times> string list" where
  "sendDupFormat E rInfo slist =
     (let slist1 = slist_append ''Duplication-Type: Response''
                     (slist_append ''Content-Type: application/x-dup-serialized'' slist);
          slist2 = foldl (\<lambda>sl (k, v). if k = ''X-MATCHED-PATTERN'' then slist_append (k @ '': '' @ v) sl else sl)
                     slist1 (mHeadersOut rInfo)
      in sendInBody E rInfo slist2 (dupFormat rInfo))"

section \<open>Sending\<close>

text \<open>The entry of the error log when a call fails or the answer is not 200.\<close>

datatype error_body = EmptyBody | MatchedBody string | TruncatedBody string

definition curl_error_body :: "ext_lib \<Rightarrow> tFilter \<Rightarrow> RequestInfo \<Rightarrow> error_body" where
  "curl_error_body E flt rInfo =
     (if mBody rInfo = [] then EmptyBody
      else if mErrorLogBodyMatch flt = [] then TruncatedBody (mBody rInfo)
      else (case regex_search E (mBody rInfo) (mErrorLogBodyMatch flt) of
              Some what \<Rightarrow> MatchedBody what
            | None \<Rightarrow> TruncatedBody (mBody rInfo)))"

text \<open>The request built for a matched filter, and the change to the request information.\<close>

definition build_request ::
    "ext_lib \<Rightarrow> RequestProcessor \<Rightarrow> tFilter \<Rightarrow> RequestInfo \<Rightarrow> curl_request \<times> RequestInfo" where
  "build_request E rp flt rInfo0 =
     (let uri = mDestination flt @ mPath rInfo0 @ ''?'' @ mArgs rInfo0;
          (rInfo, slist) = addValidationHeadersCompare flt (rInfo0, addCommonHeaders E rInfo0 []);
          (post, headers) =
            (if mDuplicationType flt = REQUEST_WITH_ANSWER then sendDupFormat E rInfo slist
             else if mDuplicationType flt = COMPLETE_REQUEST \<and> hasBody rInfo
             then sendInBody E rInfo slist (mBody rInfo)
             else (None, addOrigHeaders rInfo slist))
      in (\<lparr>cr_url = c_str uri, cr_post = post, cr_headers = headers, cr_agent = gUserAgent,
           cr_timeout = mTimeout rp\<rparr>, rInfo))"

record worker_state =
  w_proc :: RequestProcessor
  w_sent :: "curl_request list"
  w_errors :: "(int \<times> int \<times> error_body) list"
  w_draws :: nat
  w_checks :: nat

definition performCurlCall ::
    "ext_lib \<Rightarrow> curl_net \<Rightarrow> tFilter \<Rightarrow> RequestInfo \<times> worker_state \<Rightarrow> RequestInfo \<times> worker_state" where
  "performCurlCall E net flt rw =
     (case rw of (rInfo0, w) \<Rightarrow>
      case build_request E (w_proc w) flt rInfo0 of (req, rInfo1) \<Rightarrow>
      let res = net (w_sent w) req;
          rInfo2 = rInfo1\<lparr>mCurlCompResponseHeader :=
                      foldl (\<lambda>m l. getCurlResponseHeaderCallback E l m) (mCurlCompResponseHeader rInfo1)
                        (res_headers res),
                    mCurlCompResponseStatus := res_code res\<rparr>;
          w1 = w\<lparr>w_sent := w_sent w @ [req]\<rparr>;
          w2 = (if mCurlCompResponseStatus rInfo2 = CURLE_OPERATION_TIMEDOUT
                then w1\<lparr>w_proc := (w_proc w1)\<lparr>mTimeoutCount := mTimeoutCount (w_proc w1) + 1\<rparr>\<rparr> else w1);
          w3 = (if mCurlCompResponseStatus rInfo2 \<noteq> 0 \<or> res_http res \<noteq> 200
                then w2\<lparr>w_errors := w_errors w2 @
                       [(mCurlCompResponseStatus rInfo2, res_http res, curl_error_body E flt rInfo2)]\<rparr>
                else w2)
      in (rInfo2, w3))"

section \<open>Lemmas\<close>

lemma answerHeaders_concat: "answerHeaders kvs = concat (map (\<lambda>(k, v). k @ '': '' @ v @ [NL]) kvs)"
proof -
  have "foldl (\<lambda>acc (k, v). acc @ k @ '': '' @ v @ [NL]) acc kvs =
      acc @ concat (map (\<lambda>(k, v). k @ '': '' @ v @ [NL]) kvs)" for acc
    by (induction kvs arbitrary: acc) (auto split: prod.splits)
  then show ?thesis by (simp add: answerHeaders_def)
qed

lemma slist_append_names:
  assumes "CHR '':'' \<in> set (c_str s)"
  shows "slist_names (slist_append s sl) = slist_names sl @ [takeWhile (\<lambda>ch. ch \<noteq> CHR '':'') (c_str s)]"
  using assms by (simp add: slist_names_def slist_append_def)

text \<open>A header name a client can send: no colon and no NUL.\<close>

definition plain_name :: "string \<Rightarrow> bool" where
  "plain_name k \<longleftrightarrow> CHR '':'' \<notin> set k \<and> NUL \<notin> set k"

lemma header_line_name:
  assumes "plain_name k"
  shows "CHR '':'' \<in> set (c_str (k @ '': '' @ v)) \<and>
         takeWhile (\<lambda>ch. ch \<noteq> CHR '':'') (c_str (k @ '': '' @ v)) = k"
proof -
  have "c_str (k @ '': '' @ v) = k @ '': '' @ c_str v"
    using assms by (simp add: c_str_def plain_name_def takeWhile_append)
  moreover have "takeWhile (\<lambda>ch. ch \<noteq> CHR '':'') (k @ CHR '':'' # x) = k" for x
    using assms by (induction k) (auto simp: plain_name_def)
  ultimately show ?thesis by simp
qed

lemma orig_headers_names:
  assumes "\<And>k v. (k, v) \<in> set kvs \<Longrightarrow> plain_name k" and "distinct (slist_names sl)"
    and "set headers = set (slist_names sl)"
  shows "distinct (slist_names (orig_headers_loop headers kvs sl)) \<and>
         set (slist_names (orig_headers_loop headers kvs sl)) =
           set (slist_names sl) \<union> (fst ` set kvs - set never_copied)"
  using assms
proof (induction kvs arbitrary: headers sl)
  case (Cons kv kvs)
  obtain k v where kv: "kv = (k, v)" by (cases kv)
  have "plain_name k" using Cons.prems(1) [of k v] by (simp add: kv)
  then have names: "slist_names (slist_append (k @ '': '' @ v) sl) = slist_names sl @ [k]"
    using header_line_name [of k v] slist_append_names [of "k @ '': '' @ v" sl] by simp
  have plain: "\<And>k v. (k, v) \<in> set kvs \<Longrightarrow> plain_name k"
    using Cons.prems(1) by (metis list.set_intros(2))
  show ?case
  proof (cases "k \<notin> set headers \<and> k \<notin> set never_copied")
    case True
    then have step: "orig_headers_loop headers (kv # kvs) sl =
        orig_headers_loop (k # headers) kvs (slist_append (k @ '': '' @ v) sl)"
      by (simp add: never_copied_def kv)
    have "distinct (slist_names sl @ [k])" "set (k # headers) = set (slist_names sl @ [k])"
      using True Cons.prems(2,3) by auto
    then have "distinct (slist_names (orig_headers_loop headers (kv # kvs) sl)) \<and>
       set (slist_names (orig_headers_loop headers (kv # kvs) sl)) =
         set (slist_names sl @ [k]) \<union> (fst ` set kvs - set never_copied)"
      using Cons.IH [of "slist_append (k @ '': '' @ v) sl" "k # headers"] plain
      unfolding names step by blast
    moreover have "set (slist_names sl @ [k]) \<union> (fst ` set kvs - set never_copied) =
        set (slist_names sl) \<union> (fst ` set (kv # kvs) - set never_copied)"
      using True by (simp add: kv insert_Diff_if)
    ultimately show ?thesis by simp
  next
    case False
    then have step: "orig_headers_loop headers (kv # kvs) sl = orig_headers_loop headers kvs sl"
      by (auto simp: never_copied_def kv)
    have "set (slist_names sl) \<union> (fst ` set (kv # kvs) - set never_copied) =
        set (slist_names sl) \<union> (fst ` set kvs - set never_copied)"
      using False Cons.prems(3) by (auto simp: kv)
    then show ?thesis using Cons.IH [OF plain Cons.prems(2,3)] by (simp only: step)
  qed
qed simp

lemma slist_append_header:
  "plain_name k \<Longrightarrow> slist_names (slist_append (k @ '': '' @ v) sl) = slist_names sl @ [k]"
  using header_line_name [of k v] slist_append_names [of "k @ '': '' @ v" sl] by simp

text \<open>The names mod_dup sets itself.\<close>

definition common_names :: "string list" where
  "common_names = [''ELAPSED_TIME_BY_DUP'', ''Expect'', ''X-DUPLICATED-REQUEST'', ''User-RealAgent'']"

lemma addCommonHeaders_names: "slist_names (addCommonHeaders E r []) = common_names"
proof -
  have "slist_names (slist_append (''ELAPSED_TIME_BY_DUP'' @ '': '' @ v) []) = [''ELAPSED_TIME_BY_DUP'']" for v
    by (subst slist_append_header) (simp_all add: plain_name_def slist_names_def)
  then show ?thesis
    by (simp add: addCommonHeaders_def common_names_def slist_append_names c_str_def)
qed

lemma content_length_name:
  "slist_names (slist_append (''Content-Length: '' @ v) sl) = slist_names sl @ [''Content-Length'']"
proof -
  have "plain_name ''Content-Length''" by (simp add: plain_name_def)
  from slist_append_header [OF this, of v sl] show ?thesis by simp
qed

lemmas content_length_names = content_length_name [simplified]

lemma addValidationHeadersCompare_other:
  "mDuplicationType flt \<noteq> REQUEST_WITH_ANSWER \<Longrightarrow> addValidationHeadersCompare flt rs = rs"
  by (simp add: addValidationHeadersCompare_def split: prod.split)

lemma dupFormat_validation [simp]: "dupFormat (r\<lparr>mValidationHeaderComp := b\<rparr>) = dupFormat r"
  by (simp add: dupFormat_def)

text \<open>The client headers that are copied: the first of each name not seen before.\<close>

fun kept :: "string list \<Rightarrow> key_val_list \<Rightarrow> key_val_list" where
  "kept headers [] = []"
| "kept headers ((k, v) # kvs) =
     (if k \<notin> set headers \<and> k \<notin> set never_copied then (k, v) # kept (k # headers) kvs
      else kept headers kvs)"

lemma orig_headers_kept:
  "orig_headers_loop headers kvs sl = sl @ map (\<lambda>kv. c_str (fst kv @ '': '' @ snd kv)) (kept headers kvs)"
proof (induction kvs arbitrary: headers sl)
  case (Cons kv kvs)
  then show ?case by (cases kv) (auto simp: never_copied_def slist_append_def)
qed simp

lemma map_of_kept:
  "map_of (kept headers kvs) k = (if k \<in> set headers \<or> k \<in> set never_copied then None else map_of kvs k)"
proof (induction kvs arbitrary: headers)
  case (Cons kv kvs)
  then show ?case by (cases kv) auto
qed simp

lemma kept_new: "kv \<in> set (kept headers kvs) \<Longrightarrow> fst kv \<notin> set headers"
proof (induction kvs arbitrary: headers)
  case (Cons a kvs)
  then show ?case using Cons.IH [of "fst a # headers"] by (cases a) (auto split: if_splits)
qed simp

lemma distinct_kept: "distinct (map fst (kept headers kvs))"
proof (induction kvs arbitrary: headers)
  case (Cons a kvs)
  then show ?case
    using kept_new [of _ "fst a # headers" kvs] by (cases a) (auto dest!: kept_new)
qed simp

text \<open>The names of the lines mod_dup may put before the client headers.\<close>

definition preset_names :: "string list" where
  "preset_names = common_names @ [''X_COMP_LOG'', ''Content-Type'', ''Duplication-Type'',
     ''X-MATCHED-PATTERN'', ''Content-Length'']"

abbreviation line_name :: "string \<Rightarrow> string" where
  "line_name \<equiv> takeWhile (\<lambda>ch. ch \<noteq> CHR '':'')"

definition preset :: "string list \<Rightarrow> bool" where
  "preset sl \<longleftrightarrow> (\<forall>line \<in> set sl. line_name line \<in> set preset_names)"

lemma preset_append: "preset sl \<Longrightarrow> line_name (c_str s) \<in> set preset_names \<Longrightarrow> preset (slist_append s sl)"
  by (simp add: preset_def slist_append_def)

lemma preset_header:
  "preset sl \<Longrightarrow> plain_name k \<Longrightarrow> k \<in> set preset_names \<Longrightarrow> preset (slist_append (k @ '': '' @ v) sl)"
  using header_line_name [of k v] by (intro preset_append) auto

lemma preset_common: "preset (addCommonHeaders E r [])"
proof -
  have "preset (slist_append (''ELAPSED_TIME_BY_DUP'' @ '': '' @ v) [])" for v
    by (intro preset_header) (simp_all add: preset_def plain_name_def preset_names_def common_names_def)
  then show ?thesis
    unfolding addCommonHeaders_def
    by (intro preset_append)
       (simp_all add: preset_def preset_names_def common_names_def c_str_def)
qed

lemma preset_compare:
  "addValidationHeadersCompare flt (r, sl) = (r', sl') \<Longrightarrow> preset sl \<Longrightarrow> preset sl' \<and> mHeadersIn r' = mHeadersIn r"
  by (auto simp: addValidationHeadersCompare_def preset_names_def c_str_def
      intro!: preset_append split: if_splits)

lemma preset_content_length: "preset sl \<Longrightarrow> preset (slist_append (''Content-Length: '' @ v) sl)"
  using preset_header [of sl "''Content-Length''" v]
  by (simp add: plain_name_def preset_names_def common_names_def)

lemma preset_patterns:
  "preset sl \<Longrightarrow> preset (foldl (\<lambda>sl (k, v). if k = ''X-MATCHED-PATTERN'' then slist_append (k @ '': '' @ v) sl else sl) sl kvs)"
proof (induction kvs arbitrary: sl)
  case (Cons kv kvs)
  have "preset (slist_append (''X-MATCHED-PATTERN'' @ '': '' @ snd kv) sl)"
    using Cons.prems by (rule preset_header) (simp_all add: plain_name_def preset_names_def)
  with Cons show ?case by (cases kv) auto
qed simp

lemma build_request_headers:
  "\<exists>sl. preset sl \<and> cr_headers (fst (build_request E rp flt r)) =
     sl @ map (\<lambda>kv. c_str (fst kv @ '': '' @ snd kv)) (kept (slist_names sl) (mHeadersIn r))"
proof -
  obtain r1 sl1 where c: "addValidationHeadersCompare flt (r, addCommonHeaders E r []) = (r1, sl1)" by fastforce
  have sl1: "preset sl1" "mHeadersIn r1 = mHeadersIn r" using preset_compare [OF c preset_common] by auto
  have post: "\<exists>sl. preset sl \<and> snd (sendInBody E r1 s body) =
      sl @ map (\<lambda>kv. c_str (fst kv @ '': '' @ snd kv)) (kept (slist_names sl) (mHeadersIn r))"
    if "preset s" for s body
    using preset_content_length [OF that, of "lexical_string E (int (length body))"] sl1(2)
    by (intro exI) (simp add: sendInBody_def Let_def addOrigHeaders_def orig_headers_kept)
  have dup: "preset (slist_append ''Duplication-Type: Response'' (slist_append ''Content-Type: application/x-dup-serialized'' sl1))"
    using sl1(1) by (intro preset_append) (simp_all add: preset_names_def c_str_def)
  show ?thesis
  proof (cases "mDuplicationType flt = REQUEST_WITH_ANSWER")
    case True
    let ?sl = "foldl (\<lambda>sl (k, v). if k = ''X-MATCHED-PATTERN'' then slist_append (k @ '': '' @ v) sl else sl)
        (slist_append ''Duplication-Type: Response'' (slist_append ''Content-Type: application/x-dup-serialized'' sl1))
        (mHeadersOut r1)"
    have "cr_headers (fst (build_request E rp flt r)) = snd (sendInBody E r1 ?sl (dupFormat r1))"
      using True by (simp only: build_request_def c Let_def sendDupFormat_def split: prod.split) simp
    with post [OF preset_patterns [OF dup]] show ?thesis by simp
  next
    case False
    have "\<exists>sl. preset sl \<and> addOrigHeaders r1 sl1 =
        sl @ map (\<lambda>kv. c_str (fst kv @ '': '' @ snd kv)) (kept (slist_names sl) (mHeadersIn r))"
      using sl1 by (auto simp: addOrigHeaders_def orig_headers_kept)
    moreover have "cr_headers (fst (build_request E rp flt r)) = snd (sendInBody E r1 sl1 (mBody r1)) \<or>
        cr_headers (fst (build_request E rp flt r)) = addOrigHeaders r1 sl1"
      using False by (auto simp: build_request_def c Let_def split: prod.split)
    ultimately show ?thesis using post [OF sl1(1), of "mBody r1"] by auto
  qed
qed

text \<open>A header mod_dup does not set itself is sent once, with the first value it has among the
  headers of the request.\<close>

lemma build_request_header_line:
  assumes "map_of (mHeadersIn r) k = Some v" and "k \<notin> set preset_names" and "k \<notin> set never_copied"
    and "\<And>k' v'. (k', v') \<in> set (mHeadersIn r) \<Longrightarrow> plain_name k'"
  shows "c_str (k @ '': '' @ v) \<in> set (cr_headers (fst (build_request E rp flt r))) \<and>
    (\<forall>line \<in> set (cr_headers (fst (build_request E rp flt r))). line_name line = k \<longrightarrow> line = c_str (k @ '': '' @ v))"
proof -
  obtain sl where sl: "preset sl" "cr_headers (fst (build_request E rp flt r)) =
     sl @ map (\<lambda>kv. c_str (fst kv @ '': '' @ snd kv)) (kept (slist_names sl) (mHeadersIn r))"
    using build_request_headers by blast
  let ?K = "kept (slist_names sl) (mHeadersIn r)"
  have "k \<notin> set (slist_names sl)"
    using sl(1) assms(2) by (auto simp: preset_def slist_names_def)
  then have k: "map_of ?K k = Some v" using assms(1,3) by (simp add: map_of_kept)
  have sub: "set ?K \<subseteq> set (mHeadersIn r)" for h
  proof -
    have "set (kept h kvs) \<subseteq> set kvs" for h kvs
    proof (induction kvs arbitrary: h)
      case (Cons a kvs)
      then show ?case by (cases a) auto
    qed simp
    then show ?thesis .
  qed
  have uniq: "v' = v" if "(k, v') \<in> set ?K" for v'
    using that k distinct_kept map_of_is_SomeI by fastforce
  have "line = c_str (k @ '': '' @ v)" if line: "line \<in> set (cr_headers (fst (build_request E rp flt r)))" "line_name line = k" for line
  proof -
    have "line \<notin> set sl" using line(2) sl(1) assms(2) by (auto simp: preset_def)
    then obtain k' v' where kv: "(k', v') \<in> set ?K" "line = c_str (k' @ '': '' @ v')"
      using line(1) sl(2) by auto
    then have "k' = k" using header_line_name [of k' v'] assms(4) sub line(2) by auto
    with kv uniq show ?thesis by simp
  qed
  moreover have "c_str (k @ '': '' @ v) \<in> set (cr_headers (fst (build_request E rp flt r)))"
    using map_of_SomeD [OF k] sl(2) by force
  ultimately show ?thesis by blast
qed

section \<open>Properties\<close>

text \<open>The body sent depends on the duplication type and on nothing else: with
  \<open>REQUEST_WITH_ANSWER\<close> it is the serialised request and answer, with
  \<open>COMPLETE_REQUEST\<close> the body of the request if there is one, and in every other case the
  request is a GET without body. The URL is the destination, the path and the arguments.\<close>

theorem request_body_by_type:
  "cr_post (fst (build_request E rp flt r)) =
     (case mDuplicationType flt of
        REQUEST_WITH_ANSWER \<Rightarrow> Some (dupFormat r)
      | COMPLETE_REQUEST \<Rightarrow> (if mBody r = [] then None else Some (mBody r))
      | _ \<Rightarrow> None) \<and>
   cr_url (fst (build_request E rp flt r)) = c_str (mDestination flt @ mPath r @ ''?'' @ mArgs r) \<and>
   cr_timeout (fst (build_request E rp flt r)) = mTimeout rp"
  by (cases "mDuplicationType flt")
     (auto simp: build_request_def Let_def sendDupFormat_def sendInBody_def hasBody_def
       addValidationHeadersCompare_def)

text \<open>C32: No header is sent twice, so that the receiving server does not merge values: the names
  of the headers of a duplicated request without answer are pairwise distinct; they are those
  mod_dup sets and those of the client that mod_dup does not set, and the client's
  \<open>Host\<close>, \<open>Transfer-Encoding\<close>, \<open>Content-Length\<close> and \<open>Duplication-Type\<close> are
  not copied. Header names must have no colon and no NUL.\<close>

theorem duplicated_headers_distinct:
  assumes "\<And>k v. (k, v) \<in> set (mHeadersIn r) \<Longrightarrow> plain_name k"
    and "mDuplicationType flt \<noteq> REQUEST_WITH_ANSWER"
  shows "distinct (slist_names (cr_headers (fst (build_request E rp flt r)))) \<and>
         set (slist_names (cr_headers (fst (build_request E rp flt r)))) =
           set common_names \<union>
           (if cr_post (fst (build_request E rp flt r)) = None then {} else {''Content-Length''}) \<union>
           (fst ` set (mHeadersIn r) - set never_copied)"
proof -
  let ?get = "addCommonHeaders E r []"
  let ?post = "slist_append (''Content-Length: '' @ lexical_string E (int (length (mBody r)))) ?get"
  have dist: "distinct (slist_names ?get)" "distinct (slist_names ?post)"
    by (simp_all add: addCommonHeaders_names content_length_names common_names_def)
  show ?thesis
    using orig_headers_names [OF assms(1) dist(1) refl] orig_headers_names [OF assms(1) dist(2) refl]
      assms(2)
    by (auto simp: build_request_def Let_def addValidationHeadersCompare_other sendInBody_def
        addOrigHeaders_def addCommonHeaders_names content_length_names)
qed

theorem duplicated_headers_distinct_witness:
  "\<forall>mem. let r = (RequestInfo_full mem 0 ''i'' ''POST'' ''/p'' [] (Some ''b''))
                   \<lparr>mHeadersIn := [(''Accept'', ''*''), (''Host'', ''h''), (''Accept'', ''x'')]\<rparr>;
             flt = \<lparr>mScope = ALL_SCOPES, mRegex = [], mDestination = ''d'', mErrorLogBodyMatch = [],
                     mDuplicationType = COMPLETE_REQUEST, mFilterType = REGULAR, mMatch = []\<rparr>
         in set (slist_names (cr_headers (fst (build_request ref_lib RequestProcessor_init flt r)))) =
              set common_names \<union> {''Content-Length'', ''Accept''}"
proof (intro allI)
  fix mem
  let ?r = "(RequestInfo_full mem 0 ''i'' ''POST'' ''/p'' [] (Some ''b''))
      \<lparr>mHeadersIn := [(''Accept'', ''*''), (''Host'', ''h''), (''Accept'', ''x'')]\<rparr>"
  let ?flt = "\<lparr>mScope = ALL_SCOPES, mRegex = [], mDestination = ''d'', mErrorLogBodyMatch = [],
      mDuplicationType = COMPLETE_REQUEST, mFilterType = REGULAR, mMatch = []\<rparr>"
  have plain: "plain_name k" if "(k, v) \<in> set (mHeadersIn ?r)" for k v
    using that by (auto simp: plain_name_def)
  have post: "cr_post (fst (build_request ref_lib RequestProcessor_init ?flt ?r)) \<noteq> None"
    by (simp add: build_request_def Let_def addValidationHeadersCompare_def sendInBody_def hasBody_def
        RequestInfo_full_def)
  have "set (slist_names (cr_headers (fst (build_request ref_lib RequestProcessor_init ?flt ?r)))) =
      set common_names \<union> {''Content-Length'', ''Accept''}"
    using duplicated_headers_distinct [of ?r ?flt ref_lib RequestProcessor_init, OF plain] post
    by (auto simp: never_copied_def)
  then show "let r = ?r; flt = ?flt
      in set (slist_names (cr_headers (fst (build_request ref_lib RequestProcessor_init flt r)))) =
           set common_names \<union> {''Content-Length'', ''Accept''}"
    by (simp only: Let_def)
qed

end
