(* ===== verification/Request_Run.thy ===== *)
theory Request_Run
  imports Request_Send Thread_Pool
begin

text \<open>
  The worker of the pool (RequestProcessor.cc: \<open>addValidationHeadersDup\<close>,
  \<open>processRequest\<close>, \<open>runOne\<close>, \<open>initCurl\<close>, \<open>run\<close>): it takes a request off the
  queue, finds the filters that match, and performs the calls. The random numbers and what the
  worker reads of the flag \<open>stillRunning\<close>, which another thread clears, are numbered
  observations of the environment.
\<close>

section \<open>Which filters match\<close>

definition filter_log :: "tFilter \<Rightarrow> string" where
  "filter_log f = scope_enumToString (mScope f) @ '' filter: '' @ [CHR 0x22] @ mRegex f @ [CHR 0x22] @
     '' matched: '' @ [CHR 0x22] @ mMatch f @ [CHR 0x22] @ '' Destination: '' @ mDestination f"

fun filters_log :: "string \<Rightarrow> tFilter list \<Rightarrow> string" where
  "filters_log separator [] = []"
| "filters_log separator (f # fs) = separator @ filter_log f @ filters_log '' AND '' fs"

definition addValidationHeadersDup ::
    "tFilter list \<Rightarrow> int \<Rightarrow> int \<Rightarrow> RequestInfo \<Rightarrow> RequestInfo" where
  "addValidationHeadersDup matchedFilters numDestinations numFiltersAttempted rInfo =
     (let patterns = map (\<lambda>f. (''X-MATCHED-PATTERN'', mMatch f)) matchedFilters;
          xDupLog = (if matchedFilters \<noteq> []
             then ''The request is duplicated, '' @ filters_log [] matchedFilters
             else ''The request is not duplicated, having found '' @ show_int numDestinations @
                  '' DupDestination(s) and attempted to match '' @ show_int numFiltersAttempted @
                  '' DupFilter or DupRawFilter'')
      in rInfo\<lparr>mHeadersOut := mHeadersOut rInfo @ patterns @ [(''X_DUP_LOG'', xDupLog)]\<rparr>)"

definition commands_for :: "RequestProcessor \<Rightarrow> RequestInfo \<Rightarrow> tCommandsByDestination option" where
  "commands_for rp r = (case mConf r of None \<Rightarrow> None | Some cp \<Rightarrow> map_find (mCommands rp) cp)"

fun destination_loop ::
    "ext_lib \<Rightarrow> url_codec \<Rightarrow> RequestInfo \<Rightarrow> tCommandsByDestination \<Rightarrow> tFilter list \<times> int \<Rightarrow> tFilter list \<times> int" where
  "destination_loop E c r [] (ret, filtersAttempted) = (ret, filtersAttempted)"
| "destination_loop E c r ((dest, cmds) # ds) (ret, filtersAttempted) =
     destination_loop E c r ds
       (case matchesFilter E c r cmds of None \<Rightarrow> ret | Some f \<Rightarrow> ret @ [f],
        filtersAttempted + int (length (mRawFilters cmds)) + int (length (mFilters cmds)))"

definition processRequest ::
    "ext_lib \<Rightarrow> RequestProcessor \<Rightarrow> RequestInfo \<Rightarrow> tFilter list \<times> RequestInfo" where
  "processRequest E rp pRequest =
     (case commands_for rp pRequest of
        None \<Rightarrow> ([], addValidationHeadersDup [] 0 0 pRequest)
      | Some lCommands \<Rightarrow>
          (case destination_loop E (mUrlCodec rp) pRequest lCommands ([], 0) of (ret, filtersAttempted) \<Rightarrow>
             (ret, addValidationHeadersDup ret (int (length lCommands)) filtersAttempted pRequest)))"

section \<open>Duplicating one request\<close>

record worker_env =
  env_net :: curl_net
  env_rnd :: "nat \<Rightarrow> int option"
  env_running :: "nat \<Rightarrow> bool"

text \<open>\<open>toDuplicateInt\<close> draws a random number only when the percentage is no multiple of
  100.\<close>

definition draw_dups :: "worker_env \<Rightarrow> Commands \<Rightarrow> worker_state \<Rightarrow> uint32 \<times> worker_state" where
  "draw_dups env c w =
     (toDuplicateInt (env_rnd env (w_draws w)) c,
      if mDuplicationPercentage c mod 100 \<noteq> 0 then w\<lparr>w_draws := w_draws w + 1\<rparr> else w)"

definition count_dup :: "worker_state \<Rightarrow> worker_state" where
  "count_dup w = w\<lparr>w_proc := (w_proc w)\<lparr>mDuplicatedCount := mDuplicatedCount (w_proc w) + 1\<rparr>\<rparr>"

fun dup_loop ::
    "ext_lib \<Rightarrow> worker_env \<Rightarrow> tFilter \<Rightarrow> Commands \<Rightarrow> nat \<Rightarrow> RequestInfo \<times> worker_state \<Rightarrow> RequestInfo \<times> worker_state" where
  "dup_loop E env flt c 0 (r, w) = (r, w)"
| "dup_loop E env flt c (Suc n) (r, w) =
     (let w0 = w\<lparr>w_checks := Suc (w_checks w)\<rparr> in
      if \<not> env_running env (w_checks w) then (r, w0)
      else if mSubstitutions c \<noteq> [] \<or> mRawSubstitutions c \<noteq> []
      then (let ri = fst (substituteRequest E (mUrlCodec (w_proc w0)) c r);
                w1 = snd (performCurlCall E (env_net env) flt (ri, w0))
            in dup_loop E env flt c n (r, count_dup w1))
      else (case performCurlCall E (env_net env) flt (r, w0) of (r1, w1) \<Rightarrow>
              dup_loop E env flt c n (r1, count_dup w1)))"

text \<open>\<open>at\<close> raises \<open>std::out_of_range\<close> on a missing key.\<close>

fun filter_loop ::
    "ext_lib \<Rightarrow> worker_env \<Rightarrow> tFilter list \<Rightarrow> RequestInfo \<times> worker_state \<Rightarrow>
     dup_exception + (RequestInfo \<times> worker_state)" where
  "filter_loop E env [] rw = Inr rw"
| "filter_loop E env (f # fs) (r, w) =
     (case commands_for (w_proc w) r of
        None \<Rightarrow> Inl OutOfRange
      | Some cbd \<Rightarrow>
          (case map_find cbd (mDestination f) of
             None \<Rightarrow> Inl OutOfRange
           | Some c \<Rightarrow>
               (case draw_dups env c w of (numDups, w1) \<Rightarrow>
                  if numDups = 0 then filter_loop E env fs (r, w1)
                  else filter_loop E env fs (dup_loop E env f c (unat numDups) (r, w1)))))"

definition runOne ::
    "ext_lib \<Rightarrow> worker_env \<Rightarrow> RequestInfo \<times> worker_state \<Rightarrow> dup_exception + (RequestInfo \<times> worker_state)" where
  "runOne E env rw =
     (case rw of (reqInfo0, w) \<Rightarrow>
      let reqInfo = reqInfo0\<lparr>mParsedArgs := parseArgs E (mUrlCodec (w_proc w)) (mParsedArgs reqInfo0) (mArgs reqInfo0)\<rparr>
      in case processRequest E (w_proc w) reqInfo of (matchedFilters, reqInfo1) \<Rightarrow>
           filter_loop E env matchedFilters (reqInfo1, w))"

section \<open>The worker\<close>

text \<open>The worker sees the items the queue hands to it. It ends at a pill; if its handle could not
  be created it ends at once. When the items run out it waits.\<close>

datatype worker_end = Ended | Waiting | Threw dup_exception

fun run_loop :: "ext_lib \<Rightarrow> worker_env \<Rightarrow> RequestInfo list \<Rightarrow> worker_state \<Rightarrow> worker_state \<times> worker_end" where
  "run_loop E env [] w = (w, Waiting)"
| "run_loop E env (item # items) w =
     (if isPoison item then (w, Ended)
      else (case runOne E env (item, w) of
              Inl e \<Rightarrow> (w, Threw e)
            | Inr (r, w') \<Rightarrow> run_loop E env items w'))"

definition initCurl :: "bool \<Rightarrow> RequestProcessor \<Rightarrow> (string \<times> uint32) option" where
  "initCurl curl_easy_init_ok rp = (if curl_easy_init_ok then Some (gUserAgent, mTimeout rp) else None)"

definition worker_run ::
    "ext_lib \<Rightarrow> worker_env \<Rightarrow> bool \<Rightarrow> RequestInfo list \<Rightarrow> worker_state \<Rightarrow> worker_state \<times> worker_end" where
  "worker_run E env curl_ok items w =
     (case initCurl curl_ok (w_proc w) of None \<Rightarrow> (w, Ended) | Some h \<Rightarrow> run_loop E env items w)"

section \<open>Lemmas\<close>

lemma destination_loop_eq:
  "destination_loop E c r ds (ret, n) =
     (ret @ List.map_filter (\<lambda>(dest, cmds). matchesFilter E c r cmds) ds,
      n + (\<Sum>(dest, cmds) \<leftarrow> ds. int (length (mRawFilters cmds)) + int (length (mFilters cmds))))"
proof (induction ds arbitrary: ret n)
  case (Cons d ds)
  obtain dest cmds where d: "d = (dest, cmds)" by (cases d)
  show ?case by (simp add: d Cons List.map_filter_simps split: option.split)
qed (simp add: List.map_filter_simps)

lemma in_map_filter: "y \<in> set (List.map_filter f xs) \<longleftrightarrow> (\<exists>x \<in> set xs. f x = Some y)"
  by (force simp: List.map_filter_def)

lemma addValidationHeadersDup_frame [simp]:
  "mConf (addValidationHeadersDup fs n m r) = mConf r"
  by (simp add: addValidationHeadersDup_def Let_def)

lemma performCurlCall_frame:
  assumes "performCurlCall E net flt (r, w) = (r', w')"
  shows "mConf r' = mConf r \<and> mCommands (w_proc w') = mCommands (w_proc w) \<and>
    mUrlCodec (w_proc w') = mUrlCodec (w_proc w) \<and>
    mDuplicatedCount (w_proc w') = mDuplicatedCount (w_proc w) \<and>
    w_draws w' = w_draws w \<and> w_checks w' = w_checks w \<and>
    w_sent w' = w_sent w @ [fst (build_request E (w_proc w) flt r)]"
proof -
  have "mConf (snd (build_request E (w_proc w) flt r)) = mConf r"
    by (auto simp: build_request_def Let_def addValidationHeadersCompare_def split: prod.splits)
  then show ?thesis
    using assms by (auto simp: performCurlCall_def Let_def split: prod.splits if_splits)
qed

lemma dup_loop_frame:
  "dup_loop E env flt c n (r, w) = (r', w') \<Longrightarrow>
     mConf r' = mConf r \<and> mCommands (w_proc w') = mCommands (w_proc w) \<and>
     mUrlCodec (w_proc w') = mUrlCodec (w_proc w) \<and> w_draws w' = w_draws w"
proof (induction n arbitrary: r w)
  case (Suc n)
  let ?w0 = "w\<lparr>w_checks := Suc (w_checks w)\<rparr>"
  let ?ri = "fst (substituteRequest E (mUrlCodec (w_proc w)) c r)"
  obtain r1 w1 where s: "performCurlCall E (env_net env) flt (?ri, ?w0) = (r1, w1)" by fastforce
  obtain r2 w2 where p: "performCurlCall E (env_net env) flt (r, ?w0) = (r2, w2)" by fastforce
  note f = performCurlCall_frame [OF s] performCurlCall_frame [OF p]
  show ?case
    using Suc.prems Suc.IH [of r "count_dup w1"] Suc.IH [of r2 "count_dup w2"] f
    by (auto simp: Let_def s p count_dup_def split: if_splits)
qed simp

text \<open>Every filter of the loop is stored under its own destination.\<close>

lemma filter_loop_total:
  assumes "commands_for (w_proc w) r = Some cbd"
    and "\<And>f. f \<in> set fs \<Longrightarrow> map_find cbd (mDestination f) \<noteq> None"
  shows "\<exists>r' w'. filter_loop E env fs (r, w) = Inr (r', w')"
  using assms
proof (induction fs arbitrary: r w)
  case (Cons f fs)
  obtain c where c: "map_find cbd (mDestination f) = Some c" using Cons.prems(2) [of f] by auto
  obtain n w1 where d: "draw_dups env c w = (n, w1)" by fastforce
  have w1: "w_proc w1 = w_proc w" using d by (auto simp: draw_dups_def split: if_splits)
  obtain r2 w2 where l: "dup_loop E env f c (unat n) (r, w1) = (r2, w2)" by fastforce
  have "commands_for (w_proc w2) r2 = Some cbd" "commands_for (w_proc w1) r = Some cbd"
    using dup_loop_frame [OF l] Cons.prems(1) w1 by (simp_all add: commands_for_def split: option.splits)
  then show ?case using Cons.IH Cons.prems c d l by (simp add: Cons.prems(1))
qed simp

lemma processRequest_filters:
  assumes "processRequest E rp r = (fs, r')" and "f \<in> set fs"
  shows "\<exists>cbd dest cmds. commands_for rp r = Some cbd \<and> (dest, cmds) \<in> set cbd \<and>
           matchesFilter E (mUrlCodec rp) r cmds = Some f"
  using assms
  by (auto simp: processRequest_def destination_loop_eq in_map_filter split: option.splits) blast

lemma matched_destination:
  assumes "commands_ok E dest cmds" and "matchesFilter E c r cmds = Some f"
  shows "mDestination f = dest \<and> mFilterType f = REGULAR"
proof -
  have "mm_wf ci_less (mFilters cmds)" using assms(1) by (simp add: commands_ok_def)
  from matchesFilter_registered [OF this assms(2)] obtain g what where
    g: "g \<in> snd ` set (mFilters cmds) \<or> g \<in> set (mRawFilters cmds)" "mFilterType g = REGULAR"
       "f = g\<lparr>mMatch := what\<rparr>" by blast
  have "mDestination g = dest"
    using g(1) assms(1) by (auto simp: commands_ok_def filter_ok_def list_all_iff)
  with g show ?thesis by simp
qed

lemma commands_for_ok:
  assumes "processor_ok E rp" and "commands_for rp r = Some cbd"
  shows "destinations_ok E cbd"
proof -
  obtain cp where "map_find (mCommands rp) cp = Some cbd"
    using assms(2) by (auto simp: commands_for_def split: option.splits)
  then show ?thesis using assms(1) by (auto simp: processor_ok_def map_find_entries)
qed

lemma processRequest_frame:
  "processRequest E rp r = (fs, r') \<Longrightarrow> mConf r' = mConf r"
  by (auto simp: processRequest_def split: option.splits prod.splits)

lemma runOne_total:
  assumes "processor_ok E (w_proc w)"
  shows "\<exists>r' w'. runOne E env (r, w) = Inr (r', w')"
proof -
  let ?r0 = "r\<lparr>mParsedArgs := parseArgs E (mUrlCodec (w_proc w)) (mParsedArgs r) (mArgs r)\<rparr>"
  obtain fs r1 where p: "processRequest E (w_proc w) ?r0 = (fs, r1)" by fastforce
  have "\<exists>r' w'. filter_loop E env fs (r1, w) = Inr (r', w')"
  proof (cases "commands_for (w_proc w) ?r0")
    case None
    with p have "fs = []" by (auto simp: processRequest_def)
    then show ?thesis by simp
  next
    case (Some cbd)
    have ok: "destinations_ok E cbd" by (rule commands_for_ok [OF assms Some])
    have "map_find cbd (mDestination f) \<noteq> None" if "f \<in> set fs" for f
    proof -
      from processRequest_filters [OF p that] Some obtain dest cmds where
        d: "(dest, cmds) \<in> set cbd" "matchesFilter E (mUrlCodec (w_proc w)) ?r0 cmds = Some f" by auto
      then have "mDestination f = dest"
        using ok matched_destination by (fastforce simp: destinations_ok_def)
      then show ?thesis using d(1) ok by (auto simp: destinations_ok_def map_find_entries [symmetric])
    qed
    moreover have "commands_for (w_proc w) r1 = Some cbd"
      using Some processRequest_frame [OF p] by (simp add: commands_for_def)
    ultimately show ?thesis using filter_loop_total by blast
  qed
  then show ?thesis by (simp add: runOne_def Let_def p)
qed

text \<open>What a call of the loops adds to the state: requests sent, each counted once.\<close>

definition sends_counted :: "worker_state \<Rightarrow> worker_state \<Rightarrow> curl_request list \<Rightarrow> bool" where
  "sends_counted w w' new \<longleftrightarrow>
     w_sent w' = w_sent w @ new \<and> mCommands (w_proc w') = mCommands (w_proc w) \<and>
     mDuplicatedCount (w_proc w') = mDuplicatedCount (w_proc w) + of_nat (length new)"

lemma sends_counted_refl [simp]: "w_sent w' = w_sent w \<Longrightarrow> w_proc w' = w_proc w \<Longrightarrow> sends_counted w w' []"
  by (simp add: sends_counted_def)

lemma sends_counted_trans:
  "sends_counted w w' new \<Longrightarrow> sends_counted w' w'' new' \<Longrightarrow> sends_counted w w'' (new @ new')"
  by (simp add: sends_counted_def algebra_simps)

lemma perform_counted:
  assumes "performCurlCall E net flt (r, w) = (r', w')"
  shows "\<exists>req. sends_counted w (count_dup w') [req] \<and> (\<exists>s. cr_url req = c_str (mDestination flt @ s))"
proof -
  have "cr_url (fst (build_request E (w_proc w) flt r)) = c_str (mDestination flt @ mPath r @ ''?'' @ mArgs r)"
    by (simp add: build_request_def Let_def split: prod.split)
  then show ?thesis
    using performCurlCall_frame [OF assms] by (auto simp: sends_counted_def count_dup_def)
qed

definition sent_to :: "string \<Rightarrow> curl_request \<Rightarrow> bool" where
  "sent_to dest req \<longleftrightarrow> (\<exists>s. cr_url req = c_str (dest @ s))"

lemma dup_loop_counted:
  "dup_loop E env flt c n (r, w) = (r', w') \<Longrightarrow>
     \<exists>new. sends_counted w w' new \<and> list_all (sent_to (mDestination flt)) new \<and>
       length new \<le> n \<and> ((\<forall>i. env_running env i) \<longrightarrow> length new = n)"
proof (induction n arbitrary: r w)
  case 0
  then show ?case by (intro exI [of _ "[]"]) simp
next
  case (Suc n)
  let ?w0 = "w\<lparr>w_checks := Suc (w_checks w)\<rparr>"
  have go: ?case if p: "performCurlCall E (env_net env) flt (ri, ?w0) = (r1, w1)"
      and d: "dup_loop E env flt c n (r2, count_dup w1) = (r', w')" for ri r1 r2 w1
  proof -
    from perform_counted [OF p] obtain req where
      req: "sends_counted ?w0 (count_dup w1) [req]" "sent_to (mDestination flt) req"
      by (auto simp: sent_to_def)
    then have "sends_counted w (count_dup w1) [req]" by (simp add: sends_counted_def)
    with Suc.IH [OF d] req(2) show ?thesis
      using sends_counted_trans [of w "count_dup w1" "[req]" w'] by fastforce
  qed
  show ?case
  proof (cases "env_running env (w_checks w)")
    case False
    with Suc.prems show ?thesis by (intro exI [of _ "[]"]) (auto simp: Let_def)
  next
    case True
    obtain r1 w1 where s: "performCurlCall E (env_net env) flt
        (fst (substituteRequest E (mUrlCodec (w_proc w)) c r), ?w0) = (r1, w1)" by fastforce
    obtain r2 w2 where p: "performCurlCall E (env_net env) flt (r, ?w0) = (r2, w2)" by fastforce
    show ?thesis
      using Suc.prems True go [OF s, of r] go [OF p, of r2]
      by (simp add: Let_def s p split: if_splits)
  qed
qed

text \<open>The percentage of the destination a filter belongs to.\<close>

definition percentage_of :: "tCommandsByDestination \<Rightarrow> tFilter \<Rightarrow> nat" where
  "percentage_of cbd f = (case map_find cbd (mDestination f) of
     None \<Rightarrow> 0 | Some c \<Rightarrow> unat (mDuplicationPercentage c))"

lemma draw_dups_count:
  "draw_dups env c w = (n, w') \<Longrightarrow>
     w_sent w' = w_sent w \<and> w_proc w' = w_proc w \<and>
     (unat (mDuplicationPercentage c) mod 100 = 0 \<longrightarrow> unat n = unat (mDuplicationPercentage c) div 100)"
  by (auto simp: draw_dups_def unat_toDuplicateInt split: if_splits)

lemma filter_loop_counted:
  assumes "commands_for (w_proc w) r = Some cbd" and "filter_loop E env fs (r, w) = Inr (r', w')"
  shows "\<exists>new. sends_counted w w' new \<and> (\<forall>req \<in> set new. \<exists>f \<in> set fs. sent_to (mDestination f) req) \<and>
    ((\<forall>i. env_running env i) \<and> (\<forall>f \<in> set fs. percentage_of cbd f mod 100 = 0) \<longrightarrow>
       length new = (\<Sum>f \<leftarrow> fs. percentage_of cbd f div 100))"
  using assms
proof (induction fs arbitrary: r w)
  case Nil
  then show ?case by (intro exI [of _ "[]"]) simp
next
  case (Cons f fs)
  obtain c where c: "map_find cbd (mDestination f) = Some c"
    using Cons.prems by (auto split: option.splits)
  obtain n w1 where d: "draw_dups env c w = (n, w1)" by fastforce
  obtain r2 w2 where l: "dup_loop E env f c (unat n) (r, w1) = (r2, w2)" by fastforce
  have w1: "w_sent w1 = w_sent w" "w_proc w1 = w_proc w" using draw_dups_count [OF d] by auto
  obtain new1 where n1: "sends_counted w1 w2 new1" "list_all (sent_to (mDestination f)) new1"
      "(\<forall>i. env_running env i) \<longrightarrow> length new1 = unat n"
    using dup_loop_counted [OF l] by blast
  have rest: "filter_loop E env fs (r2, w2) = Inr (r', w')"
    using Cons.prems c d l by (cases "n = 0") auto
  have "commands_for (w_proc w2) r2 = Some cbd"
    using dup_loop_frame [OF l] Cons.prems(1) w1 by (simp add: commands_for_def split: option.splits)
  from Cons.IH [OF this rest] obtain new2 where n2: "sends_counted w2 w' new2"
      "\<forall>req \<in> set new2. \<exists>f \<in> set fs. sent_to (mDestination f) req"
      "(\<forall>i. env_running env i) \<and> (\<forall>f \<in> set fs. percentage_of cbd f mod 100 = 0) \<longrightarrow>
         length new2 = (\<Sum>f \<leftarrow> fs. percentage_of cbd f div 100)" by blast
  have "sends_counted w w2 new1" using n1(1) w1 by (simp add: sends_counted_def)
  then have "sends_counted w w' (new1 @ new2)" using n2(1) by (rule sends_counted_trans)
  moreover have "percentage_of cbd f mod 100 = 0 \<longrightarrow> unat n = percentage_of cbd f div 100"
    using draw_dups_count [OF d] c by (simp add: percentage_of_def)
  ultimately show ?case
    using n1 n2 by (intro exI [of _ "new1 @ new2"]) (auto simp: list_all_iff)
qed

lemma runOne_counted:
  assumes "runOne E env (r, w) = Inr (r', w')"
  shows "\<exists>new. sends_counted w w' new"
proof -
  let ?r0 = "r\<lparr>mParsedArgs := parseArgs E (mUrlCodec (w_proc w)) (mParsedArgs r) (mArgs r)\<rparr>"
  obtain fs r1 where p: "processRequest E (w_proc w) ?r0 = (fs, r1)" by fastforce
  have l: "filter_loop E env fs (r1, w) = Inr (r', w')" using assms by (simp add: runOne_def Let_def p)
  show ?thesis
  proof (cases fs)
    case Nil
    with l show ?thesis by (intro exI [of _ "[]"]) simp
  next
    case (Cons f fs')
    with l obtain cbd where "commands_for (w_proc w) r1 = Some cbd" by (auto split: option.splits)
    from filter_loop_counted [OF this l] show ?thesis by blast
  qed
qed

lemma runOne_commands:
  "runOne E env (r, w) = Inr (r', w') \<Longrightarrow> mCommands (w_proc w') = mCommands (w_proc w)"
  using runOne_counted by (fastforce simp: sends_counted_def)

lemma run_loop_total:
  "processor_ok E (w_proc w) \<Longrightarrow> list_all (\<lambda>r. \<not> isPoison r) items \<Longrightarrow>
     snd (run_loop E env items w) = Waiting \<and>
     (isPoison pill \<longrightarrow> run_loop E env (items @ pill # rest) w = (fst (run_loop E env items w), Ended))"
proof (induction items arbitrary: w)
  case (Cons item items)
  obtain r1 w1 where o: "runOne E env (item, w) = Inr (r1, w1)"
    using runOne_total [OF Cons.prems(1)] by blast
  have "mCommands (w_proc w1) = mCommands (w_proc w)"
    using runOne_commands [OF o] by simp
  then have "processor_ok E (w_proc w1)" using Cons.prems(1) by (simp add: processor_ok_def)
  with Cons o show ?case by simp
qed simp

text \<open>A destination is selected by a request: no preventing filter of its commands matches and
  some regular one does.\<close>

definition selected :: "ext_lib \<Rightarrow> RequestProcessor \<Rightarrow> RequestInfo \<Rightarrow> string \<times> Commands \<Rightarrow> bool" where
  "selected E rp r dc \<longleftrightarrow>
     \<not> some_filter E (mUrlCodec rp) r (snd dc) PREVENT_DUPLICATION \<and>
     some_filter E (mUrlCodec rp) r (snd dc) REGULAR"

lemma map_filter_keys:
  "(\<And>x y. x \<in> set xs \<Longrightarrow> f x = Some y \<Longrightarrow> h y = fst x) \<Longrightarrow>
     map h (List.map_filter f xs) = map fst (filter (\<lambda>x. f x \<noteq> None) xs)"
  by (induction xs) (auto simp: List.map_filter_simps split: option.split)

lemma selected_iff:
  "commands_ok E (fst dc) (snd dc) \<Longrightarrow>
     matchesFilter E (mUrlCodec rp) r (snd dc) \<noteq> None \<longleftrightarrow> selected E rp r dc"
  using key_match_all_None raw_matches_None raw_prevents_spec
  by (simp add: commands_ok_def selected_def some_filter_def matchesFilter_simple del: not_None_eq)

lemma processRequest_destinations:
  assumes ok: "processor_ok E rp" and cbd: "commands_for rp r = Some cbd"
  shows "map mDestination (fst (processRequest E rp r)) = map fst (filter (selected E rp r) cbd)"
proof -
  have ds: "commands_ok E (fst dc) (snd dc)" if "dc \<in> set cbd" for dc
    using commands_for_ok [OF ok cbd] that by (auto simp: destinations_ok_def)
  have "map mDestination (List.map_filter (\<lambda>(dest, cmds). matchesFilter E (mUrlCodec rp) r cmds) cbd) =
      map fst (filter (\<lambda>dc. (case dc of (dest, cmds) \<Rightarrow> matchesFilter E (mUrlCodec rp) r cmds) \<noteq> None) cbd)"
    using ds matched_destination by (intro map_filter_keys) fastforce
  also have "filter (\<lambda>dc. (case dc of (dest, cmds) \<Rightarrow> matchesFilter E (mUrlCodec rp) r cmds) \<noteq> None) cbd =
      filter (selected E rp r) cbd"
    using ds selected_iff by (intro filter_cong) (auto simp: case_prod_beta)
  finally show ?thesis by (simp add: processRequest_def cbd destination_loop_eq)
qed

lemma sum_percentage:
  assumes "map_wf cbd" and "map mDestination fs = map fst ds" and "set ds \<subseteq> set cbd"
  shows "(\<Sum>f \<leftarrow> fs. percentage_of cbd f div 100) =
         (\<Sum>dc \<leftarrow> ds. unat (mDuplicationPercentage (snd dc)) div 100)"
proof -
  have "percentage_of cbd f = unat (mDuplicationPercentage c)" if "(mDestination f, c) \<in> set cbd" for f c
    using that assms(1) by (simp add: percentage_of_def map_find_entries [symmetric])
  then show ?thesis using assms(2,3)
  proof (induction ds arbitrary: fs)
    case (Cons dc ds)
    then obtain f fs' where "fs = f # fs'" "mDestination f = fst dc" "map mDestination fs' = map fst ds"
      by (auto simp: map_eq_Cons_conv)
    with Cons show ?case by (cases dc) auto
  qed simp
qed

section \<open>Properties\<close>

text \<open>C7: For a request at a configured location, the matched filters are one for each destination
  of that location that the request selects, in the order of the destination names, and none for
  the others.\<close>

theorem dispatch_selected_destinations:
  assumes "processor_ok E rp" and "commands_for rp r = Some cbd"
  shows "map mDestination (fst (processRequest E rp r)) = map fst (filter (selected E rp r) cbd)"
  by (rule processRequest_destinations) (use assms in auto)

theorem dispatch_selected_destinations_witness:
  "\<forall>mem. let rp = setDestinationDuplicationPercentage 7 ''b'' 100
               (setDestinationDuplicationPercentage 7 ''a'' 50 RequestProcessor_init);
             r = (RequestInfo_full mem 0 ''i'' ''GET'' ''/p'' [] None)\<lparr>mConf := Some 7\<rparr>
         in processor_ok ref_lib rp \<and> commands_for rp r \<noteq> None \<and>
            map mDestination (fst (processRequest ref_lib rp r)) = []"
proof (intro allI)
  fix mem
  let ?rp = "setDestinationDuplicationPercentage 7 ''b'' 100
     (setDestinationDuplicationPercentage 7 ''a'' 50 RequestProcessor_init)"
  let ?r = "(RequestInfo_full mem 0 ''i'' ''GET'' ''/p'' [] None)\<lparr>mConf := Some 7\<rparr>"
  let ?cbd = "[(''a'', Commands_init\<lparr>mDuplicationPercentage := 50\<rparr>), (''b'', Commands_init)]"
  have ok: "processor_ok ref_lib ?rp" by (simp add: setDestinationDuplicationPercentage_ok)
  have cbd: "commands_for ?rp ?r = Some ?cbd"
    by (simp add: commands_for_def setDestinationDuplicationPercentage_def at_commands_def
        map_modify_def RequestProcessor_init_def proc_setUrlCodec_def Commands_init_def)
  have "filter (selected ref_lib ?rp ?r) ?cbd = []"
    by (simp add: selected_def some_filter_def Commands_init_def)
  then show "let rp = ?rp; r = ?r in processor_ok ref_lib rp \<and> commands_for rp r \<noteq> None \<and>
       map mDestination (fst (processRequest ref_lib rp r)) = []"
    using ok cbd dispatch_selected_destinations [OF ok cbd] by (simp only: Let_def) simp
qed



text \<open>C25: A worker takes items off the queue, never ends because of one of them, and ends at the
  first pill, leaving what is behind it in the queue.\<close>

theorem worker_runs_until_pill:
  assumes "processor_ok E (w_proc w)" and "list_all (\<lambda>r. \<not> isPoison r) items"
  shows "snd (worker_run E env True items w) = Waiting \<and>
         worker_run E env True (items @ RequestInfo_poison mem now # rest) w =
           (fst (worker_run E env True items w), Ended)"
  using run_loop_total [OF assms] isPoison_constructors(1)
  by (simp add: worker_run_def initCurl_def)

theorem worker_runs_until_pill_witness:
  "\<forall>mem. let w = \<lparr>w_proc = RequestProcessor_init, w_sent = [], w_errors = [], w_draws = 0, w_checks = 0\<rparr>;
             env = \<lparr>env_net = \<lambda>_ _. \<lparr>res_code = 0, res_http = 200, res_headers = []\<rparr>,
                    env_rnd = \<lambda>_. None, env_running = \<lambda>_. True\<rparr>;
             r = RequestInfo_full mem 0 ''i'' ''GET'' ''/p'' [] None
         in snd (worker_run ref_lib env True [r, r, RequestInfo_poison mem 0, r] w) = Ended"
proof (intro allI)
  fix mem
  let ?w = "\<lparr>w_proc = RequestProcessor_init, w_sent = [], w_errors = [], w_draws = 0, w_checks = 0\<rparr>"
  let ?env = "\<lparr>env_net = \<lambda>_ _. \<lparr>res_code = 0, res_http = 200, res_headers = []\<rparr>,
      env_rnd = \<lambda>_. None, env_running = \<lambda>_. True\<rparr>"
  let ?r = "RequestInfo_full mem 0 ''i'' ''GET'' ''/p'' [] None"
  have "snd (worker_run ref_lib ?env True ([?r, ?r] @ RequestInfo_poison mem 0 # [?r]) ?w) = Ended"
    using worker_runs_until_pill [of ref_lib ?w "[?r, ?r]" ?env mem 0 "[?r]"]
    by (simp add: isPoison_constructors)
  then show "let w = ?w; env = ?env; r = ?r
      in snd (worker_run ref_lib env True [r, r, RequestInfo_poison mem 0, r] w) = Ended"
    by (simp add: Let_def)
qed

end
