(* ===== verification/Deserialize.thy ===== *)
theory Deserialize
  imports Request_Send
begin

text \<open>
  The reader of the dup format in mod_compare (deserialize.cc): three sections, each an
  eight-digit length and its content. The central theorem is that it inverts what
  \<open>sendDupFormat\<close> of mod_dup writes.
\<close>

section \<open>The code\<close>

datatype http_status = OK | HTTP_BAD_REQUEST

datatype deserialize_error = BadLexicalCast | OutOfRangeError

definition SECTION_SIZE_CHARS :: nat where
  "SECTION_SIZE_CHARS = 8"

definition MAX_SECTION_SIZE :: nat where
  "MAX_SECTION_SIZE = 10 ^ SECTION_SIZE_CHARS - 1"

definition getLength :: "ext_lib \<Rightarrow> string \<Rightarrow> nat \<Rightarrow> deserialize_error + nat" where
  "getLength E pString pFirst =
     (case substr pString pFirst SECTION_SIZE_CHARS of
        None \<Rightarrow> Inl OutOfRangeError
      | Some s \<Rightarrow>
          (case lexical_uint E s of
             None \<Rightarrow> Inl BadLexicalCast
           | Some res \<Rightarrow> if res > MAX_SECTION_SIZE then Inl OutOfRangeError else Inr res))"

text \<open>The headers read so far stay in the map when a later line has no delimiter.\<close>

fun header_lines ::
    "string list \<Rightarrow> (string, string) std_map \<Rightarrow> (string, string) std_map \<times> deserialize_error option" where
  "header_lines [] m = (m, None)"
| "header_lines (lLine # ls) m =
     (case find_str '': '' lLine of
        None \<Rightarrow> (m, Some OutOfRangeError)
      | Some lPos \<Rightarrow>
          header_lines ls
            (map_put (take lPos lLine) (take (length lLine - lPos - 2) (drop (lPos + 2) lLine)) m))"

definition deserializeHeader ::
    "string \<Rightarrow> RequestInfo \<Rightarrow> RequestInfo \<times> deserialize_error option" where
  "deserializeHeader header r =
     (case header_lines (lines_of header) (mResponseHeader r) of
        (m, e) \<Rightarrow> (r\<lparr>mResponseHeader := m\<rparr>, e))"

text \<open>A section: its length, its content and the position behind it.\<close>

definition read_section :: "ext_lib \<Rightarrow> string \<Rightarrow> nat \<Rightarrow> deserialize_error + (string \<times> nat)" where
  "read_section E body pos =
     (case getLength E body pos of
        Inl e \<Rightarrow> Inl e
      | Inr len \<Rightarrow>
          (case substr body (pos + SECTION_SIZE_CHARS) len of
             None \<Rightarrow> Inl OutOfRangeError
           | Some s \<Rightarrow> Inr (s, pos + SECTION_SIZE_CHARS + len)))"

definition deserializeBody :: "ext_lib \<Rightarrow> RequestInfo \<Rightarrow> http_status \<times> RequestInfo" where
  "deserializeBody E r =
     (if length (mBody r) < 3 * SECTION_SIZE_CHARS then (HTTP_BAD_REQUEST, r)
      else
       (case read_section E (mBody r) 0 of
          Inl e \<Rightarrow> (HTTP_BAD_REQUEST, r)
        | Inr (reqBody, pos1) \<Rightarrow>
            (let r1 = r\<lparr>mReqBody := reqBody\<rparr> in
             case read_section E (mBody r1) pos1 of
               Inl e \<Rightarrow> (HTTP_BAD_REQUEST, r1)
             | Inr (lResponseHeader, pos2) \<Rightarrow>
                 (case read_section E (mBody r1) pos2 of
                    Inl e \<Rightarrow> (HTTP_BAD_REQUEST, r1)
                  | Inr (respBody, pos3) \<Rightarrow>
                      (case deserializeHeader lResponseHeader (r1\<lparr>mResponseBody := respBody\<rparr>) of
                         (r2, None) \<Rightarrow> (OK, r2)
                       | (r2, Some e) \<Rightarrow> (HTTP_BAD_REQUEST, r2))))))"

section \<open>Reading back what was written\<close>

text \<open>The section format as the interface between the two modules: a writer, and a reader
  that takes a section back wherever it stands, given a number conversion \<open>x\<close> that is
  \<open>sound\<close>.\<close>

locale section_format =
  fixes emit :: "string \<Rightarrow> string"
    and fetch :: "'x \<Rightarrow> string \<Rightarrow> nat \<Rightarrow> 'e + (string \<times> nat)"
    and fits :: "string \<Rightarrow> bool"
    and sound :: "'x \<Rightarrow> bool"
  assumes fetch_emit: "sound x \<Longrightarrow> fits s \<Longrightarrow>
    fetch x (p @ emit s @ q) (length p) = Inr (s, length p + length (emit s))"
begin

lemma fetch_three:
  assumes "sound x" and "fits a" and "fits b" and "fits c"
  shows "fetch x (emit a @ emit b @ emit c) 0 = Inr (a, length (emit a)) \<and>
         fetch x (emit a @ emit b @ emit c) (length (emit a)) = Inr (b, length (emit a @ emit b)) \<and>
         fetch x (emit a @ emit b @ emit c) (length (emit a @ emit b)) =
           Inr (c, length (emit a @ emit b @ emit c))"
  using fetch_emit [OF assms(1,2), of "[]" "emit b @ emit c"]
    fetch_emit [OF assms(1,3), of "emit a" "emit c"]
    fetch_emit [OF assms(1,4), of "emit a @ emit b" "[]"]
  by simp

end

definition write_section :: "string \<Rightarrow> string" where
  "write_section s = section_prefix s @ s"

definition section_fits :: "string \<Rightarrow> bool" where
  "section_fits s \<longleftrightarrow> length s < 10 ^ 8"

lemma read_write_section:
  assumes "lexical_reads_decimals E" and "section_fits s"
  shows "read_section E (p @ write_section s @ q) (length p) = Inr (s, length p + length (write_section s))"
proof -
  have len: "length (section_prefix s) = 8"
    using assms(2) by (simp add: length_section_prefix section_fits_def)
  have "lexical_uint E (section_prefix s) = Some (length s)"
    using assms section_prefix_digits [of s] by (simp add: lexical_reads_decimals_def section_fits_def)
  moreover have "substr (p @ section_prefix s @ s @ q) (length p) 8 = Some (section_prefix s)"
    using len by (simp add: substr_def)
  moreover have "substr (p @ section_prefix s @ s @ q) (length p + 8) (length s) = Some s"
    using len by (simp add: substr_def)
  ultimately show ?thesis
    using assms(2) len
    by (simp add: read_section_def getLength_def SECTION_SIZE_CHARS_def MAX_SECTION_SIZE_def
        write_section_def section_fits_def)
qed

interpretation dup_sections: section_format write_section read_section section_fits lexical_reads_decimals
  by unfold_locales (rule read_write_section)

lemma dupFormat_sections:
  "dupFormat r = write_section (mBody r) @ write_section (answerHeaders (mHeadersOut r)) @
     write_section (mAnswer r)"
  by (simp add: dupFormat_def Serialize_section write_section_def)

text \<open>Header entries that survive: no colon in the name, no newline.\<close>

definition plain_header :: "key_val \<Rightarrow> bool" where
  "plain_header kv \<longleftrightarrow> CHR '':'' \<notin> set (fst kv) \<and> NL \<notin> set (fst kv) \<and> NL \<notin> set (snd kv)"

lemma lines_answerHeaders:
  assumes "list_all plain_header kvs"
  shows "lines_of (answerHeaders kvs) = map (\<lambda>(k, v). k @ '': '' @ v) kvs"
proof -
  have "answerHeaders kvs = concat (map (\<lambda>l. l @ [NL]) (map (\<lambda>(k, v). k @ '': '' @ v) kvs))"
    unfolding answerHeaders_concat case_prod_beta by (simp add: comp_def)
  moreover have "NL \<notin> set l" if "l \<in> set (map (\<lambda>(k, v). k @ '': '' @ v) kvs)" for l
    using that assms by (auto simp: list_all_iff plain_header_def)
  ultimately show ?thesis using lines_of_concat by metis
qed

lemma header_lines_read:
  "list_all plain_header kvs \<Longrightarrow>
     header_lines (map (\<lambda>(k, v). k @ '': '' @ v) kvs) m =
       (foldl (\<lambda>m (k, v). map_put k v m) m kvs, None)"
proof (induction kvs arbitrary: m)
  case (Cons kv kvs)
  obtain k v where kv: "kv = (k, v)" by (cases kv)
  have "find_str '': '' (k @ '': '' @ v) = Some (length k)"
    using Cons.prems by (intro find_str_append) (simp_all add: kv plain_header_def)
  with Cons show ?case by (simp add: kv)
qed simp

lemma deserialize_dupFormat:
  assumes E: "lexical_reads_decimals E"
    and fits: "section_fits (mBody r)" "section_fits (answerHeaders (mHeadersOut r))" "section_fits (mAnswer r)"
    and hdrs: "list_all plain_header (mHeadersOut r)"
  shows "deserializeBody E (r2\<lparr>mBody := dupFormat r\<rparr>) =
    (OK, r2\<lparr>mBody := dupFormat r, mReqBody := mBody r, mResponseBody := mAnswer r,
           mResponseHeader := foldl (\<lambda>m (k, v). map_put k v m) (mResponseHeader r2) (mHeadersOut r)\<rparr>)"
proof -
  note rd = dup_sections.fetch_three [OF E fits, folded dupFormat_sections]
  have len: "\<not> length (dupFormat r) < 3 * SECTION_SIZE_CHARS"
    using fits by (simp add: dupFormat_sections SECTION_SIZE_CHARS_def length_section_prefix
        write_section_def section_fits_def)
  show ?thesis
    using rd len
    by (simp add: deserializeBody_def Let_def deserializeHeader_def lines_answerHeaders hdrs
        header_lines_read [simplified])
qed

section \<open>Properties\<close>

text \<open>C1: mod_compare reads back what mod_dup wrote: if the request body, the response headers and
  the response body are each shorter than \<open>10^8\<close> bytes and no header has a newline or a colon
  in its name, then deserialising the body mod_dup posts succeeds and restores the request body, the
  response body, and for each response header the last value sent under that name.\<close>

theorem dup_format_roundtrip:
  assumes "lexical_reads_decimals E"
    and "section_fits (mBody r)" and "section_fits (answerHeaders (mHeadersOut r))"
    and "section_fits (mAnswer r)" and "list_all plain_header (mHeadersOut r)"
    and "mResponseHeader r2 = []"
    and "build_request E rp flt r = (req, r')" and "mDuplicationType flt = REQUEST_WITH_ANSWER"
    and "cr_post req = Some body"
  shows "\<exists>r3. deserializeBody E (r2\<lparr>mBody := body\<rparr>) = (OK, r3) \<and>
           mReqBody r3 = mBody r \<and> mResponseBody r3 = mAnswer r \<and>
           (\<forall>k. map_find (mResponseHeader r3) k = map_of (rev (mHeadersOut r)) k)"
proof -
  have "body = dupFormat r"
    using assms(7-9)
    by (auto simp: build_request_def Let_def sendDupFormat_def sendInBody_def
        addValidationHeadersCompare_def split: if_splits)
  moreover have "map_find (foldl (\<lambda>m (k, v). map_put k v m) [] (mHeadersOut r)) k =
      map_of (rev (mHeadersOut r)) k" for k
    using smap.find_put_all [of "[]" "mHeadersOut r" k] by (simp split: option.split)
  ultimately show ?thesis
    using deserialize_dupFormat [OF assms(1-5), of r2] assms(6) by simp
qed

theorem dup_format_roundtrip_witness:
  "\<forall>mem. let r = (RequestInfo_full mem 0 ''i'' ''POST'' ''/p'' [] (Some ''ab''))
               \<lparr>mHeadersOut := [(''A'', ''1''), (''A'', ''2'')], mAnswer := ''xyz''\<rparr>;
             flt = \<lparr>mScope = ALL_SCOPES, mRegex = [], mDestination = ''d'', mErrorLogBodyMatch = [],
                     mDuplicationType = REQUEST_WITH_ANSWER, mFilterType = REGULAR, mMatch = []\<rparr>;
             req = fst (build_request ref_lib RequestProcessor_init flt r)
         in \<exists>body r3. cr_post req = Some body \<and>
              deserializeBody ref_lib (RequestInfo_start mem ''j'' 0\<lparr>mBody := body\<rparr>) = (OK, r3) \<and>
              mReqBody r3 = ''ab'' \<and> mResponseBody r3 = ''xyz'' \<and>
              map_find (mResponseHeader r3) ''A'' = Some ''2''"
  unfolding Let_def
proof (intro allI)
  fix mem
  let ?r = "(RequestInfo_full mem 0 ''i'' ''POST'' ''/p'' [] (Some ''ab''))
      \<lparr>mHeadersOut := [(''A'', ''1''), (''A'', ''2'')], mAnswer := ''xyz''\<rparr>"
  let ?flt = "\<lparr>mScope = ALL_SCOPES, mRegex = [], mDestination = ''d'', mErrorLogBodyMatch = [],
      mDuplicationType = REQUEST_WITH_ANSWER, mFilterType = REGULAR, mMatch = []\<rparr>"
  let ?req = "fst (build_request ref_lib RequestProcessor_init ?flt ?r)"
  have b: "build_request ref_lib RequestProcessor_init ?flt ?r =
      (?req, snd (build_request ref_lib RequestProcessor_init ?flt ?r))" by simp
  have post: "cr_post ?req = Some (dupFormat ?r)"
    by (simp add: build_request_def Let_def sendDupFormat_def sendInBody_def
        addValidationHeadersCompare_def RequestInfo_full_def RequestInfo_members_def)
  have "mBody ?r = ''ab''" by (simp add: RequestInfo_full_def)
  then show "\<exists>body r3. cr_post ?req = Some body \<and>
      deserializeBody ref_lib (RequestInfo_start mem ''j'' 0\<lparr>mBody := body\<rparr>) = (OK, r3) \<and>
      mReqBody r3 = ''ab'' \<and> mResponseBody r3 = ''xyz'' \<and> map_find (mResponseHeader r3) ''A'' = Some ''2''"
    using dup_format_roundtrip [OF ref_lib_documented(4) _ _ _ _ _ b _ post,
        of "RequestInfo_start mem ''j'' 0"] post
    by (auto simp: section_fits_def plain_header_def answerHeaders_def RequestInfo_start_def
        RequestInfo_members_def)
qed



end
