(* ===== verification/Dup_Config.thy ===== *)
theory Dup_Config
  imports Request_Run
begin

text \<open>
  The directives of mod_dup and its life cycle in a server process (mod_dup.cc). A handler gets
  the configuration of the location it stands in, \<open>None\<close> for a null pointer, and returns
  the error message for Apache, if any, with the changed globals and configuration. Apache stops
  at the first message. \<open>cp\<close> is the address of the location's \<open>DupConf\<close>; \<open>parms\<close>
  holds what the handlers use of \<open>cmd_parms\<close> and of the server.
\<close>

section \<open>Globals\<close>

record dup_globals =
  gProcessor :: "RequestProcessor option"
  gThreadPool :: "RequestInfo ThreadPool option"

record cmd_parms =
  parms_path :: string
  mod_rewrite_loaded :: bool
  poison_mem :: RequestInfo
  poison_now :: int

type_synonym handler_result = "string option \<times> dup_globals \<times> DupConf option"

definition POISON_REQUEST :: "cmd_parms \<Rightarrow> RequestInfo" where
  "POISON_REQUEST parms = RequestInfo_poison (poison_mem parms) (poison_now parms)"

text \<open>The statistics providers: number 0 reads the timeouts, number 1 the duplicates.\<close>

definition dup_init :: "cmd_parms \<Rightarrow> dup_globals" where
  "dup_init parms =
     \<lparr>gProcessor = Some RequestProcessor_init,
      gThreadPool = Some (addStat ''#DupReq'' 1 (addStat ''#TmOut'' 0 (ThreadPool_init (POISON_REQUEST parms))))\<rparr>"

definition need_processor :: "cmd_parms \<Rightarrow> dup_globals \<Rightarrow> dup_globals" where
  "need_processor parms g = (if gProcessor g = None then dup_init parms else g)"

definition need_pool :: "cmd_parms \<Rightarrow> dup_globals \<Rightarrow> dup_globals" where
  "need_pool parms g = (if gThreadPool g = None then dup_init parms else g)"

definition on_processor :: "(RequestProcessor \<Rightarrow> RequestProcessor) \<Rightarrow> dup_globals \<Rightarrow> dup_globals" where
  "on_processor f g = g\<lparr>gProcessor := map_option f (gProcessor g)\<rparr>"

definition on_pool :: "(RequestInfo ThreadPool \<Rightarrow> RequestInfo ThreadPool) \<Rightarrow> dup_globals \<Rightarrow> dup_globals" where
  "on_pool f g = g\<lparr>gThreadPool := map_option f (gThreadPool g)\<rparr>"

section \<open>The handlers\<close>

definition createDirConfig :: DupConf where
  "createDirConfig = DupConf_init"

definition setName :: "cmd_parms \<Rightarrow> string option \<Rightarrow> dup_globals \<Rightarrow> DupConf option \<Rightarrow> handler_result" where
  "setName parms pName g conf =
     (case pName of
        None \<Rightarrow> (Some ''Missing program name'', g, conf)
      | Some name \<Rightarrow>
          if name = [] then (Some ''Missing program name'', g, conf)
          else (None, on_pool (setProgramName name) (need_pool parms g), conf))"

definition setUrlCodec :: "cmd_parms \<Rightarrow> string option \<Rightarrow> dup_globals \<Rightarrow> DupConf option \<Rightarrow> handler_result" where
  "setUrlCodec parms pUrlCodec g conf =
     (case pUrlCodec of
        None \<Rightarrow> (Some ''Missing url codec style'', g, conf)
      | Some c \<Rightarrow>
          if c = [] then (Some ''Missing url codec style'', g, conf)
          else (None, on_processor (proc_setUrlCodec c) (need_processor parms g), conf))"

definition setActive :: "cmd_parms \<Rightarrow> dup_globals \<Rightarrow> DupConf option \<Rightarrow> handler_result" where
  "setActive parms g conf =
     (case conf of
        None \<Rightarrow> (Some ''No per_dir conf defined. This should never happen!'', g, None)
      | Some lConf \<Rightarrow>
          (let c1 = (if dirName lConf = None then lConf\<lparr>dirName := Some (parms_path parms)\<rparr> else lConf)
           in if \<not> mod_rewrite_loaded parms
              then (Some ([CHR 0x27] @ ''mod_rewrite'' @ [CHR 0x27] @
                      '' is not loaded, Enable mod_rewrite to use mod_dup''), g, Some c1)
              else (None, g, Some c1)))"

text \<open>What the handlers share: activate the location, create the processor, then go on with the
  configuration.\<close>

definition with_active ::
    "cmd_parms \<Rightarrow> (dup_globals \<Rightarrow> DupConf \<Rightarrow> handler_result) \<Rightarrow> dup_globals \<Rightarrow> DupConf option \<Rightarrow> handler_result" where
  "with_active parms body g conf =
     (case setActive parms g conf of
        (Some msg, g1, c1) \<Rightarrow> (Some msg, g1, c1)
      | (None, g1, None) \<Rightarrow> (None, g1, None)
      | (None, g1, Some c1) \<Rightarrow> body (need_processor parms g1) c1)"

definition dup_percentage :: "ext_lib \<Rightarrow> string option \<Rightarrow> string + nat" where
  "dup_percentage E arg =
     (case arg of
        None \<Rightarrow> Inr 100
      | Some s \<Rightarrow>
          (case lexical_uint E s of
             None \<Rightarrow> Inl (''Duplication percentage value not valid: '' @ s)
           | Some perc \<Rightarrow>
               if perc > 10000
               then Inl ''Duplication percentage value not valid: must be an integer between 0 and 10000''
               else Inr perc))"

definition setDestination ::
    "ext_lib \<Rightarrow> cmd_parms \<Rightarrow> conf_ptr \<Rightarrow> string option \<Rightarrow> string option \<Rightarrow> dup_globals \<Rightarrow> DupConf option \<Rightarrow> handler_result" where
  "setDestination E parms cp pDestination duplicationPercentage =
     with_active parms (\<lambda>g tC.
       case pDestination of
         None \<Rightarrow> (Some ''Missing destination argument'', g, Some tC)
       | Some dest \<Rightarrow>
           if dest = [] then (Some ''Missing destination argument'', g, Some tC)
           else
            (let tC1 = tC\<lparr>currentDupDestination := dest\<rparr> in
             case dup_percentage E duplicationPercentage of
               Inl msg \<Rightarrow> (Some msg, g, Some tC1)
             | Inr perc \<Rightarrow>
                 (None, on_processor (setDestinationDuplicationPercentage cp dest (int perc)) g, Some tC1)))"

definition setApplicationScope ::
    "cmd_parms \<Rightarrow> string \<Rightarrow> dup_globals \<Rightarrow> DupConf option \<Rightarrow> handler_result" where
  "setApplicationScope parms pAppScope =
     with_active parms (\<lambda>g tC.
       case scope_stringToEnum pAppScope of
         None \<Rightarrow> (Some scope_c_ERROR_ON_STRING_VALUE, g, Some tC)
       | Some s \<Rightarrow> (None, g, Some (tC\<lparr>currentApplicationScope := s\<rparr>)))"

text \<open>A registration that raises leaves the globals as they are.\<close>

definition register ::
    "(RequestProcessor \<Rightarrow> dup_exception + RequestProcessor) \<Rightarrow> (dup_exception \<Rightarrow> string) \<Rightarrow>
     dup_globals \<Rightarrow> DupConf \<Rightarrow> handler_result" where
  "register add msg g conf =
     (case gProcessor g of
        None \<Rightarrow> (None, g, Some conf)
      | Some rp \<Rightarrow>
          (case add rp of
             Inl e \<Rightarrow> (Some (msg e), g, Some conf)
           | Inr rp' \<Rightarrow> (None, g\<lparr>gProcessor := Some rp'\<rparr>, Some conf)))"

definition setRawSubstitute ::
    "ext_lib \<Rightarrow> cmd_parms \<Rightarrow> conf_ptr \<Rightarrow> string \<Rightarrow> string \<Rightarrow> dup_globals \<Rightarrow> DupConf option \<Rightarrow> handler_result" where
  "setRawSubstitute E parms cp pMatch pReplace =
     with_active parms (\<lambda>g conf.
       if currentDupDestination conf = []
       then (Some ''a DupDestination is required before a DupRawSubstitute'', g, Some conf)
       else register (addRawSubstitution E pMatch pReplace cp conf)
              (\<lambda>_. ''Invalid regular expression in substitution definition.'') g conf)"

definition setThreads ::
    "ext_lib \<Rightarrow> cmd_parms \<Rightarrow> string \<Rightarrow> string \<Rightarrow> dup_globals \<Rightarrow> DupConf option \<Rightarrow> handler_result" where
  "setThreads E parms pMin pMax g conf =
     (case (lexical_size E pMin, lexical_size E pMax) of
        (Some lMin, Some lMax) \<Rightarrow>
          if lMax < lMin
          then (Some ''Invalid value(s) for minimum and maximum number of threads.'', g, conf)
          else (None, on_pool (pool_setThreads lMin lMax) (need_pool parms g), conf)
      | _ \<Rightarrow> (Some ''Invalid value(s) for minimum and maximum number of threads.'', g, conf))"

definition setTimeout ::
    "ext_lib \<Rightarrow> cmd_parms \<Rightarrow> string \<Rightarrow> dup_globals \<Rightarrow> DupConf option \<Rightarrow> handler_result" where
  "setTimeout E parms pTimeout g conf =
     (case lexical_uint E pTimeout of
        None \<Rightarrow> (Some ''Invalid value(s) for timeout.'', g, conf)
      | Some lTimeout \<Rightarrow>
          (None, on_processor (proc_setTimeout (of_nat lTimeout)) (need_processor parms g), conf))"

definition setQueue ::
    "ext_lib \<Rightarrow> cmd_parms \<Rightarrow> string \<Rightarrow> string \<Rightarrow> dup_globals \<Rightarrow> DupConf option \<Rightarrow> handler_result" where
  "setQueue E parms pMin pMax g conf =
     (case (lexical_size E pMin, lexical_size E pMax) of
        (Some lMin, Some lMax) \<Rightarrow>
          if lMax < lMin
          then (Some ''Invalid value(s) for minimum and maximum queue size.'', g, conf)
          else (None, on_pool (pool_setQueue lMin lMax) (need_pool parms g), conf)
      | _ \<Rightarrow> (Some ''Invalid value(s) for minimum and maximum queue size.'', g, conf))"

definition setSubstitute ::
    "ext_lib \<Rightarrow> cmd_parms \<Rightarrow> conf_ptr \<Rightarrow> string \<Rightarrow> string \<Rightarrow> string \<Rightarrow> dup_globals \<Rightarrow> DupConf option \<Rightarrow> handler_result" where
  "setSubstitute E parms cp pField pMatch pReplace =
     with_active parms (\<lambda>g conf.
       if currentDupDestination conf = []
       then (Some ''a DupDestination is required before a DupSubstitute'', g, Some conf)
       else register (addSubstitution E pField pMatch pReplace cp conf)
              (\<lambda>_. ''Invalid regular expression in substitution definition.'') g conf)"

definition setSynchronous :: "dup_globals \<Rightarrow> DupConf option \<Rightarrow> handler_result" where
  "setSynchronous g conf =
     (case conf of
        None \<Rightarrow> (Some ''No per_dir conf defined. This should never happen!'', g, None)
      | Some lConf \<Rightarrow> (None, g, Some (lConf\<lparr>synchronous := True\<rparr>)))"

text \<open>\<open>setDuplicationType\<close> does not create the processor.\<close>

definition setDuplicationType ::
    "cmd_parms \<Rightarrow> string \<Rightarrow> dup_globals \<Rightarrow> DupConf option \<Rightarrow> handler_result" where
  "setDuplicationType parms pDupType g conf =
     (case setActive parms g conf of
        (Some msg, g1, c1) \<Rightarrow> (Some msg, g1, c1)
      | (None, g1, None) \<Rightarrow> (None, g1, None)
      | (None, g1, Some c1) \<Rightarrow>
          (case dup_type_stringToEnum pDupType of
             None \<Rightarrow> (Some dup_type_c_ERROR_ON_STRING_VALUE, g1, Some c1)
           | Some dt \<Rightarrow> (None, g1, Some (setCurrentDuplicationType dt c1))))"

text \<open>A null configuration here fails the assertion of the code and ends the process.\<close>

definition setErrorLogBodyMatch ::
    "ext_lib \<Rightarrow> string \<Rightarrow> dup_globals \<Rightarrow> DupConf option \<Rightarrow> handler_result" where
  "setErrorLogBodyMatch E pMatch g conf =
     (case conf of
        None \<Rightarrow> (Some ''assertion'', g, None)
      | Some c \<Rightarrow> (case conf_setErrorLogBodyMatch E pMatch c of (msg, c') \<Rightarrow> (msg, g, Some c')))"

definition setFilter_type ::
    "eFilterTypes \<Rightarrow> ext_lib \<Rightarrow> cmd_parms \<Rightarrow> conf_ptr \<Rightarrow> string \<Rightarrow> string \<Rightarrow> dup_globals \<Rightarrow> DupConf option \<Rightarrow> handler_result" where
  "setFilter_type fType E parms cp pField pFilter =
     with_active parms (\<lambda>g conf.
       if currentDupDestination conf = []
       then (Some ''a DupDestination is required before a filter'', g, Some conf)
       else register (addFilter E pField pFilter cp conf fType)
              (\<lambda>e. if e = BadExpression then ''Invalid regular expression in filter definition.''
                   else ''This filter can never match with the current DupApplicationScope, it needs BODY|QUERY_STRING|HEADER'')
              g conf)"

definition setRawFilter_type ::
    "eFilterTypes \<Rightarrow> ext_lib \<Rightarrow> cmd_parms \<Rightarrow> conf_ptr \<Rightarrow> string \<Rightarrow> dup_globals \<Rightarrow> DupConf option \<Rightarrow> handler_result" where
  "setRawFilter_type fType E parms cp pExpression =
     with_active parms (\<lambda>g conf.
       if currentDupDestination conf = []
       then (Some ''a DupDestination is required before a RawFilter'', g, Some conf)
       else register (addRawFilter E pExpression cp conf fType)
              (\<lambda>_. ''Invalid regular expression in filter definition.'') g conf)"

section \<open>The life cycle\<close>

definition childInit :: "dup_globals \<Rightarrow> dup_globals" where
  "childInit g = on_pool pool_start g"

text \<open>The pool is stopped and destroyed; the stopped pool is returned for what is said about
  it.\<close>

definition cleanUp ::
    "(thread \<Rightarrow> bool) \<Rightarrow> dup_globals \<Rightarrow> RequestInfo ThreadPool option \<times> dup_globals" where
  "cleanUp joined g =
     (map_option (pool_stop joined) (gThreadPool g), g\<lparr>gThreadPool := None, gProcessor := None\<rparr>)"

text \<open>Which filters are inserted for a request: those of an active location.\<close>

datatype dup_filter = FilterIn | FilterOutBody | FilterOutHeaders

definition insertFilters :: "DupConf \<Rightarrow> dup_filter list" where
  "insertFilters tConf = (if dirName tConf \<noteq> None then [FilterIn, FilterOutBody, FilterOutHeaders] else [])"

section \<open>The table of directives\<close>

datatype directive =
    DupName string | DupUrlCodec string | DupTimeout string | DupThreads string string
  | DupQueue string string | DupDuplicationType string | DupDestination string "string option"
  | DupApplicationScope string | DupFilter string string | DupPreventFilter string string
  | DupRawFilter string | DupRawPreventFilter string | DupRawSubstitute string string
  | DupSubstitute string string string | DupErrorLogBodyMatch string | DupSync | Dup

fun gCmds ::
    "ext_lib \<Rightarrow> cmd_parms \<Rightarrow> conf_ptr \<Rightarrow> directive \<Rightarrow> dup_globals \<Rightarrow> DupConf option \<Rightarrow> handler_result" where
  "gCmds E parms cp (DupName a) = setName parms (Some a)"
| "gCmds E parms cp (DupUrlCodec a) = setUrlCodec parms (Some a)"
| "gCmds E parms cp (DupTimeout a) = setTimeout E parms a"
| "gCmds E parms cp (DupThreads a b) = setThreads E parms a b"
| "gCmds E parms cp (DupQueue a b) = setQueue E parms a b"
| "gCmds E parms cp (DupDuplicationType a) = setDuplicationType parms a"
| "gCmds E parms cp (DupDestination a p) = setDestination E parms cp (Some a) p"
| "gCmds E parms cp (DupApplicationScope a) = setApplicationScope parms a"
| "gCmds E parms cp (DupFilter a b) = setFilter_type REGULAR E parms cp a b"
| "gCmds E parms cp (DupPreventFilter a b) = setFilter_type PREVENT_DUPLICATION E parms cp a b"
| "gCmds E parms cp (DupRawFilter a) = setRawFilter_type REGULAR E parms cp a"
| "gCmds E parms cp (DupRawPreventFilter a) = setRawFilter_type PREVENT_DUPLICATION E parms cp a"
| "gCmds E parms cp (DupRawSubstitute a b) = setRawSubstitute E parms cp a b"
| "gCmds E parms cp (DupSubstitute a b c) = setSubstitute E parms cp a b c"
| "gCmds E parms cp (DupErrorLogBodyMatch a) = setErrorLogBodyMatch E a"
| "gCmds E parms cp DupSync = setSynchronous"
| "gCmds E parms cp Dup = setActive parms"

text \<open>Reading a configuration: the directives with the address and path of the location each
  stands in; a location met for the first time gets a fresh configuration.\<close>

record config_state =
  cs_globals :: dup_globals
  cs_confs :: "(conf_ptr, DupConf) std_map"

definition config_init :: config_state where
  "config_init = \<lparr>cs_globals = \<lparr>gProcessor = None, gThreadPool = None\<rparr>, cs_confs = []\<rparr>"

definition config_step ::
    "ext_lib \<Rightarrow> cmd_parms \<Rightarrow> conf_ptr \<Rightarrow> directive \<Rightarrow> config_state \<Rightarrow> string option \<times> config_state" where
  "config_step E parms cp d s =
     (let conf = (case map_find (cs_confs s) cp of None \<Rightarrow> createDirConfig | Some c \<Rightarrow> c) in
      case gCmds E parms cp d (cs_globals s) (Some conf) of
        (msg, g, c) \<Rightarrow>
          (msg, \<lparr>cs_globals = g,
                 cs_confs = (case c of None \<Rightarrow> cs_confs s | Some c' \<Rightarrow> map_put cp c' (cs_confs s))\<rparr>))"

fun config_run ::
    "ext_lib \<Rightarrow> (conf_ptr \<times> cmd_parms \<times> directive) list \<Rightarrow> config_state \<Rightarrow> string + config_state" where
  "config_run E [] s = Inr s"
| "config_run E ((cp, parms, d) # ds) s =
     (case config_step E parms cp d s of
        (Some msg, s') \<Rightarrow> Inl msg
      | (None, s') \<Rightarrow> config_run E ds s')"

section \<open>What an accepted configuration guarantees\<close>

text \<open>The processor is well-formed; the pool is not started, its bounds are in order and its
  pill is a pill; processor and pool exist together.\<close>

definition pool_configured :: "RequestInfo ThreadPool \<Rightarrow> bool" where
  "pool_configured p \<longleftrightarrow>
     mThreads p = [] \<and> mQueue (pool_mQueue p) = [] \<and> mBeingKilled p = 0 \<and>
     mMinThreads p \<le> mMaxThreads p \<and> mMinQueued p \<le> mMaxQueued p \<and> isPoison (mPoisonItem p)"

definition globals_ok :: "ext_lib \<Rightarrow> dup_globals \<Rightarrow> bool" where
  "globals_ok E g \<longleftrightarrow>
     (gProcessor g = None \<longleftrightarrow> gThreadPool g = None) \<and>
     pred_option (processor_ok E) (gProcessor g) \<and> pred_option pool_configured (gThreadPool g)"

lemma pool_configured_init [simp]: "pool_configured (ThreadPool_init (POISON_REQUEST parms))"
  by (simp add: pool_configured_def ThreadPool_init_def MultiThreadQueue_init_def POISON_REQUEST_def
      isPoison_constructors)

lemma pool_configured_set [simp]:
  "pool_configured p \<Longrightarrow> pool_configured (addStat n f p)"
  "pool_configured p \<Longrightarrow> pool_configured (setProgramName n p)"
  "pool_configured p \<Longrightarrow> a \<le> b \<Longrightarrow> pool_configured (pool_setThreads a b p)"
  "pool_configured p \<Longrightarrow> a \<le> b \<Longrightarrow> pool_configured (pool_setQueue a b p)"
  by (simp_all add: pool_configured_def addStat_def setProgramName_def pool_setThreads_def pool_setQueue_def)

lemma globals_ok_init [simp]: "globals_ok E (dup_init parms)"
  by (simp add: globals_ok_def dup_init_def)

lemma globals_ok_need [simp]:
  "globals_ok E g \<Longrightarrow> globals_ok E (need_processor parms g)"
  "globals_ok E g \<Longrightarrow> globals_ok E (need_pool parms g)"
  by (simp_all add: need_processor_def need_pool_def)

lemma globals_ok_on_processor:
  "globals_ok E g \<Longrightarrow> (\<And>rp. processor_ok E rp \<Longrightarrow> processor_ok E (f rp)) \<Longrightarrow> globals_ok E (on_processor f g)"
  by (cases "gProcessor g") (auto simp: globals_ok_def on_processor_def)

lemma globals_ok_on_pool:
  "globals_ok E g \<Longrightarrow> (\<And>p. pool_configured p \<Longrightarrow> pool_configured (f p)) \<Longrightarrow> globals_ok E (on_pool f g)"
  by (cases "gThreadPool g") (auto simp: globals_ok_def on_pool_def)

lemma processor_ok_setters:
  "processor_ok E rp \<Longrightarrow> processor_ok E (proc_setUrlCodec c rp)"
  "processor_ok E rp \<Longrightarrow> processor_ok E (proc_setTimeout n rp)"
  by (simp_all add: processor_ok_def proc_setUrlCodec_def proc_setTimeout_def)

lemma globals_ok_register:
  assumes "globals_ok E g" and "\<And>rp rp'. processor_ok E rp \<Longrightarrow> add rp = Inr rp' \<Longrightarrow> processor_ok E rp'"
  shows "globals_ok E (fst (snd (register add msg g conf)))"
  using assms by (auto simp: register_def globals_ok_def split: option.splits sum.splits)

lemma setActive_globals [simp]: "fst (snd (setActive parms g conf)) = g"
  by (simp add: setActive_def Let_def split: option.split)

lemma globals_ok_with_active:
  assumes "globals_ok E g" and "\<And>g c. globals_ok E g \<Longrightarrow> globals_ok E (fst (snd (body g c)))"
  shows "globals_ok E (fst (snd (with_active parms body g conf)))"
proof -
  obtain msg g1 c1 where s: "setActive parms g conf = (msg, g1, c1)" by (metis prod_cases3)
  then have "g1 = g" using setActive_globals [of parms g conf] by simp
  with assms s show ?thesis by (simp add: with_active_def split: option.split)
qed

lemma dup_percentage_bound: "dup_percentage E a = Inr n \<Longrightarrow> n \<le> 10000"
  by (auto simp: dup_percentage_def split: option.splits if_splits)

lemmas globals_ok_handlers = globals_ok_with_active globals_ok_register globals_ok_on_processor
  globals_ok_on_pool

lemma globals_ok_gCmds:
  assumes ok: "globals_ok E g"
  shows "globals_ok E (fst (snd (gCmds E parms cp d g conf)))"
proof (cases d)
  case (DupDestination a p)
  have "globals_ok E (on_processor (setDestinationDuplicationPercentage cp a (int n)) g)"
    if "dup_percentage E p = Inr n" "globals_ok E g" for n g
    using that dup_percentage_bound
    by (intro globals_ok_on_processor) (auto intro!: setDestinationDuplicationPercentage_ok)
  with DupDestination ok show ?thesis
    by (auto simp: setDestination_def Let_def intro!: globals_ok_with_active split: sum.split)
next
  case (DupThreads a b)
  with ok show ?thesis
    by (auto simp: setThreads_def intro!: globals_ok_on_pool split: option.split)
next
  case (DupQueue a b)
  with ok show ?thesis
    by (auto simp: setQueue_def intro!: globals_ok_on_pool split: option.split)
next
  case (DupDuplicationType a)
  then have "fst (snd (gCmds E parms cp d g conf)) = fst (snd (setActive parms g conf))"
    by (cases conf) (simp_all add: setDuplicationType_def setActive_def Let_def split: option.split)
  with ok show ?thesis by simp
qed (use ok in \<open>auto simp: setName_def setUrlCodec_def setTimeout_def
    setApplicationScope_def setFilter_type_def setRawFilter_type_def setRawSubstitute_def
    setSubstitute_def setErrorLogBodyMatch_def setSynchronous_def processor_ok_setters
    intro!: globals_ok_handlers intro: registration_ok split: option.split prod.split\<close>)

lemma config_run_globals:
  "globals_ok E (cs_globals s) \<Longrightarrow> config_run E ds s = Inr s' \<Longrightarrow> globals_ok E (cs_globals s')"
proof (induction E ds s rule: config_run.induct)
  case (2 E cp parms d ds s)
  obtain msg s1 where st: "config_step E parms cp d s = (msg, s1)" by fastforce
  have "globals_ok E (cs_globals s1)"
    using globals_ok_gCmds [OF 2(2), of parms cp d] st
    by (auto simp: config_step_def Let_def split: prod.splits) (metis fst_conv snd_conv)
  with 2 st show ?case by (cases msg) auto
qed simp

section \<open>The highest duplication type\<close>

text \<open>The filters registered for a location, and those of the globals.\<close>

definition filters_of :: "Commands \<Rightarrow> tFilter set" where
  "filters_of c = snd ` set (mFilters c) \<union> set (mRawFilters c)"

definition filters_at :: "RequestProcessor \<Rightarrow> conf_ptr \<Rightarrow> tFilter set" where
  "filters_at rp cp = {f. \<exists>m d c. map_find (mCommands rp) cp = Some m \<and> map_find m d = Some c \<and> f \<in> filters_of c}"

definition registered :: "dup_globals \<Rightarrow> conf_ptr \<Rightarrow> tFilter set" where
  "registered g cp = (case gProcessor g of None \<Rightarrow> {} | Some rp \<Rightarrow> filters_at rp cp)"

lemma filters_of_init [simp]: "filters_of Commands_init = {}"
  by (simp add: filters_of_def Commands_init_def)

lemma filters_at_init [simp]: "filters_at RequestProcessor_init cp = {}"
  by (simp add: filters_at_def RequestProcessor_init_def proc_setUrlCodec_def)

lemma filters_at_commands:
  assumes ok: "processor_ok E rp" and step: "\<And>c. filters_of (h c) \<subseteq> filters_of c \<union> A"
  shows "filters_at (at_commands cp dest h rp) cp' \<subseteq> filters_at rp cp' \<union> (if cp' = cp then A else {})"
proof
  fix f
  assume "f \<in> filters_at (at_commands cp dest h rp) cp'"
  then obtain m d c where f: "map_find (map_modify cp [] (map_modify dest Commands_init h) (mCommands rp)) cp' = Some m"
      "map_find m d = Some c" "f \<in> filters_of c"
    by (auto simp: filters_at_def at_commands_def)
  have wf: "map_wf (mCommands rp)" using ok by (simp add: processor_ok_def)
  show "f \<in> filters_at rp cp' \<union> (if cp' = cp then A else {})"
  proof (cases "cp' = cp")
    case False
    with f wf show ?thesis by (auto simp: map_find_modify filters_at_def)
  next
    case True
    let ?m0 = "case map_find (mCommands rp) cp of None \<Rightarrow> [] | Some m \<Rightarrow> m"
    have wf0: "map_wf ?m0"
      using ok by (auto simp: processor_ok_def destinations_ok_def map_find_entries split: option.split)
    have "m = map_modify dest Commands_init h ?m0" using f(1) wf True by (simp add: map_find_modify)
    with f(2) wf0 have "c = h (case map_find ?m0 d of None \<Rightarrow> Commands_init | Some c \<Rightarrow> c) \<or> map_find ?m0 d = Some c"
      by (auto simp: map_find_modify split: if_splits)
    then show ?thesis
      using f(3) step True
      by (fastforce simp: filters_at_def split: option.splits)
  qed
qed

text \<open>What a registration may add: filters of the current duplication type of the location.\<close>

definition adds_current ::
    "conf_ptr \<Rightarrow> DupConf \<Rightarrow> (conf_ptr \<Rightarrow> tFilter set) \<Rightarrow> (conf_ptr \<Rightarrow> tFilter set) \<Rightarrow> bool" where
  "adds_current cp conf A B \<longleftrightarrow>
     (\<forall>cp'. B cp' \<subseteq> A cp' \<union> (if cp' = cp then {f. mDuplicationType f = mCurrentDuplicationType conf} else {}))"

lemma adds_current_refl [simp]: "adds_current cp conf A A"
  by (auto simp: adds_current_def)

lemma adds_current_at:
  assumes "processor_ok E rp"
    and "\<And>c. filters_of (h c) \<subseteq> filters_of c \<union> {f. mDuplicationType f = mCurrentDuplicationType conf}"
  shows "adds_current cp conf (filters_at rp) (filters_at (at_commands cp dest h rp))"
  using filters_at_commands [OF assms] by (simp add: adds_current_def)

lemma adds_current_registration:
  assumes ok: "processor_ok E rp"
  shows "addFilter E a b cp conf ft rp = Inr rp' \<Longrightarrow> adds_current cp conf (filters_at rp) (filters_at rp')"
    and "addRawFilter E a cp conf ft rp = Inr rp' \<Longrightarrow> adds_current cp conf (filters_at rp) (filters_at rp')"
    and "addSubstitution E a b r cp conf rp = Inr rp' \<Longrightarrow> adds_current cp conf (filters_at rp) (filters_at rp')"
    and "addRawSubstitution E a b cp conf rp = Inr rp' \<Longrightarrow> adds_current cp conf (filters_at rp) (filters_at rp')"
    and "adds_current cp conf (filters_at rp) (filters_at (setDestinationDuplicationPercentage cp a n rp))"
  by (auto simp: addFilter_def addRawFilter_def addSubstitution_def addRawSubstitution_def
      setDestinationDuplicationPercentage_def filters_of_def set_mm_insert getCurrentDuplicationType_def
      split: if_splits sum.splits dest!: tFilter_new_ok intro!: adds_current_at [OF ok])

text \<open>A step of the configuration as the other locations see it: the filters it adds have the
  current type of its location, and the highest type of the location does not go down.\<close>

definition conf_types_ok :: "DupConf \<Rightarrow> bool" where
  "conf_types_ok c \<longleftrightarrow> mCurrentDuplicationType c \<le> mHighestDuplicationType c"

definition step_types ::
    "conf_ptr \<Rightarrow> dup_globals \<Rightarrow> DupConf \<Rightarrow> handler_result \<Rightarrow> bool" where
  "step_types cp g conf res \<longleftrightarrow>
     (\<exists>conf'. snd (snd res) = Some conf' \<and> conf_types_ok conf' \<and>
        mHighestDuplicationType conf \<le> mHighestDuplicationType conf' \<and>
        adds_current cp conf' (registered g) (registered (fst (snd res))))"

lemma registered_eq:
  "registered g = (case gProcessor g of None \<Rightarrow> (\<lambda>_. {}) | Some rp \<Rightarrow> filters_at rp)"
  by (auto simp: fun_eq_iff registered_def split: option.split)

lemma registered_need [simp]:
  "registered (need_processor parms g) = registered g"
  by (auto simp: need_processor_def registered_eq dup_init_def fun_eq_iff)

lemma registered_need_pool [simp]:
  "globals_ok E g \<Longrightarrow> registered (need_pool parms g) = registered g"
  by (auto simp: need_pool_def registered_eq dup_init_def globals_ok_def fun_eq_iff)

lemma registered_on_pool [simp]: "registered (on_pool f g) = registered g"
  by (simp add: registered_eq on_pool_def)

lemma registered_setters [simp]:
  "registered (on_processor (proc_setUrlCodec c) g) = registered g"
  "registered (on_processor (proc_setTimeout n) g) = registered g"
  by (auto simp: registered_eq on_processor_def filters_at_def fun_eq_iff proc_setUrlCodec_def proc_setTimeout_def
      split: option.split)

lemma setCurrentDuplicationType_types:
  "conf_types_ok (setCurrentDuplicationType dt c)"
  "mHighestDuplicationType c \<le> mHighestDuplicationType (setCurrentDuplicationType dt c)"
  by (auto simp: conf_types_ok_def setCurrentDuplicationType_def Let_def)

lemma step_types_register:
  assumes "globals_ok E g" and "conf_types_ok conf"
    and "\<And>rp rp'. processor_ok E rp \<Longrightarrow> add rp = Inr rp' \<Longrightarrow> adds_current cp conf (filters_at rp) (filters_at rp')"
  shows "step_types cp g conf (register add msg g conf)"
  using assms
  by (auto simp: step_types_def register_def registered_eq globals_ok_def split: option.split sum.split)

lemma step_types_with_active:
  assumes ok: "globals_ok E g" and conf: "conf_types_ok conf"
    and body: "\<And>g c. globals_ok E g \<Longrightarrow> conf_types_ok c \<Longrightarrow> step_types cp g c (body g c)"
  shows "step_types cp g conf (with_active parms body g (Some conf))"
proof -
  let ?c = "if dirName conf = None then conf\<lparr>dirName := Some (parms_path parms)\<rparr> else conf"
  have c: "conf_types_ok ?c" "mHighestDuplicationType ?c = mHighestDuplicationType conf"
    using conf by (auto simp: conf_types_ok_def)
  have "step_types cp (need_processor parms g) ?c (body (need_processor parms g) ?c)"
    using ok c(1) by (intro body) simp_all
  then show ?thesis
    using c by (auto simp: with_active_def setActive_def Let_def step_types_def)
qed

lemma step_types_same:
  "conf_types_ok c' \<Longrightarrow> mHighestDuplicationType c \<le> mHighestDuplicationType c' \<Longrightarrow>
     registered g' = registered g \<Longrightarrow> step_types cp g c (msg, g', Some c')"
  by (simp add: step_types_def)

lemma step_types_gCmds:
  assumes ok: "globals_ok E g" and conf: "conf_types_ok conf"
  shows "step_types cp g conf (gCmds E parms cp d g (Some conf))"
proof (cases d)
  case (DupDuplicationType a)
  with conf show ?thesis
    by (auto simp: setDuplicationType_def setActive_def Let_def step_types_def conf_types_ok_def
        setCurrentDuplicationType_types split: option.split)
       (auto simp: setCurrentDuplicationType_def Let_def)
next
  case (DupDestination a p)
  have "step_types cp g c (None, on_processor (setDestinationDuplicationPercentage cp a n) g,
      Some (c\<lparr>currentDupDestination := a\<rparr>))" if "globals_ok E g" "conf_types_ok c" for g c n
    using that adds_current_registration(5) [of E _ cp _ a n]
    by (auto simp: step_types_def conf_types_ok_def registered_eq on_processor_def globals_ok_def
        split: option.split)
  with ok conf DupDestination show ?thesis
    by (auto simp: setDestination_def Let_def conf_types_ok_def
        intro!: step_types_with_active step_types_same split: sum.split)
next
  case (DupErrorLogBodyMatch a)
  with conf show ?thesis
    by (auto simp: setErrorLogBodyMatch_def conf_setErrorLogBodyMatch_def step_types_def conf_types_ok_def)
qed (use ok conf in \<open>auto simp: setName_def setUrlCodec_def setTimeout_def setThreads_def setQueue_def
    setApplicationScope_def setFilter_type_def setRawFilter_type_def setRawSubstitute_def
    setSubstitute_def setSynchronous_def setActive_def Let_def conf_types_ok_def
    intro!: step_types_with_active step_types_register step_types_same
    intro: adds_current_registration split: option.split\<close>)

text \<open>The invariant of a configuration being read.\<close>

definition config_ok :: "ext_lib \<Rightarrow> config_state \<Rightarrow> bool" where
  "config_ok E s \<longleftrightarrow>
     globals_ok E (cs_globals s) \<and> map_wf (cs_confs s) \<and>
     (\<forall>cp c. map_find (cs_confs s) cp = Some c \<longrightarrow> conf_types_ok c) \<and>
     (\<forall>cp. \<forall>f \<in> registered (cs_globals s) cp. \<exists>c. map_find (cs_confs s) cp = Some c \<and>
        mDuplicationType f \<le> mHighestDuplicationType c)"

lemma config_ok_init [simp]: "config_ok E config_init"
  by (simp add: config_ok_def config_init_def globals_ok_def registered_eq)

lemma config_ok_step:
  assumes ok: "config_ok E s" and st: "config_step E parms cp d s = (msg, s')"
  shows "config_ok E s'"
proof -
  let ?conf = "case map_find (cs_confs s) cp of None \<Rightarrow> createDirConfig | Some c \<Rightarrow> c"
  let ?res = "gCmds E parms cp d (cs_globals s) (Some ?conf)"
  have g: "globals_ok E (cs_globals s)" and wf: "map_wf (cs_confs s)" using ok by (simp_all add: config_ok_def)
  have "conf_types_ok ?conf"
    using ok by (auto simp: config_ok_def createDirConfig_def DupConf_init_def conf_types_ok_def split: option.split)
  from step_types_gCmds [OF g this, of cp parms d] obtain conf' where
    c': "snd (snd ?res) = Some conf'" "conf_types_ok conf'"
        "mHighestDuplicationType ?conf \<le> mHighestDuplicationType conf'"
        "adds_current cp conf' (registered (cs_globals s)) (registered (fst (snd ?res)))"
    by (auto simp: step_types_def)
  have s': "s' = \<lparr>cs_globals = fst (snd ?res), cs_confs = map_put cp conf' (cs_confs s)\<rparr>"
    using st c'(1) by (auto simp: config_step_def Let_def split: prod.splits)
  have "globals_ok E (fst (snd ?res))" by (rule globals_ok_gCmds [OF g])
  moreover have "\<exists>c. map_find (map_put cp conf' (cs_confs s)) cp' = Some c \<and>
      mDuplicationType f \<le> mHighestDuplicationType c"
    if f: "f \<in> registered (fst (snd ?res)) cp'" for f cp'
  proof (cases "f \<in> registered (cs_globals s) cp'")
    case True
    then obtain c where c: "map_find (cs_confs s) cp' = Some c"
        "mDuplicationType f \<le> mHighestDuplicationType c" using ok unfolding config_ok_def by blast
    then show ?thesis using wf c'(3) by (auto intro: order_trans)
  next
    case False
    with f c'(4) have "cp' = cp" "mDuplicationType f = mCurrentDuplicationType conf'"
      by (auto simp: adds_current_def split: if_splits)
    with c'(2) wf show ?thesis by (simp add: conf_types_ok_def)
  qed
  ultimately show ?thesis
    using ok c'(2) wf by (auto simp: config_ok_def s' split: if_splits)
qed

lemma config_ok_run: "config_ok E s \<Longrightarrow> config_run E ds s = Inr s' \<Longrightarrow> config_ok E s'"
proof (induction E ds s rule: config_run.induct)
  case (2 E cp parms d ds s)
  obtain msg s1 where st: "config_step E parms cp d s = (msg, s1)" by fastforce
  with 2 config_ok_step [OF 2(2) st] show ?case by (cases msg) auto
qed simp

section \<open>Properties\<close>

text \<open>C10: Whatever directives Apache reads, if it accepts them all, then every filter and
  substitution has a valid expression and stands under its own destination, percentages are at most
  10000, the key filters have a scope in which they can match, and the thread pool has its minima
  below its maxima and a pill its workers recognise.\<close>

theorem accepted_configuration_ok:
  assumes "config_run E ds config_init = Inr s"
  shows "pred_option (processor_ok E) (gProcessor (cs_globals s)) \<and>
         pred_option pool_configured (gThreadPool (cs_globals s))"
  using config_ok_run [OF config_ok_init assms] by (simp add: config_ok_def globals_ok_def)

theorem accepted_configuration_ok_witness:
  "\<forall>mem. let parms = \<lparr>parms_path = ''/p'', mod_rewrite_loaded = True, poison_mem = mem, poison_now = 0\<rparr>
         in \<exists>s rp. config_run ref_lib
              [(7, parms, DupDestination ''h'' (Some ''150'')), (7, parms, DupFilter ''k'' ''v''),
               (7, parms, DupThreads ''2'' ''4'')] config_init = Inr s \<and>
              gProcessor (cs_globals s) = Some rp \<and> processor_ok ref_lib rp"
  unfolding Let_def
proof (intro allI)
  fix mem
  let ?parms = "\<lparr>parms_path = ''/p'', mod_rewrite_loaded = True, poison_mem = mem, poison_now = 0\<rparr>"
  let ?ds = "[(7, ?parms, DupDestination ''h'' (Some ''150'')), (7, ?parms, DupFilter ''k'' ''v''),
      (7, ?parms, DupThreads ''2'' ''4'')]"
  have "\<exists>s rp. config_run ref_lib ?ds config_init = Inr s \<and> gProcessor (cs_globals s) = Some rp"
    by (simp add: config_step_def config_init_def Let_def setDestination_def with_active_def setActive_def
        createDirConfig_def DupConf_init_def need_processor_def dup_init_def dup_percentage_def
        dec_parse_def dec_value_def digit_val_def is_digit_def on_processor_def setFilter_type_def
        register_def addFilter_def tFilter_new_def setThreads_def need_pool_def on_pool_def
        ref_lib_def)
  then show "\<exists>s rp. config_run ref_lib ?ds config_init = Inr s \<and>
      gProcessor (cs_globals s) = Some rp \<and> processor_ok ref_lib rp"
    using accepted_configuration_ok [of ref_lib ?ds] by fastforce
qed

text \<open>C18: The highest duplication type of a location, from which the Apache filters decide how much
  of a request to keep, covers every filter registered there: after an accepted configuration no
  filter of a location asks for more than the highest type the location records.\<close>

theorem highest_type_covers_filters:
  assumes "config_run E ds config_init = Inr s"
    and "f \<in> registered (cs_globals s) cp"
  shows "\<exists>conf. map_find (cs_confs s) cp = Some conf \<and>
           mDuplicationType f \<le> getHighestDuplicationType conf"
  using config_ok_run [OF config_ok_init assms(1)] assms(2)
  by (simp add: config_ok_def getHighestDuplicationType_def)

theorem highest_type_covers_filters_witness:
  "\<forall>mem. let parms = \<lparr>parms_path = ''/p'', mod_rewrite_loaded = True, poison_mem = mem, poison_now = 0\<rparr>;
             ds = [(7, parms, DupDuplicationType ''REQUEST_WITH_ANSWER''), (7, parms, DupDestination ''h'' None),
                   (7, parms, DupRawFilter ''v''), (7, parms, DupDuplicationType ''HEADER_ONLY'')]
         in \<exists>s conf. config_run ref_lib ds config_init = Inr s \<and> map_find (cs_confs s) 7 = Some conf \<and>
              getCurrentDuplicationType conf = HEADER_ONLY \<and>
              getHighestDuplicationType conf = REQUEST_WITH_ANSWER"
  unfolding Let_def
proof (intro allI)
  fix mem
  let ?parms = "\<lparr>parms_path = ''/p'', mod_rewrite_loaded = True, poison_mem = mem, poison_now = 0\<rparr>"
  let ?ds = "[(7, ?parms, DupDuplicationType ''REQUEST_WITH_ANSWER''), (7, ?parms, DupDestination ''h'' None),
      (7, ?parms, DupRawFilter ''v''), (7, ?parms, DupDuplicationType ''HEADER_ONLY'')]"
  let ?f = "\<lparr>mScope = QUERY_STRING, mRegex = ''v'', mDestination = ''h'', mErrorLogBodyMatch = [],
      mDuplicationType = REQUEST_WITH_ANSWER, mFilterType = REGULAR, mMatch = []\<rparr>"
  have "\<exists>s conf. config_run ref_lib ?ds config_init = Inr s \<and> ?f \<in> registered (cs_globals s) 7 \<and>
      map_find (cs_confs s) 7 = Some conf \<and> getCurrentDuplicationType conf = HEADER_ONLY"
    by (simp add: config_step_def config_init_def Let_def setDestination_def with_active_def setActive_def
        createDirConfig_def DupConf_init_def need_processor_def dup_init_def dup_percentage_def
        on_processor_def setRawFilter_type_def register_def addRawFilter_def tFilter_new_def
        setDuplicationType_def dup_type_stringToEnum_def setCurrentDuplicationType_def
        getCurrentDuplicationType_def registered_def filters_at_def filters_of_def at_commands_def
        map_modify_def setDestinationDuplicationPercentage_def RequestProcessor_init_def
        proc_setUrlCodec_def Commands_init_def less_eDuplicationType_def)
  then obtain s conf where s: "config_run ref_lib ?ds config_init = Inr s" "?f \<in> registered (cs_globals s) 7"
      "map_find (cs_confs s) 7 = Some conf" "getCurrentDuplicationType conf = HEADER_ONLY" by blast
  have "REQUEST_WITH_ANSWER \<le> getHighestDuplicationType conf"
    using highest_type_covers_filters [OF s(1,2)] s(3) by simp
  then have "getHighestDuplicationType conf = REQUEST_WITH_ANSWER" by (simp add: order_antisym)
  with s show "\<exists>s conf. config_run ref_lib ?ds config_init = Inr s \<and> map_find (cs_confs s) 7 = Some conf \<and>
      getCurrentDuplicationType conf = HEADER_ONLY \<and> getHighestDuplicationType conf = REQUEST_WITH_ANSWER"
    by blast
qed

end
