(* ===== verification/Apache_Api.thy ===== *)
theory Apache_Api
  imports Dup_Config
begin

text \<open>
  What the modules use of Apache: header tables, the request record, buckets and brigades, and the
  helpers of Utils.cc on top of them. APR tables are a parameter: a type \<open>'t\<close> with the
  functions of \<open>apr_lib\<close>; \<open>apr_documented\<close> states what their documentation
  promises. \<open>ref_apr\<close> is a concrete instance, a list of entries.
\<close>

section \<open>Tables\<close>

record 't apr_lib =
  apr_table_get :: "'t \<Rightarrow> string \<Rightarrow> string option"
  apr_table_set :: "'t \<Rightarrow> string \<Rightarrow> string \<Rightarrow> 't"
  apr_table_unset :: "'t \<Rightarrow> string \<Rightarrow> 't"
  apr_table_do :: "'t \<Rightarrow> key_val_list"
    \<comment> \<open>the entries, in the order a callback sees them\<close>
  curl_easy_strerror :: "int \<Rightarrow> string"

text \<open>Keys are compared without regard to case; \<open>set\<close> replaces what is there.\<close>

definition same_key :: "string \<Rightarrow> string \<Rightarrow> bool" where
  "same_key a b \<longleftrightarrow> map tolower a = map tolower b"

definition apr_documented :: "'t apr_lib \<Rightarrow> bool" where
  "apr_documented A \<longleftrightarrow>
     (\<forall>t k v k'. apr_table_get A (apr_table_set A t k v) k' =
        (if same_key k k' then Some v else apr_table_get A t k')) \<and>
     (\<forall>t k k'. apr_table_get A (apr_table_unset A t k) k' =
        (if same_key k k' then None else apr_table_get A t k')) \<and>
     (\<forall>t k. apr_table_get A t k = map_option snd (find (\<lambda>kv. same_key (fst kv) k) (apr_table_do A t)))"

fun list_set :: "key_val_list \<Rightarrow> string \<Rightarrow> string \<Rightarrow> key_val_list" where
  "list_set [] k v = [(k, v)]"
| "list_set ((k', v') # t) k v =
     (if same_key k' k then (k', v) # filter (\<lambda>kv. \<not> same_key (fst kv) k) t
      else (k', v') # list_set t k v)"

definition ref_apr :: "key_val_list apr_lib" where
  "ref_apr = \<lparr>
     apr_table_get = (\<lambda>t k. map_option snd (find (\<lambda>kv. same_key (fst kv) k) t)),
     apr_table_set = list_set,
     apr_table_unset = (\<lambda>t k. filter (\<lambda>kv. \<not> same_key (fst kv) k) t),
     apr_table_do = (\<lambda>t. t),
     curl_easy_strerror = show_int\<rparr>"

lemma same_key_sym: "same_key a b = same_key b a"
  by (auto simp: same_key_def)

lemma same_key_trans: "same_key a b \<Longrightarrow> same_key a c = same_key b c"
  by (auto simp: same_key_def)

lemma find_filter_other:
  "\<not> same_key k k' \<Longrightarrow> find (\<lambda>kv. same_key (fst kv) k') (filter (\<lambda>kv. \<not> same_key (fst kv) k) t) =
     find (\<lambda>kv. same_key (fst kv) k') t"
  by (induction t) (auto simp: same_key_def)

lemma find_list_set:
  "map_option snd (find (\<lambda>kv. same_key (fst kv) k') (list_set t k v)) =
     (if same_key k k' then Some v else map_option snd (find (\<lambda>kv. same_key (fst kv) k') t))"
proof (induction t k v rule: list_set.induct)
  case (2 a b t k v)
  then show ?case
    using find_filter_other [of k k' t] by (auto simp: same_key_def)
qed simp

lemma ref_apr_documented: "apr_documented ref_apr"
proof -
  have "find (\<lambda>kv. same_key (fst kv) k') (filter (\<lambda>kv. \<not> same_key (fst kv) k) t) = None"
    if "same_key k k'" for k k' and t :: key_val_list
    using that by (auto simp: find_None_iff same_key_def)
  then show ?thesis by (auto simp: apr_documented_def ref_apr_def find_list_set find_filter_other)
qed

section \<open>Requests, buckets and filters\<close>

text \<open>\<open>rq_conf\<close> is what mod_dup finds in \<open>per_dir_config\<close>, with its address;
  \<open>rq_info\<close> what it keeps in \<open>request_config\<close>. The theories of the other modules extend
  the record with the slots of their module.\<close>

record 't request_rec =
  rq_status :: int
  rq_method :: string
  rq_uri :: string
  rq_args :: "string option"
  rq_headers_in :: 't
  rq_headers_out :: 't
  rq_request_time :: int
  rq_conf :: "(conf_ptr \<times> DupConf) option"
  rq_info :: "RequestInfo option"

text \<open>A data bucket holds what reading it gives: the bytes, or the error status.\<close>

type_synonym apr_status = int

definition APR_SUCCESS :: apr_status where
  "APR_SUCCESS = 0"

datatype bucket = EOS_bucket | Metadata_bucket | Data_bucket "apr_status + string"

text \<open>The filter context: the null pointer, a request information, or the mark
  \<open>(void * ) -1\<close> of a filter that is done.\<close>

datatype filter_ctx = CtxNull | CtxInfo | CtxDone

section \<open>Utils.cc\<close>

definition c_UNIQUE_ID :: string where
  "c_UNIQUE_ID = ''UNIQUE_ID''"

definition CMaxBytes :: nat where
  "CMaxBytes = 8192"

text \<open>\<open>getNextReqId\<close> returns what \<open>random_r\<close> wrote, read as unsigned; if the generator
  fails, the initial value 1.\<close>

definition getNextReqId :: "int option \<Rightarrow> uint32" where
  "getNextReqId rnd = (case rnd of None \<Rightarrow> 1 | Some n \<Rightarrow> word_of_int n)"

text \<open>The brigade \<open>ap_get_brigade\<close> delivers is an argument, \<open>None\<close> when it fails. The
  result tells whether the body is complete.\<close>

fun extract_loop :: "bucket list \<Rightarrow> string \<Rightarrow> bool \<times> string" where
  "extract_loop [] content = (False, content)"
| "extract_loop (EOS_bucket # bs) content = (True, content)"
| "extract_loop (Metadata_bucket # bs) content = extract_loop bs content"
| "extract_loop (Data_bucket (Inl rv) # bs) content = (True, content)"
| "extract_loop (Data_bucket (Inr data) # bs) content = extract_loop bs (content @ data)"

definition extractBrigadeContent :: "bucket list option \<Rightarrow> string \<Rightarrow> bool \<times> string" where
  "extractBrigadeContent brigade content =
     (case brigade of None \<Rightarrow> (True, content) | Some bs \<Rightarrow> extract_loop bs content)"

definition getOrSetUniqueID ::
    "ext_lib \<Rightarrow> 't apr_lib \<Rightarrow> int option \<Rightarrow> ('t, 'm) request_rec_scheme \<Rightarrow>
     string \<times> ('t, 'm) request_rec_scheme" where
  "getOrSetUniqueID E A rnd r =
     (case apr_table_get A (rq_headers_in r) c_UNIQUE_ID of
        None \<Rightarrow>
          (let reqId = lexical_string E (uint (getNextReqId rnd))
           in (reqId, r\<lparr>rq_headers_in := apr_table_set A (rq_headers_in r) c_UNIQUE_ID reqId,
                        rq_headers_out := apr_table_set A (rq_headers_out r) c_UNIQUE_ID reqId\<rparr>))
      | Some lID \<Rightarrow>
          (lID, r\<lparr>rq_headers_out := apr_table_set A (rq_headers_out r) c_UNIQUE_ID lID\<rparr>))"

definition makeRequestInfo ::
    "ext_lib \<Rightarrow> 't apr_lib \<Rightarrow> RequestInfo \<Rightarrow> int option \<Rightarrow> 't request_rec \<Rightarrow> RequestInfo \<times> 't request_rec" where
  "makeRequestInfo E A mem rnd r =
     (case getOrSetUniqueID E A rnd r of (uid, r1) \<Rightarrow>
        let info = RequestInfo_start mem uid (rq_request_time r1)
        in (info, r1\<lparr>rq_info := Some info\<rparr>))"

section \<open>Reading a whole body\<close>

definition DECLINED :: int where
  "DECLINED = -1"

text \<open>The brigades the input filters deliver are a stream; reading goes on until one of them ends
  the body. \<open>None\<close>: it never does.\<close>

type_synonym brigade_stream = "nat \<Rightarrow> bucket list option"

partial_function (option) read_body :: "brigade_stream \<Rightarrow> nat \<Rightarrow> string \<Rightarrow> string option" where
  "read_body bs n content =
     (case extractBrigadeContent (bs n) content of
        (done, content') \<Rightarrow> if done then Some content' else read_body bs (Suc n) content')"

text \<open>\<open>ap_get_brigade\<close> on the next filter.\<close>

type_synonym next_filter = "bucket list \<Rightarrow> apr_status \<times> bucket list"

section \<open>Lemmas\<close>

text \<open>The data before the end of stream.\<close>

fun brigade_text :: "bucket list \<Rightarrow> string" where
  "brigade_text [] = []"
| "brigade_text (EOS_bucket # bs) = []"
| "brigade_text (Metadata_bucket # bs) = brigade_text bs"
| "brigade_text (Data_bucket (Inl rv) # bs) = []"
| "brigade_text (Data_bucket (Inr data) # bs) = data @ brigade_text bs"

lemma extract_loop_text: "snd (extract_loop bs content) = content @ brigade_text bs"
  by (induction bs content rule: extract_loop.induct) auto

lemma apr_get_set:
  "apr_documented A \<Longrightarrow> apr_table_get A (apr_table_set A t k v) k' =
     (if same_key k k' then Some v else apr_table_get A t k')"
  unfolding apr_documented_def by blast

lemma apr_get_entries:
  "apr_documented A \<Longrightarrow>
     apr_table_get A t k = map_option snd (find (\<lambda>kv. same_key (fst kv) k) (apr_table_do A t))"
  unfolding apr_documented_def by blast

text \<open>After \<open>getOrSetUniqueID\<close> both tables carry the identifier it returned.\<close>

lemma getOrSetUniqueID_sets:
  assumes "apr_documented A" and "getOrSetUniqueID E A rnd r = (uid, r')"
  shows "apr_table_get A (rq_headers_in r') c_UNIQUE_ID = Some uid \<and>
         apr_table_get A (rq_headers_out r') c_UNIQUE_ID = Some uid"
  using assms
  by (auto simp: getOrSetUniqueID_def Let_def apr_get_set same_key_def split: option.splits)

definition ends_body :: "bucket list option \<Rightarrow> bool" where
  "ends_body b = fst (extractBrigadeContent b [])"

definition stream_text :: "brigade_stream \<Rightarrow> nat \<Rightarrow> nat \<Rightarrow> string" where
  "stream_text bs m n = concat (map (\<lambda>i. case bs i of None \<Rightarrow> [] | Some b \<Rightarrow> brigade_text b) [m..<Suc n])"

lemma extract_ends: "fst (extract_loop b content) = fst (extract_loop b content')"
proof (induction b content arbitrary: content' rule: extract_loop.induct)
  case (5 data bs content)
  then show ?case by (simp only: extract_loop.simps)
qed simp_all

lemma extract_brigade:
  "extractBrigadeContent b content =
     (ends_body b, content @ (case b of None \<Rightarrow> [] | Some bs \<Rightarrow> brigade_text bs))"
  using extract_loop_text [of _ content] extract_ends [of _ content "[]"]
  by (auto simp: extractBrigadeContent_def ends_body_def prod_eq_iff split: option.splits)

lemma read_body_step:
  "read_body bs n content =
     (let c = content @ (case bs n of None \<Rightarrow> [] | Some b \<Rightarrow> brigade_text b)
      in if ends_body (bs n) then Some c else read_body bs (Suc n) c)"
  by (subst read_body.simps) (simp add: extract_brigade Let_def)

lemma read_body_returns:
  "m \<le> n \<Longrightarrow> ends_body (bs n) \<Longrightarrow> (\<forall>i. m \<le> i \<and> i < n \<longrightarrow> \<not> ends_body (bs i)) \<Longrightarrow>
     read_body bs m content = Some (content @ stream_text bs m n)"
proof (induction "n - m" arbitrary: m content)
  case 0
  then show ?case by (subst read_body_step) (simp add: stream_text_def Let_def)
next
  case (Suc k)
  then have mn: "m < n" by simp
  then have "\<not> ends_body (bs m)" using Suc.prems(3) by blast
  moreover have "stream_text bs m n =
      (case bs m of None \<Rightarrow> [] | Some b \<Rightarrow> brigade_text b) @ stream_text bs (Suc m) n"
    using mn by (simp add: stream_text_def upt_rec [of m])
  ultimately show ?case
    using Suc.hyps(1) [of "Suc m"] Suc.hyps(2) Suc.prems mn
    by (subst read_body_step) (simp add: Let_def)
qed

lemma read_body_ends:
  assumes "read_body bs n content = Some body"
  shows "\<exists>i \<ge> n. ends_body (bs i)"
proof (rule read_body.raw_induct [where P = "\<lambda>bs n content body. \<exists>i \<ge> n. ends_body (bs i)", OF _ assms])
  fix f bs n content body
  assume IH: "\<And>bs n content body. f bs n content = Some body \<Longrightarrow> \<exists>i \<ge> n. ends_body (bs i)"
    and eq: "(case extractBrigadeContent (bs n) content of
        (done, content') \<Rightarrow> if done then Some content' else f bs (Suc n) content') = Some body"
  show "\<exists>i \<ge> n. ends_body (bs i)"
  proof (cases "ends_body (bs n)")
    case False
    with eq obtain c where "f bs (Suc n) c = Some body" by (auto simp: extract_brigade)
    then show ?thesis using IH Suc_leD by blast
  qed auto
qed

lemma brigade_text_EOS: "brigade_text (b @ [EOS_bucket]) = brigade_text b"
  by (induction b rule: brigade_text.induct) auto

lemma read_body_returns_iff: "read_body bs 0 content \<noteq> None \<longleftrightarrow> (\<exists>n. ends_body (bs n))"
proof
  assume "\<exists>n. ends_body (bs n)"
  then have "ends_body (bs (LEAST n. ends_body (bs n)))" by (rule LeastI_ex)
  then show "read_body bs 0 content \<noteq> None"
    using read_body_returns [of 0 "LEAST n. ends_body (bs n)" bs content] not_less_Least by fastforce
qed (use read_body_ends in fastforce)

end
