(* ===== verification/Dup_Handlers.thy ===== *)
theory Dup_Handlers
  imports Apache_Api
begin

text \<open>
  The Apache filters of mod_dup (filters_dup.cc): the input filter collects the body of the
  request, the output body filter the answer, and the output headers filter hands the request to the
  processor, synchronously or through the pool. A handler gets the request, the context of its
  filter and the brigade; it returns them changed together with the status. In every branch the
  output handlers pass the brigade on unchanged: the status is what \<open>ap_pass_brigade\<close>
  returned, an argument.
\<close>

section \<open>Response headers for validation\<close>

definition iterateOverHeaders :: "'t apr_lib \<Rightarrow> 't \<Rightarrow> key_val_list \<Rightarrow> key_val_list" where
  "iterateOverHeaders A table headers = headers @ apr_table_do A table"

fun additional_loop :: "'t apr_lib \<Rightarrow> key_val_list \<Rightarrow> 't \<Rightarrow> 't" where
  "additional_loop A [] t = t"
| "additional_loop A ((k, v) # kvs) t =
     additional_loop A kvs
       (if k = ''X_DUP_LOG'' then apr_table_set A t ''X_DUP_LOG'' v
        else if k = ''X_COMP_LOG'' then apr_table_set A t ''X_COMP_LOG'' v else t)"

definition checkAdditionalHeaders :: "'t apr_lib \<Rightarrow> RequestInfo \<Rightarrow> 't request_rec \<Rightarrow> 't request_rec" where
  "checkAdditionalHeaders A ri rq =
     (if \<not> mValidationHeaderDup ri \<and> \<not> mValidationHeaderComp ri then rq
      else rq\<lparr>rq_headers_out := additional_loop A (mHeadersOut ri) (rq_headers_out rq)\<rparr>)"

definition checkCurlResponseCompareStatus ::
    "'t apr_lib \<Rightarrow> RequestInfo \<Rightarrow> 't request_rec \<Rightarrow> 't request_rec" where
  "checkCurlResponseCompareStatus A ri rq =
     (let put = (\<lambda>k v. rq\<lparr>rq_headers_out := apr_table_set A (rq_headers_out rq) k v\<rparr>) in
      if apr_table_get A (rq_headers_in rq) ''X_DUP_LOG'' = None then rq
      else (case map_find (mCurlCompResponseHeader ri) ''X-COMP-STATUS'' of
              Some v \<Rightarrow> put ''X-COMP-STATUS'' v
            | None \<Rightarrow>
                if mCurlCompResponseStatus ri = -1
                then put ''X-COMPARE-STATUS'' ''No Duplication, No Comparison''
                else if mCurlCompResponseStatus ri \<noteq> 0
                then put ''X-COMPARE-STATUS''
                       (''NOT REACHED - curl status '' @ curl_easy_strerror A (mCurlCompResponseStatus ri))
                else put ''X-COMPARE-STATUS'' ''Reached Destination - No Comparison''))"

section \<open>Preparing the request\<close>

text \<open>\<open>atoi\<close>: white space, a sign, decimal digits; the value of a number that does not fit an
  \<open>int\<close> is undefined in C, here it is the number.\<close>

definition atoi :: "string \<Rightarrow> int" where
  "atoi s =
     (let s1 = dropWhile is_space s in
      case s1 of
        [] \<Rightarrow> 0
      | c # cs \<Rightarrow>
          if c = CHR ''-'' then - int (dec_value (takeWhile is_digit cs))
          else if c = CHR ''+'' then int (dec_value (takeWhile is_digit cs))
          else int (dec_value (takeWhile is_digit s1)))"

definition dup_count :: "'t apr_lib \<Rightarrow> 't request_rec \<Rightarrow> int" where
  "dup_count A rq = (case apr_table_get A (rq_headers_in rq) ''X-DUP-COUNT'' of None \<Rightarrow> 0 | Some s \<Rightarrow> atoi s)"

definition prepareRequestInfo ::
    "ext_lib \<Rightarrow> 't apr_lib \<Rightarrow> conf_ptr \<Rightarrow> 't request_rec \<Rightarrow> RequestInfo \<Rightarrow> bool \<times> RequestInfo" where
  "prepareRequestInfo E A cp rq r0 =
     (let r1 = r0\<lparr>mHeadersIn := (''X_DUP_HTTP_STATUS'', lexical_string E (rq_status rq)) # mHeadersIn r0\<rparr>;
          m = (case apr_table_get A (rq_headers_in rq) ''X-HTTP-METHOD-OVERRIDE'' of
                 Some inOverride \<Rightarrow> inOverride | None \<Rightarrow> rq_method rq);
          r2 = r1\<lparr>mHeadersIn := (''X-HTTP-METHOD-OVERRIDE'', m) # (''X_DUP_METHOD'', m) # mHeadersIn r1\<rparr>;
          r3 = (case apr_table_get A (rq_headers_in rq) ''Content-Type'' of
                  None \<Rightarrow> r2
                | Some ct \<Rightarrow> r2\<lparr>mHeadersIn := (''X_DUP_CONTENT_TYPE'', ct) # mHeadersIn r2\<rparr>)
      in if apr_table_get A (rq_headers_in rq) ''X-DUP-COUNT'' \<noteq> None \<and> dup_count A rq \<ge> 4
         then (False, r3)
         else
          (let r4 = r3\<lparr>mHeadersIn := (''X-DUP-COUNT'', show_int (dup_count A rq + 1)) # mHeadersIn r3\<rparr>;
               r5 = r4\<lparr>mHeadersIn := iterateOverHeaders A (rq_headers_in rq) (mHeadersIn r4)\<rparr>;
               r6 = (if apr_table_get A (rq_headers_in rq) ''X_DUP_LOG'' \<noteq> None
                     then r5\<lparr>mValidationHeaderDup := True\<rparr> else r5)
           in (True, r6\<lparr>mPoison := False, mConf := Some cp, mMethod := rq_method rq, mPath := rq_uri rq,
                        mArgs := (case rq_args rq of None \<Rightarrow> [] | Some a \<Rightarrow> a)\<rparr>)))"

section \<open>Handing the request over\<close>

text \<open>The shared objects: the pool and the processor with what has been sent.\<close>

record dup_world =
  dw_pool :: "RequestInfo ThreadPool"
  dw_worker :: worker_state

definition initiateDuplication ::
    "ext_lib \<Rightarrow> 't apr_lib \<Rightarrow> worker_env \<Rightarrow> conf_ptr \<Rightarrow> DupConf \<Rightarrow> 't request_rec \<Rightarrow> RequestInfo \<Rightarrow> dup_world \<Rightarrow>
     dup_exception + ('t request_rec \<times> RequestInfo \<times> dup_world)" where
  "initiateDuplication E A env cp tConf rq ri w =
     (case prepareRequestInfo E A cp rq ri of
        (False, ri1) \<Rightarrow> Inr (rq, ri1, w)
      | (True, ri1) \<Rightarrow>
          (case (if synchronous tConf \<or> apr_table_get A (rq_headers_in rq) ''X_DUP_LOG'' \<noteq> None
                 then (case runOne E (env\<lparr>env_running := \<lambda>_. True\<rparr>) (ri1, dw_worker w) of
                         Inl e \<Rightarrow> Inl e
                       | Inr (ri2, wk) \<Rightarrow> Inr (ri2, w\<lparr>dw_worker := wk\<rparr>))
                 else Inr (ri1, w\<lparr>dw_pool := pool_push ri1 (dw_pool w)\<rparr>)) of
             Inl e \<Rightarrow> Inl e
           | Inr (ri3, w3) \<Rightarrow>
               Inr (checkCurlResponseCompareStatus A ri3 (checkAdditionalHeaders A ri3 rq), ri3, w3)))"

section \<open>The input filter\<close>

text \<open>The result of \<open>ap_get_brigade\<close> on the next filter is an argument: a status and the
  buckets. The location is not treated if there is no configuration or no directory name.\<close>

definition treated :: "'t request_rec \<Rightarrow> bool" where
  "treated rq \<longleftrightarrow> (case rq_conf rq of None \<Rightarrow> False | Some (cp, conf) \<Rightarrow> dirName conf \<noteq> None)"

fun input_loop :: "bucket list \<Rightarrow> RequestInfo \<Rightarrow> apr_status \<times> RequestInfo" where
  "input_loop [] info = (APR_SUCCESS, info)"
| "input_loop (EOS_bucket # bs) info = (APR_SUCCESS, info)"
| "input_loop (Metadata_bucket # bs) info = input_loop bs info"
| "input_loop (Data_bucket (Inl rv) # bs) info = (rv, info)"
| "input_loop (Data_bucket (Inr data) # bs) info = input_loop bs (info\<lparr>mBody := mBody info @ data\<rparr>)"

definition fresh_info ::
    "ext_lib \<Rightarrow> 't apr_lib \<Rightarrow> RequestInfo \<Rightarrow> int option \<Rightarrow> 't request_rec \<Rightarrow> conf_ptr \<Rightarrow> RequestInfo \<times> 't request_rec" where
  "fresh_info E A mem rnd rq cp =
     (case makeRequestInfo E A mem rnd rq of (info, rq1) \<Rightarrow>
        let info1 = info\<lparr>mConf := Some cp, mArgs := (case rq_args rq1 of None \<Rightarrow> [] | Some a \<Rightarrow> a)\<rparr>
        in (info1, rq1\<lparr>rq_info := Some info1\<rparr>))"

definition inputFilterHandler ::
    "ext_lib \<Rightarrow> 't apr_lib \<Rightarrow> RequestInfo \<Rightarrow> int option \<Rightarrow> apr_status \<times> bucket list \<Rightarrow>
     't request_rec \<Rightarrow> filter_ctx \<Rightarrow> apr_status \<times> 't request_rec \<times> filter_ctx" where
  "inputFilterHandler E A mem rnd brigade rq ctx =
     (case rq_conf rq of
        None \<Rightarrow> (fst brigade, rq, ctx)
      | Some (cp, conf) \<Rightarrow>
          if dirName conf = None then (fst brigade, rq, ctx)
          else
           (let (rq1, ctx1) =
                  (if ctx = CtxNull
                   then (case rq_info rq of
                           None \<Rightarrow> (snd (fresh_info E A mem rnd rq cp), CtxInfo)
                         | Some info \<Rightarrow> (rq, CtxInfo))
                   else (rq, ctx))
            in if ctx1 = CtxDone then (APR_SUCCESS, rq1, ctx1)
               else if fst brigade \<noteq> APR_SUCCESS then (fst brigade, rq1, CtxDone)
               else (case rq_info rq1 of
                       None \<Rightarrow> (APR_SUCCESS, rq1, ctx1)
                     | Some info \<Rightarrow>
                         (case input_loop (snd brigade) info of
                            (st, info') \<Rightarrow> (st, rq1\<lparr>rq_info := Some info'\<rparr>, ctx1)))))"

section \<open>The output filters\<close>

text \<open>What an output handler returns: the status of passing the brigade on, the request, the
  context and the shared objects.\<close>

type_synonym 't output_result =
  "dup_exception + (apr_status \<times> 't request_rec \<times> filter_ctx \<times> dup_world)"

definition duplicates :: "'t request_rec \<Rightarrow> bool" where
  "duplicates rq \<longleftrightarrow> (case rq_conf rq of
     None \<Rightarrow> False
   | Some (cp, conf) \<Rightarrow> dirName conf \<noteq> None \<and> getHighestDuplicationType conf \<noteq> NONE)"

text \<open>The loop over the buckets up to the end of stream: the answer collected, and whether the end
  was met.\<close>

fun answer_loop :: "DupConf \<Rightarrow> bucket list \<Rightarrow> RequestInfo \<Rightarrow> RequestInfo \<times> bool" where
  "answer_loop conf [] ri = (ri, False)"
| "answer_loop conf (EOS_bucket # bs) ri = (ri, True)"
| "answer_loop conf (Metadata_bucket # bs) ri = answer_loop conf bs ri"
| "answer_loop conf (Data_bucket d # bs) ri =
     answer_loop conf bs
       (if getHighestDuplicationType conf = REQUEST_WITH_ANSWER
        then (case d of Inl rv \<Rightarrow> ri | Inr data \<Rightarrow> ri\<lparr>mAnswer := mAnswer ri @ data\<rparr>)
        else ri)"

definition outputBodyFilterHandler ::
    "ext_lib \<Rightarrow> 't apr_lib \<Rightarrow> worker_env \<Rightarrow> RequestInfo \<Rightarrow> int option \<Rightarrow> int \<Rightarrow> apr_status \<Rightarrow> bucket list \<Rightarrow>
     't request_rec \<Rightarrow> filter_ctx \<Rightarrow> dup_world \<Rightarrow> 't output_result" where
  "outputBodyFilterHandler E A env mem rnd now pass brigade rq ctx w =
     (case rq_conf rq of
        None \<Rightarrow> Inr (pass, rq, ctx, w)
      | Some (cp, conf) \<Rightarrow>
          if ctx = CtxDone \<or> \<not> duplicates rq then Inr (pass, rq, ctx, w)
          else if rq_info rq = None \<and> ctx \<noteq> CtxNull then Inr (pass, rq, CtxDone, w)
          else
           (let (ri, rq1, ctx1) =
                  (case rq_info rq of
                     None \<Rightarrow> (case fresh_info E A mem rnd rq cp of (i, r) \<Rightarrow> (i, r, CtxInfo))
                   | Some i \<Rightarrow> (i, rq, ctx))
            in case answer_loop conf brigade ri of
                 (ri1, False) \<Rightarrow> Inr (pass, rq1\<lparr>rq_info := Some ri1\<rparr>, ctx1, w)
               | (ri1, True) \<Rightarrow>
                   (let ri2 = eos_seen True now ri1 in
                    if apr_table_get A (rq_headers_in rq1) ''X_DUP_LOG'' \<noteq> None
                    then (let ri3 = ri2\<lparr>mHeadersOut := iterateOverHeaders A (rq_headers_out rq1) (mHeadersOut ri2)\<rparr>
                          in case initiateDuplication E A env cp conf rq1 ri3 w of
                               Inl e \<Rightarrow> Inl e
                             | Inr (rq2, ri4, w2) \<Rightarrow> Inr (pass, rq2\<lparr>rq_info := Some ri4\<rparr>, CtxDone, w2))
                    else Inr (pass, rq1\<lparr>rq_info := Some ri2\<rparr>, CtxDone, w))))"

definition outputHeadersFilterHandler ::
    "ext_lib \<Rightarrow> 't apr_lib \<Rightarrow> worker_env \<Rightarrow> RequestInfo \<Rightarrow> int option \<Rightarrow> apr_status \<Rightarrow>
     't request_rec \<Rightarrow> filter_ctx \<Rightarrow> dup_world \<Rightarrow> 't output_result" where
  "outputHeadersFilterHandler E A env mem rnd pass rq ctx w =
     (if ctx = CtxDone then Inr (pass, rq, ctx, w)
      else (case rq_conf rq of
        None \<Rightarrow> Inr (pass, rq, CtxDone, w)
      | Some (cp, conf) \<Rightarrow>
          if \<not> duplicates rq then Inr (pass, rq, CtxDone, w)
          else if rq_info rq = None \<and> ctx \<noteq> CtxNull then Inr (pass, rq, CtxDone, w)
          else
           (let (ri, rq1, ctx1) =
                  (case rq_info rq of
                     None \<Rightarrow> (case fresh_info E A mem rnd rq cp of (i, r) \<Rightarrow> (i, r, CtxInfo))
                   | Some i \<Rightarrow> (i, rq, ctx));
                ri1 = ri\<lparr>mHeadersOut := iterateOverHeaders A (rq_headers_out rq1) (mHeadersOut ri)\<rparr>
            in if \<not> mEOS ri1 then Inr (pass, rq1\<lparr>rq_info := Some ri1\<rparr>, ctx1, w)
               else if apr_table_get A (rq_headers_in rq1) ''X_DUP_LOG'' = None
               then (case initiateDuplication E A env cp conf rq1 ri1 w of
                       Inl e \<Rightarrow> Inl e
                     | Inr (rq2, ri2, w2) \<Rightarrow> Inr (pass, rq2\<lparr>rq_info := Some ri2\<rparr>, CtxDone, w2))
               else Inr (pass, rq1\<lparr>rq_info := Some ri1\<rparr>, CtxDone, w))))"

section \<open>The duplication count\<close>

lemma show_nat_head: "\<exists>c cs. show_nat n = c # cs \<and> is_digit c"
proof (cases "show_nat n")
  case Nil
  then show ?thesis by simp
next
  case (Cons c cs)
  then show ?thesis using show_nat_digits [of n] by simp
qed

lemma digit_not_special:
  "is_digit c \<Longrightarrow> \<not> is_space c \<and> c \<noteq> CHR ''-'' \<and> c \<noteq> CHR ''+'' \<and> c \<noteq> NUL"
  by (auto simp: is_digit_def is_space_def)

lemma atoi_show_int: "0 \<le> n \<Longrightarrow> atoi (show_int n) = n"
proof -
  assume n: "0 \<le> n"
  obtain c cs where s: "show_nat (nat n) = c # cs" "is_digit c" using show_nat_head by blast
  have all: "takeWhile is_digit cs = cs"
    using show_nat_digits [of "nat n"] s(1) by (subst takeWhile_eq_all_conv) (simp add: list_all_iff)
  have "dec_value (c # cs) = nat n" using s(1) dec_value_show_nat [of "nat n"] by (simp only:)
  with n s digit_not_special [OF s(2)] show ?thesis by (simp add: atoi_def show_int_def all)
qed

lemma show_int_no_NUL: "0 \<le> n \<Longrightarrow> NUL \<notin> set (show_int n)"
  using show_nat_digits [of "nat n"] digit_not_special by (auto simp: show_int_def list_all_iff)

lemma prepare_count:
  assumes "prepareRequestInfo E A cp rq r0 = (True, ri)"
  shows "dup_count A rq < 4 \<and> map_of (mHeadersIn ri) ''X-DUP-COUNT'' = Some (show_int (dup_count A rq + 1))"
  using assms
  by (auto simp: prepareRequestInfo_def Let_def iterateOverHeaders_def dup_count_def
      split: if_splits option.splits)

text \<open>\<open>rq'\<close> is what a server receives when a duplicate of \<open>rq\<close> reaches it: it has the
  \<open>X-DUP-COUNT\<close> line of the request built from the prepared information.\<close>

definition duplicate_of :: "ext_lib \<Rightarrow> 't apr_lib \<Rightarrow> 't request_rec \<Rightarrow> 't request_rec \<Rightarrow> bool" where
  "duplicate_of E A rq rq' \<longleftrightarrow>
     (\<exists>cp r0 ri r2 rp flt v. prepareRequestInfo E A cp rq r0 = (True, ri) \<and>
        mHeadersIn r2 = mHeadersIn ri \<and> (\<forall>kv \<in> set (mHeadersIn ri). plain_name (fst kv)) \<and>
        ''X-DUP-COUNT'' @ '': '' @ v \<in> set (cr_headers (fst (build_request E rp flt r2))) \<and>
        apr_table_get A (rq_headers_in rq') ''X-DUP-COUNT'' = Some v)"

lemma duplicate_of_count:
  assumes "duplicate_of E A rq rq'" and pos: "0 \<le> dup_count A rq"
  shows "dup_count A rq < 4 \<and> dup_count A rq' = dup_count A rq + 1"
proof -
  obtain cp r0 ri r2 rp flt v where d: "prepareRequestInfo E A cp rq r0 = (True, ri)"
      "mHeadersIn r2 = mHeadersIn ri" "\<forall>kv \<in> set (mHeadersIn ri). plain_name (fst kv)"
      "''X-DUP-COUNT'' @ '': '' @ v \<in> set (cr_headers (fst (build_request E rp flt r2)))"
      "apr_table_get A (rq_headers_in rq') ''X-DUP-COUNT'' = Some v"
    using assms(1) by (auto simp: duplicate_of_def)
  let ?n = "show_int (dup_count A rq + 1)"
  have n: "map_of (mHeadersIn r2) ''X-DUP-COUNT'' = Some ?n" using prepare_count [OF d(1)] d(2) by simp
  have nul: "c_str (''X-DUP-COUNT'' @ '': '' @ ?n) = ''X-DUP-COUNT'' @ '': '' @ ?n"
    using show_int_no_NUL [of "dup_count A rq + 1"] pos by (intro c_str_id) auto
  have "''X-DUP-COUNT'' \<notin> set preset_names" "''X-DUP-COUNT'' \<notin> set never_copied"
    by (simp_all add: preset_names_def common_names_def never_copied_def)
  moreover have "line_name (''X-DUP-COUNT'' @ '': '' @ v) = ''X-DUP-COUNT''" by simp
  ultimately have "''X-DUP-COUNT'' @ '': '' @ v = ''X-DUP-COUNT'' @ '': '' @ ?n"
    using build_request_header_line [OF n, of E rp flt] d(2-4) nul by fastforce
  then have "v = ?n" by simp
  then show ?thesis
    using d(5) prepare_count [OF d(1)] pos by (simp add: dup_count_def atoi_show_int)
qed

lemma duplicate_chain_count:
  "successively (duplicate_of E A) (rq # rqs) \<Longrightarrow> 0 \<le> dup_count A rq \<Longrightarrow>
     rqs = [] \<or> dup_count A rq + int (length rqs) \<le> 4"
proof (induction rqs arbitrary: rq)
  case (Cons rq' rqs)
  then have "dup_count A rq < 4" "dup_count A rq' = dup_count A rq + 1"
    using duplicate_of_count [of E A rq rq'] by auto
  with Cons.IH [of rq'] Cons.prems show ?case by auto
qed simp

section \<open>The body of the request\<close>

text \<open>The input filter called once for each brigade the next filter delivers.\<close>

fun input_calls ::
    "ext_lib \<Rightarrow> 't apr_lib \<Rightarrow> RequestInfo \<Rightarrow> int option \<Rightarrow> bucket list list \<Rightarrow> 't request_rec \<times> filter_ctx \<Rightarrow>
     't request_rec \<times> filter_ctx" where
  "input_calls E A mem rnd [] rc = rc"
| "input_calls E A mem rnd (b # bs) (rq, ctx) =
     (case inputFilterHandler E A mem rnd (APR_SUCCESS, b) rq ctx of
        (st, rq', ctx') \<Rightarrow> input_calls E A mem rnd bs (rq', ctx'))"

lemma input_loop_text: "mBody (snd (input_loop bs info)) = mBody info @ brigade_text bs"
  by (induction bs info rule: input_loop.induct) auto

lemma fresh_info_facts:
  assumes "fresh_info E A mem rnd rq cp = (info, rq1)"
  shows "mBody info = [] \<and> mAnswer info = [] \<and> mHeadersOut info = [] \<and> mHeadersIn info = [] \<and>
    \<not> mEOS info \<and> mConf info = Some cp \<and> rq_info rq1 = Some info \<and> rq_conf rq1 = rq_conf rq"
  using assms
  by (auto simp: fresh_info_def makeRequestInfo_def getOrSetUniqueID_def Let_def RequestInfo_start_def
      RequestInfo_members_def split: option.splits)

lemma input_step:
  assumes "rq_conf rq = Some (cp, conf)" and "dirName conf \<noteq> None" and "rq_info rq = Some info"
    and "ctx \<noteq> CtxDone"
  shows "\<exists>st info'. inputFilterHandler E A mem rnd (APR_SUCCESS, b) rq ctx =
           (st, rq\<lparr>rq_info := Some info'\<rparr>, CtxInfo) \<and> mBody info' = mBody info @ brigade_text b"
proof -
  obtain st info' where l: "input_loop b info = (st, info')" by fastforce
  have "mBody info' = mBody info @ brigade_text b" using input_loop_text [of b info] l by simp
  then show ?thesis
    using assms l by (cases ctx) (auto simp: inputFilterHandler_def APR_SUCCESS_def)
qed

lemma input_calls_body:
  assumes "rq_conf rq = Some (cp, conf)" and "dirName conf \<noteq> None" and "rq_info rq = Some info"
    and "ctx \<noteq> CtxDone"
  shows "\<exists>info'. rq_info (fst (input_calls E A mem rnd bs (rq, ctx))) = Some info' \<and>
           mBody info' = mBody info @ concat (map brigade_text bs)"
  using assms
proof (induction bs arbitrary: rq ctx info)
  case (Cons b bs)
  from input_step [OF Cons.prems, of E A mem rnd b] obtain st info1 where
    s: "inputFilterHandler E A mem rnd (APR_SUCCESS, b) rq ctx = (st, rq\<lparr>rq_info := Some info1\<rparr>, CtxInfo)"
       "mBody info1 = mBody info @ brigade_text b" by blast
  have "\<exists>info'. rq_info (fst (input_calls E A mem rnd bs (rq\<lparr>rq_info := Some info1\<rparr>, CtxInfo))) = Some info' \<and>
      mBody info' = mBody info1 @ concat (map brigade_text bs)"
    using Cons.prems by (intro Cons.IH) auto
  with s show ?case by simp
qed simp

section \<open>The output filters in sequence\<close>

text \<open>The calls Apache makes to the two output filters of a request, in any order.\<close>

record 't out_state =
  os_rq :: "'t request_rec"
  os_body :: filter_ctx
  os_hdrs :: filter_ctx
  os_world :: dup_world

datatype out_call = BodyCall "bucket list" | HeadersCall

fun out_step ::
    "ext_lib \<Rightarrow> 't apr_lib \<Rightarrow> worker_env \<Rightarrow> RequestInfo \<Rightarrow> int option \<Rightarrow> int \<Rightarrow> apr_status \<Rightarrow> out_call \<Rightarrow>
     't out_state \<Rightarrow> dup_exception + 't out_state" where
  "out_step E A env mem rnd now pass (BodyCall b) s =
     (case outputBodyFilterHandler E A env mem rnd now pass b (os_rq s) (os_body s) (os_world s) of
        Inl e \<Rightarrow> Inl e
      | Inr (st, rq, ctx, w) \<Rightarrow> Inr (s\<lparr>os_rq := rq, os_body := ctx, os_world := w\<rparr>))"
| "out_step E A env mem rnd now pass HeadersCall s =
     (case outputHeadersFilterHandler E A env mem rnd pass (os_rq s) (os_hdrs s) (os_world s) of
        Inl e \<Rightarrow> Inl e
      | Inr (st, rq, ctx, w) \<Rightarrow> Inr (s\<lparr>os_rq := rq, os_hdrs := ctx, os_world := w\<rparr>))"

fun out_calls ::
    "ext_lib \<Rightarrow> 't apr_lib \<Rightarrow> worker_env \<Rightarrow> RequestInfo \<Rightarrow> int option \<Rightarrow> int \<Rightarrow> apr_status \<Rightarrow> out_call list \<Rightarrow>
     't out_state \<Rightarrow> dup_exception + 't out_state" where
  "out_calls E A env mem rnd now pass [] s = Inr s"
| "out_calls E A env mem rnd now pass (c # cs) s =
     (case out_step E A env mem rnd now pass c s of
        Inl e \<Rightarrow> Inl e | Inr s' \<Rightarrow> out_calls E A env mem rnd now pass cs s')"

text \<open>The end of the response reaches the body filter before a call of the headers filter.\<close>

fun eos_then_headers :: "out_call list \<Rightarrow> bool" where
  "eos_then_headers [] = False"
| "eos_then_headers (BodyCall b # cs) = (EOS_bucket \<in> set b \<and> HeadersCall \<in> set cs \<or> eos_then_headers cs)"
| "eos_then_headers (HeadersCall # cs) = eos_then_headers cs"

text \<open>How many items have been given to the queue, accepted or dropped.\<close>

definition pushes :: "dup_world \<Rightarrow> uint32" where
  "pushes w = mInCount (pool_mQueue (dw_pool w)) + mDropCount (pool_mQueue (dw_pool w))"

lemma pushes_push: "pushes (w\<lparr>dw_pool := pool_push x (dw_pool w)\<rparr>) = pushes w + 1"
  by (simp add: pushes_def pool_push_def push_def)

lemma answer_loop_eos: "snd (answer_loop conf bs ri) \<longleftrightarrow> EOS_bucket \<in> set bs"
  by (induction conf bs ri rule: answer_loop.induct) auto

lemma answer_loop_frame:
  "mEOS (fst (answer_loop conf bs ri)) = mEOS ri"
  by (induction conf bs ri rule: answer_loop.induct) (auto split: sum.splits)

text \<open>An asynchronous location, a request without \<open>X_DUP_LOG\<close> and with a count below the limit.\<close>

definition async_request :: "'t apr_lib \<Rightarrow> conf_ptr \<Rightarrow> DupConf \<Rightarrow> 't request_rec \<Rightarrow> bool" where
  "async_request A cp conf rq \<longleftrightarrow>
     rq_conf rq = Some (cp, conf) \<and> dirName conf \<noteq> None \<and> getHighestDuplicationType conf \<noteq> NONE \<and>
     \<not> synchronous conf \<and> apr_table_get A (rq_headers_in rq) ''X_DUP_LOG'' = None \<and> dup_count A rq < 4"

lemma async_duplicates: "async_request A cp conf rq \<Longrightarrow> duplicates rq"
  by (simp add: async_request_def duplicates_def)

lemma async_info [simp]: "async_request A cp conf (rq\<lparr>rq_info := i\<rparr>) = async_request A cp conf rq"
  by (simp add: async_request_def dup_count_def)

lemma async_fresh:
  assumes "apr_documented A" and "async_request A cp conf rq" and "fresh_info E A mem rnd rq cp = (info, rq1)"
  shows "async_request A cp conf rq1"
  using assms
  by (auto simp: fresh_info_def makeRequestInfo_def getOrSetUniqueID_def Let_def async_request_def
      dup_count_def apr_get_set same_key_def c_UNIQUE_ID_def tolower_def split: option.splits)

text \<open>For such a request the duplication is one push, and nothing else changes.\<close>

lemma async_initiate:
  assumes "async_request A cp conf rq"
  shows "\<exists>rq1 ri1. initiateDuplication E A env cp conf rq ri w =
      Inr (rq1, ri1, w\<lparr>dw_pool := pool_push ri1 (dw_pool w)\<rparr>) \<and>
      mEOS ri1 = mEOS ri \<and> async_request A cp conf rq1"
proof -
  obtain ri1 where p: "prepareRequestInfo E A cp rq ri = (True, ri1)" "mEOS ri1 = mEOS ri"
    using assms
    by (auto simp: prepareRequestInfo_def Let_def async_request_def split: option.split)
  have "async_request A cp conf (checkCurlResponseCompareStatus A ri1 (checkAdditionalHeaders A ri1 rq))"
    using assms
    by (simp add: async_request_def checkCurlResponseCompareStatus_def checkAdditionalHeaders_def
        Let_def dup_count_def)
  with assms p show ?thesis by (simp add: initiateDuplication_def async_request_def)
qed

text \<open>The invariant of the calls: the headers filter is done exactly when the push has happened,
  the body filter is done only after the end of the response.\<close>

definition out_inv :: "'t apr_lib \<Rightarrow> conf_ptr \<Rightarrow> DupConf \<Rightarrow> uint32 \<Rightarrow> 't out_state \<Rightarrow> bool" where
  "out_inv A cp conf n s \<longleftrightarrow>
     async_request A cp conf (os_rq s) \<and>
     (rq_info (os_rq s) = None \<longrightarrow> os_body s = CtxNull \<and> os_hdrs s = CtxNull) \<and>
     pushes (os_world s) = n + (if os_hdrs s = CtxDone then 1 else 0) \<and>
     (os_body s = CtxDone \<longrightarrow> (\<exists>i. rq_info (os_rq s) = Some i \<and> mEOS i))"

lemma body_call:
  assumes A: "apr_documented A" and inv: "out_inv A cp conf n s"
  shows "\<exists>s'. out_step E A env mem rnd now pass (BodyCall b) s = Inr s' \<and> out_inv A cp conf n s' \<and>
           os_hdrs s' = os_hdrs s \<and> (os_body s = CtxDone \<or> EOS_bucket \<in> set b \<longrightarrow> os_body s' = CtxDone)"
proof (cases "os_body s = CtxDone")
  case True
  with inv show ?thesis
    by (intro exI [of _ s]) (auto simp: outputBodyFilterHandler_def out_inv_def async_request_def)
next
  case False
  let ?rq = "os_rq s"
  have async: "async_request A cp conf ?rq" using inv by (simp add: out_inv_def)
  have conf: "rq_conf ?rq = Some (cp, conf)" using async by (simp add: async_request_def)
  obtain ri rq1 ctx1 where i: "(case rq_info ?rq of
        None \<Rightarrow> (case fresh_info E A mem rnd ?rq cp of (i, r) \<Rightarrow> (i, r, CtxInfo))
      | Some i \<Rightarrow> (i, ?rq, os_body s)) = (ri, rq1, ctx1)" by (metis prod_cases3)
  have rq1: "async_request A cp conf rq1" "ctx1 \<noteq> CtxDone"
    using i async async_fresh [OF A async] False by (auto split: option.splits prod.splits)
  have ctx: "\<not> (rq_info ?rq = None \<and> os_body s \<noteq> CtxNull)" using inv by (auto simp: out_inv_def)
  obtain ri1 e where l: "answer_loop conf b ri = (ri1, e)" by fastforce
  have e: "e \<longleftrightarrow> EOS_bucket \<in> set b" using answer_loop_eos [of conf b ri] l by simp
  have nolog: "apr_table_get A (rq_headers_in rq1) ''X_DUP_LOG'' = None"
    using rq1(1) by (simp add: async_request_def)
  have run: "outputBodyFilterHandler E A env mem rnd now pass b ?rq (os_body s) (os_world s) =
      (if e then Inr (pass, rq1\<lparr>rq_info := Some (eos_seen True now ri1)\<rparr>, CtxDone, os_world s)
       else Inr (pass, rq1\<lparr>rq_info := Some ri1\<rparr>, ctx1, os_world s))"
    using conf False ctx async_duplicates [OF async] nolog
    by (auto simp: outputBodyFilterHandler_def i l)
  show ?thesis
    using run rq1 inv e False by (cases e) (auto simp: out_inv_def)
qed

lemma headers_call:
  assumes A: "apr_documented A" and inv: "out_inv A cp conf n s"
  shows "\<exists>s'. out_step E A env mem rnd now pass HeadersCall s = Inr s' \<and> out_inv A cp conf n s' \<and>
           os_body s' = os_body s \<and>
           (os_hdrs s = CtxDone \<or> os_body s = CtxDone \<longrightarrow> os_hdrs s' = CtxDone)"
proof (cases "os_hdrs s = CtxDone")
  case True
  with inv show ?thesis
    by (intro exI [of _ s]) (simp add: outputHeadersFilterHandler_def)
next
  case False
  let ?rq = "os_rq s"
  have async: "async_request A cp conf ?rq" using inv by (simp add: out_inv_def)
  have conf: "rq_conf ?rq = Some (cp, conf)" using async by (simp add: async_request_def)
  obtain ri rq1 ctx1 where i: "(case rq_info ?rq of
        None \<Rightarrow> (case fresh_info E A mem rnd ?rq cp of (i, r) \<Rightarrow> (i, r, CtxInfo))
      | Some i \<Rightarrow> (i, ?rq, os_hdrs s)) = (ri, rq1, ctx1)" by (metis prod_cases3)
  have rq1: "async_request A cp conf rq1" "ctx1 \<noteq> CtxDone" "os_body s = CtxDone \<longrightarrow> mEOS ri"
    using i async async_fresh [OF A async] False inv
    by (auto simp: out_inv_def split: option.splits prod.splits)
  have ctx: "\<not> (rq_info ?rq = None \<and> os_hdrs s \<noteq> CtxNull)" using inv by (auto simp: out_inv_def)
  let ?ri1 = "ri\<lparr>mHeadersOut := iterateOverHeaders A (rq_headers_out rq1) (mHeadersOut ri)\<rparr>"
  have nolog: "apr_table_get A (rq_headers_in rq1) ''X_DUP_LOG'' = None"
    using rq1(1) by (simp add: async_request_def)
  obtain rq2 ri2 where d: "initiateDuplication E A env cp conf rq1 ?ri1 (os_world s) =
      Inr (rq2, ri2, (os_world s)\<lparr>dw_pool := pool_push ri2 (dw_pool (os_world s))\<rparr>)"
      "mEOS ri2 = mEOS ri" "async_request A cp conf rq2"
    using async_initiate [OF rq1(1), of E env ?ri1 "os_world s"] by auto
  have run: "outputHeadersFilterHandler E A env mem rnd pass ?rq (os_hdrs s) (os_world s) =
      (if mEOS ri then Inr (pass, rq2\<lparr>rq_info := Some ri2\<rparr>, CtxDone,
           (os_world s)\<lparr>dw_pool := pool_push ri2 (dw_pool (os_world s))\<rparr>)
       else Inr (pass, rq1\<lparr>rq_info := Some ?ri1\<rparr>, ctx1, os_world s))"
    using conf False ctx async_duplicates [OF async] nolog d(1)
    by (auto simp: outputHeadersFilterHandler_def i)
  show ?thesis
    using run rq1 inv d(2,3) False by (cases "mEOS ri") (auto simp: out_inv_def pushes_push)
qed

lemma out_calls_inv:
  assumes A: "apr_documented A" and inv: "out_inv A cp conf n s"
  shows "\<exists>s'. out_calls E A env mem rnd now pass cs s = Inr s' \<and> out_inv A cp conf n s' \<and>
    (os_hdrs s = CtxDone \<or> os_body s = CtxDone \<and> HeadersCall \<in> set cs \<or> eos_then_headers cs \<longrightarrow>
       os_hdrs s' = CtxDone)"
  using inv
proof (induction cs arbitrary: s)
  case (Cons c cs)
  show ?case
  proof (cases c)
    case (BodyCall b)
    from body_call [OF A Cons.prems] obtain s1 where s1: "out_step E A env mem rnd now pass c s = Inr s1"
      "out_inv A cp conf n s1" "os_hdrs s1 = os_hdrs s"
      "os_body s = CtxDone \<or> EOS_bucket \<in> set b \<longrightarrow> os_body s1 = CtxDone" using BodyCall by blast
    with Cons.IH [OF s1(2)] BodyCall show ?thesis by auto
  next
    case HeadersCall
    from headers_call [OF A Cons.prems] obtain s1 where s1: "out_step E A env mem rnd now pass c s = Inr s1"
      "out_inv A cp conf n s1" "os_body s1 = os_body s"
      "os_hdrs s = CtxDone \<or> os_body s = CtxDone \<longrightarrow> os_hdrs s1 = CtxDone" using HeadersCall by blast
    with Cons.IH [OF s1(2)] HeadersCall show ?thesis by auto
  qed
qed simp

text \<open>A small server for the witnesses: an asynchronous location and a request to it.\<close>

definition sample_conf :: DupConf where
  "sample_conf = DupConf_init\<lparr>dirName := Some ''/'', mHighestDuplicationType := HEADER_ONLY\<rparr>"

definition sample_request :: "key_val_list \<Rightarrow> key_val_list request_rec" where
  "sample_request hs = \<lparr>rq_status = 200, rq_method = ''GET'', rq_uri = ''/p'', rq_args = None,
     rq_headers_in = hs, rq_headers_out = [], rq_request_time = 0,
     rq_conf = Some (7, sample_conf), rq_info = None\<rparr>"

lemma sample_async: "async_request ref_apr 7 sample_conf (sample_request [])"
  by (simp add: async_request_def sample_request_def sample_conf_def DupConf_init_def ref_apr_def
      getHighestDuplicationType_def dup_count_def)

section \<open>Properties\<close>

text \<open>C14: Duplication cannot go round in circles: if each request of a chain is received as a
  duplicate of the one before it, through the \<open>X-DUP-COUNT\<close> header that mod_dup sends, and the
  first one does not carry a negative count, the chain has at most four duplications.\<close>

theorem duplication_chain_bounded:
  assumes "successively (duplicate_of E A) rqs" and "rqs \<noteq> []" and "0 \<le> dup_count A (hd rqs)"
  shows "length rqs \<le> 5"
  using duplicate_chain_count [of E A "hd rqs" "tl rqs"] assms by (cases rqs) auto

theorem duplication_chain_bounded_witness:
  "\<forall>mem. \<exists>rq rq'. duplicate_of ref_lib ref_apr rq rq' \<and> rq \<noteq> rq' \<and> length [rq, rq'] \<le> 5"
proof
  fix mem :: RequestInfo
  let ?rq = "sample_request [(''X-DUP-COUNT'', ''2'')]"
  let ?rq' = "sample_request [(''X-DUP-COUNT'', ''3'')]"
  let ?r0 = "RequestInfo_start mem ''i'' 0"
  let ?ri = "snd (prepareRequestInfo ref_lib ref_apr 7 ?rq ?r0)"
  let ?flt = "\<lparr>mScope = ALL_SCOPES, mRegex = [], mDestination = ''d'', mErrorLogBodyMatch = [],
      mDuplicationType = HEADER_ONLY, mFilterType = REGULAR, mMatch = []\<rparr>"
  have count: "dup_count ref_apr ?rq = 2"
    by (simp add: dup_count_def sample_request_def ref_apr_def same_key_def atoi_def is_space_def
        is_digit_def dec_value_def digit_val_def)
  have prep: "prepareRequestInfo ref_lib ref_apr 7 ?rq ?r0 = (True, ?ri)"
    using count by (simp add: prepareRequestInfo_def Let_def split: option.split)
  have three: "show_int 3 = ''3''" by (simp add: show_int_def show_nat.simps digit_def char_of_def bit_0)
  have n: "map_of (mHeadersIn ?ri) ''X-DUP-COUNT'' = Some ''3''"
    using prepare_count [OF prep] count three by simp
  have plain: "plain_name (fst kv)" if "kv \<in> set (mHeadersIn ?ri)" for kv
    using that count
    by (auto simp: prepareRequestInfo_def Let_def sample_request_def ref_apr_def same_key_def tolower_def
        iterateOverHeaders_def RequestInfo_start_def RequestInfo_members_def plain_name_def)
  have "c_str (''X-DUP-COUNT'' @ '': '' @ ''3'') \<in>
      set (cr_headers (fst (build_request ref_lib RequestProcessor_init ?flt ?ri)))"
    using build_request_header_line [OF n, of ref_lib RequestProcessor_init ?flt] plain
    by (fastforce simp: preset_names_def common_names_def never_copied_def)
  then have "''X-DUP-COUNT'' @ '': '' @ ''3'' \<in>
      set (cr_headers (fst (build_request ref_lib RequestProcessor_init ?flt ?ri)))"
    by (simp add: c_str_def)
  then have d: "duplicate_of ref_lib ref_apr ?rq ?rq'"
    unfolding duplicate_of_def using prep plain
    by (intro exI conjI) (auto simp: sample_request_def ref_apr_def same_key_def)
  have "?rq \<noteq> ?rq'" by (simp add: sample_request_def)
  moreover have "length [?rq, ?rq'] \<le> 5"
    using duplication_chain_bounded [of ref_lib ref_apr "[?rq, ?rq']"] d count by simp
  ultimately show "\<exists>rq rq'. duplicate_of ref_lib ref_apr rq rq' \<and> rq \<noteq> rq' \<and> length [rq, rq'] \<le> 5"
    using d by blast
qed



text \<open>The input filter keeps the whole body: over any brigades the next filter delivers, the
  body of the request information is the concatenation of the data before the end of stream (or the
  first unreadable bucket) of each.\<close>

theorem request_body_collected:
  assumes "rq_conf rq = Some (cp, conf)" and "dirName conf \<noteq> None" and "rq_info rq = None" and "bs \<noteq> []"
  shows "\<exists>info. rq_info (fst (input_calls E A mem rnd bs (rq, CtxNull))) = Some info \<and>
           mBody info = concat (map brigade_text bs)"
proof -
  obtain b bs' where bs: "bs = b # bs'" using assms(4) by (cases bs) auto
  obtain info rq1 where f: "fresh_info E A mem rnd rq cp = (info, rq1)" by fastforce
  have i: "rq_info rq1 = Some info" "rq_conf rq1 = Some (cp, conf)" "mBody info = []"
    using fresh_info_facts [OF f] assms(1) by auto
  have "input_calls E A mem rnd bs (rq, CtxNull) = input_calls E A mem rnd bs (rq1, CtxNull)"
    using assms i f by (auto simp: bs inputFilterHandler_def)
  with input_calls_body [OF i(2) assms(2) i(1), of CtxNull E A mem rnd bs] i(3) show ?thesis by simp
qed

theorem request_body_collected_witness:
  "\<forall>mem. \<exists>info. rq_info (fst (input_calls ref_lib ref_apr mem None
       [[Data_bucket (Inr ''ab''), Metadata_bucket], [Data_bucket (Inr ''c''), EOS_bucket]]
       (sample_request [], CtxNull))) = Some info \<and> mBody info = ''abc''"
proof
  fix mem
  show "\<exists>info. rq_info (fst (input_calls ref_lib ref_apr mem None
       [[Data_bucket (Inr ''ab''), Metadata_bucket], [Data_bucket (Inr ''c''), EOS_bucket]]
       (sample_request [], CtxNull))) = Some info \<and> mBody info = ''abc''"
    using request_body_collected [of "sample_request []" 7 sample_conf
        "[[Data_bucket (Inr ''ab''), Metadata_bucket], [Data_bucket (Inr ''c''), EOS_bucket]]"
        ref_lib ref_apr mem None]
    by (simp add: sample_request_def sample_conf_def del: input_calls.simps)
qed

end
