(* ===== verification/Mod_Migrate.thy ===== *)
theory Mod_Migrate
  imports Apache_Api
begin

text \<open>
  The migrate module: the configuration commands of mod_migrate.cc and the hook and the input
  filter of filters_migrate.cc. The hook runs before mod_rewrite, reads the whole body of the
  request, and sets environment variables from the parts of the request that match the
  expressions of the location; the input filter then serves the body it read to the rest of the
  input chain, in the portions the readers ask for.
\<close>

section \<open>Configuration\<close>

record MigrateEnv =
  mVarName :: string
  mMatchRegex :: string
  mSetValue :: string
  mApplicationScope :: eApplicationScope

record MigrateConf =
  mDirName :: "string option"
  mCurrentApplicationScope :: eApplicationScope
  mEnvLists :: "MigrateEnv list"

definition MigrateConf_init :: MigrateConf where
  "MigrateConf_init = \<lparr>mDirName = None, mCurrentApplicationScope = ALL_SCOPES, mEnvLists = []\<rparr>"

definition migrate_createDirConfig :: MigrateConf where
  "migrate_createDirConfig = MigrateConf_init"

text \<open>What the handlers use of \<open>cmd_parms\<close> and of the server: the path and the modules that
  are linked.\<close>

record migrate_parms =
  mp_path :: string
  ap_find_linked_module :: "string \<Rightarrow> bool"

definition not_loaded :: "string \<Rightarrow> string" where
  "not_loaded m = [CHR 0x27] @ m @ [CHR 0x27] @ '' is not loaded, Enable '' @ m @ '' to use mod_migrate''"

definition migrate_setActive ::
    "migrate_parms \<Rightarrow> MigrateConf option \<Rightarrow> string option \<times> MigrateConf option" where
  "migrate_setActive parms cfg =
     (case cfg of
        None \<Rightarrow> (Some ''No per_dir conf defined. This should never happen!'', None)
      | Some c \<Rightarrow>
          (let c1 = (if mDirName c = None then c\<lparr>mDirName := Some (mp_path parms)\<rparr> else c) in
           if \<not> ap_find_linked_module parms ''mod_rewrite.c'' then (Some (not_loaded ''mod_rewrite''), Some c1)
           else if \<not> ap_find_linked_module parms ''mod_proxy.c'' then (Some (not_loaded ''mod_proxy''), Some c1)
           else if \<not> ap_find_linked_module parms ''mod_proxy_http.c''
           then (Some (not_loaded ''mod_proxy_http''), Some c1)
           else (None, Some c1)))"

definition migrate_setApplicationScope ::
    "migrate_parms \<Rightarrow> string \<Rightarrow> MigrateConf option \<Rightarrow> string option \<times> MigrateConf option" where
  "migrate_setApplicationScope parms pAppScope cfg =
     (case migrate_setActive parms cfg of
        (Some msg, c1) \<Rightarrow> (Some msg, c1)
      | (None, c1) \<Rightarrow>
          (case scope_stringToEnum pAppScope of
             None \<Rightarrow> (Some scope_c_ERROR_ON_STRING_VALUE, c1)
           | Some s \<Rightarrow> (None, map_option (\<lambda>c. c\<lparr>mCurrentApplicationScope := s\<rparr>) c1)))"

text \<open>The constructor of \<open>boost::regex\<close> raises on a bad expression, and nothing here catches
  it.\<close>

definition setMigrateEnv ::
    "ext_lib \<Rightarrow> migrate_parms \<Rightarrow> string \<Rightarrow> string \<Rightarrow> string \<Rightarrow> MigrateConf option \<Rightarrow>
     dup_exception + (string option \<times> MigrateConf option)" where
  "setMigrateEnv E parms pVarName pMatchRegex pSetValue cfg =
     (case migrate_setActive parms cfg of
        (Some msg, c1) \<Rightarrow> Inr (Some msg, c1)
      | (None, c1) \<Rightarrow>
          if \<not> regex_ok E pMatchRegex then Inl BadExpression
          else Inr (None, map_option (\<lambda>c. c\<lparr>mEnvLists := mEnvLists c @
                 [\<lparr>mVarName = pVarName, mMatchRegex = pMatchRegex, mSetValue = pSetValue,
                   mApplicationScope = mCurrentApplicationScope c\<rparr>]\<rparr>) c1))"

section \<open>The request\<close>

record MigrateInfo =
  mi_mId :: string
  mi_mBody :: string
  mi_mArgs :: string
  mi_mHeader :: string
  mi_mConf :: "conf_ptr option"

definition MigrateInfo_new :: "string \<Rightarrow> int \<Rightarrow> MigrateInfo" where
  "MigrateInfo_new pId startTime =
     \<lparr>mi_mId = pId, mi_mBody = [], mi_mArgs = [], mi_mHeader = [], mi_mConf = None\<rparr>"

text \<open>The slots of the module: whether there is a \<open>per_dir_config\<close>, what it holds for
  migrate, what \<open>request_config\<close> holds; and what the hook reads and writes of the
  request.\<close>

record 't migrate_request = "'t request_rec" +
  mg_per_dir_config :: bool
  mg_conf :: "(conf_ptr \<times> MigrateConf) option"
  mg_info :: "MigrateInfo option"
  subprocess_env :: 't
  connection_pool :: bool
  bucket_alloc :: bool
  read_length :: int
  remaining :: int

definition migrate_makeRequestInfo ::
    "ext_lib \<Rightarrow> 't apr_lib \<Rightarrow> int option \<Rightarrow> 't migrate_request \<Rightarrow> MigrateInfo \<times> 't migrate_request" where
  "migrate_makeRequestInfo E A rnd r =
     (case getOrSetUniqueID E A rnd r of (uid, r1) \<Rightarrow>
        let info = MigrateInfo_new uid (rq_request_time r1)
        in (info, r1\<lparr>mg_info := Some info\<rparr>))"

definition active_conf :: "'t migrate_request \<Rightarrow> (conf_ptr \<times> MigrateConf) option" where
  "active_conf r = (case mg_conf r of
     None \<Rightarrow> None
   | Some (cp, conf) \<Rightarrow> if mDirName conf = None then None else Some (cp, conf))"

section \<open>Enriching the context\<close>

definition setEnvVar ::
    "'t apr_lib \<Rightarrow> MigrateEnv \<Rightarrow> string \<Rightarrow> 't migrate_request \<Rightarrow> bool \<times> 't migrate_request" where
  "setEnvVar A ctx toSet r =
     (if toSet \<noteq> []
      then (True, r\<lparr>subprocess_env := apr_table_set A (subprocess_env r) (mVarName ctx) (c_str toSet)\<rparr>)
      else (False, r))"

definition count_set :: "bool \<times> 't migrate_request \<Rightarrow> int \<Rightarrow> int \<times> 't migrate_request" where
  "count_set br count = (count + of_bool (fst br), snd br)"

definition enrich_one ::
    "ext_lib \<Rightarrow> 't apr_lib \<Rightarrow> MigrateInfo \<Rightarrow> MigrateEnv \<Rightarrow> int \<times> 't migrate_request \<Rightarrow>
     int \<times> 't migrate_request" where
  "enrich_one E A rInfo ctx cr0 =
     (let cr1 = (if in_scope (mApplicationScope ctx) QUERY_STRING
                 then count_set (setEnvVar A ctx
                        (regex_icase_extract E (mi_mArgs rInfo) (mMatchRegex ctx) (mSetValue ctx)) (snd cr0)) (fst cr0)
                 else cr0);
          cr2 = (if in_scope (mApplicationScope ctx) BODY \<and> mi_mBody rInfo \<noteq> []
                 then count_set (setEnvVar A ctx
                        (regex_icase_extract E (mi_mBody rInfo) (mMatchRegex ctx) (mSetValue ctx)) (snd cr1)) (fst cr1)
                 else cr1)
      in if in_scope (mApplicationScope ctx) HEADERS \<and> mi_mHeader rInfo \<noteq> []
         then count_set (setEnvVar A ctx
                (regex_icase_extract E (mi_mHeader rInfo) (mMatchRegex ctx) (mSetValue ctx)) (snd cr2)) (fst cr2)
         else cr2)"

definition enrichContext ::
    "ext_lib \<Rightarrow> 't apr_lib \<Rightarrow> 't migrate_request \<Rightarrow> MigrateInfo \<Rightarrow> int \<times> 't migrate_request" where
  "enrichContext E A r rInfo =
     (case active_conf r of
        None \<Rightarrow> (DECLINED, r)
      | Some (cp, conf) \<Rightarrow>
          if mEnvLists conf = [] then (0, r)
          else fold (enrich_one E A rInfo) (mEnvLists conf) (0, r))"

section \<open>The hook\<close>

fun iterateOverHeadersCallBack :: "string \<Rightarrow> key_val \<Rightarrow> string" where
  "iterateOverHeadersCallBack headers (key, value) =
     headers @ key @ '': '' @ value @ [CRchar, NL]"

text \<open>\<open>alloc\<close> tells whether creating a bucket allocator succeeds, \<open>bb_ok\<close> whether
  creating the brigade does. The status is always \<open>DECLINED\<close>.\<close>

definition translateHook ::
    "ext_lib \<Rightarrow> 't apr_lib \<Rightarrow> int option \<Rightarrow> bool \<Rightarrow> bool \<Rightarrow> brigade_stream \<Rightarrow> 't migrate_request \<Rightarrow>
     (int \<times> 't migrate_request) option" where
  "translateHook E A rnd alloc bb_ok bs r =
     (if \<not> mg_per_dir_config r then Some (DECLINED, r)
      else (case active_conf r of
        None \<Rightarrow> Some (DECLINED, r)
      | Some (cp, conf) \<Rightarrow>
          if \<not> connection_pool r then Some (DECLINED, r)
          else if \<not> bucket_alloc r \<and> \<not> alloc then Some (DECLINED, r)
          else (case migrate_makeRequestInfo E A rnd (r\<lparr>bucket_alloc := True\<rparr>) of (info, r1) \<Rightarrow>
            if \<not> bb_ok then Some (DECLINED, r1)
            else (case read_body bs 0 (mi_mBody info) of
              None \<Rightarrow> None
            | Some body \<Rightarrow>
                (let info1 = info\<lparr>mi_mBody := body,
                       mi_mHeader := foldl iterateOverHeadersCallBack (mi_mHeader info)
                          (apr_table_do A (rq_headers_in r1)),
                       mi_mConf := Some cp,
                       mi_mArgs := (case rq_args r1 of None \<Rightarrow> [] | Some a \<Rightarrow> a)\<rparr>;
                     r2 = snd (enrichContext E A r1 info1)
                 in Some (DECLINED, r2\<lparr>mg_info := Some info1, read_length := 0\<rparr>))))))"

section \<open>The input filter\<close>

text \<open>The filter context is a number: 0 for the null pointer, -1 when the body has been served,
  otherwise the bytes served so far. \<open>to_int32\<close> is the conversion to an \<open>int\<close>.
  \<open>nxt\<close> is \<open>ap_get_brigade\<close> on the next filter, \<open>wst\<close> the status
  \<open>apr_brigade_write\<close> returns.\<close>

definition inputFilterBody2Brigade ::
    "next_filter \<Rightarrow> apr_status \<Rightarrow> int \<Rightarrow> 't migrate_request option \<Rightarrow> int \<Rightarrow> bucket list \<Rightarrow>
     (apr_status \<times> bucket list) \<times> 't migrate_request option \<times> int" where
  "inputFilterBody2Brigade nxt wst pReadbytes req ctx pB =
     (case req of
        None \<Rightarrow> (nxt pB, req, ctx)
      | Some r \<Rightarrow>
          if \<not> mg_per_dir_config r then (nxt pB, req, ctx)
          else (case mg_info r of
            None \<Rightarrow> (nxt pB, req, ctx)
          | Some info \<Rightarrow>
              if ctx = -1 then (nxt pB, req, ctx)
              else
               (let r1 = (if ctx = 0 then r\<lparr>remaining := int (length (mi_mBody info))\<rparr> else r);
                    bSize = to_int32 (int (length (mi_mBody info)));
                    toRead = to_int32 (min (bSize - ctx) pReadbytes)
                in if toRead > 0 \<and> wst \<noteq> APR_SUCCESS then ((wst, pB), Some r1, ctx)
                   else
                    (let pB1 = (if toRead > 0
                           then pB @ [Data_bucket (Inr (take (nat toRead) (drop (nat ctx) (mi_mBody info))))]
                           else pB);
                         r2 = (if toRead > 0 then r1\<lparr>remaining := remaining r1 - toRead\<rparr> else r1);
                         rd = (if toRead > 0 then ctx + toRead else ctx)
                     in if rd \<ge> bSize then (nxt pB1, Some r2, -1)
                        else ((APR_SUCCESS, pB1), Some r2, rd)))))"

text \<open>\<open>insertInputFilter\<close>: whether the filter is added to the request; \<open>None\<close>
  is the failed assertion.\<close>

definition migrate_insertInputFilter :: "'t migrate_request \<Rightarrow> bool option" where
  "migrate_insertInputFilter r = map_option (\<lambda>(cp, conf). mDirName conf \<noteq> None) (mg_conf r)"

section \<open>What enriching sets\<close>

text \<open>The texts an environment rule is tried on, and the variables it yields.\<close>

definition env_parts :: "MigrateInfo \<Rightarrow> MigrateEnv \<Rightarrow> string list" where
  "env_parts info ctx =
     (if in_scope (mApplicationScope ctx) QUERY_STRING then [mi_mArgs info] else []) @
     (if in_scope (mApplicationScope ctx) BODY \<and> mi_mBody info \<noteq> [] then [mi_mBody info] else []) @
     (if in_scope (mApplicationScope ctx) HEADERS \<and> mi_mHeader info \<noteq> [] then [mi_mHeader info] else [])"

definition env_hits :: "ext_lib \<Rightarrow> MigrateInfo \<Rightarrow> MigrateEnv \<Rightarrow> key_val_list" where
  "env_hits E info ctx =
     [(mVarName ctx, c_str v). v \<leftarrow> map (\<lambda>s. regex_icase_extract E s (mMatchRegex ctx) (mSetValue ctx)) (env_parts info ctx),
        v \<noteq> []]"

definition put_env :: "'t apr_lib \<Rightarrow> key_val_list \<Rightarrow> 't migrate_request \<Rightarrow> 't migrate_request" where
  "put_env A hits r = r\<lparr>subprocess_env := fold (\<lambda>(k, v) t. apr_table_set A t k v) hits (subprocess_env r)\<rparr>"

lemma put_env_simps [simp]:
  "put_env A [] r = r" "put_env A hs (put_env A gs r) = put_env A (gs @ hs) r"
  by (simp_all add: put_env_def)

lemma count_set_put:
  "count_set (setEnvVar A ctx s (snd cr)) (fst cr) =
     (let hs = (if s \<noteq> [] then [(mVarName ctx, c_str s)] else [])
      in (fst cr + int (length hs), put_env A hs (snd cr)))"
  by (simp add: count_set_def setEnvVar_def put_env_def)

lemma enrich_one_put:
  "enrich_one E A info ctx cr =
     (fst cr + int (length (env_hits E info ctx)), put_env A (env_hits E info ctx) (snd cr))"
  by (simp add: enrich_one_def count_set_put env_hits_def env_parts_def Let_def)

lemma enrich_fold_put:
  "fold (enrich_one E A info) cs cr =
     (fst cr + int (length (concat (map (env_hits E info) cs))),
      put_env A (concat (map (env_hits E info) cs)) (snd cr))"
  by (induction cs arbitrary: cr) (simp_all add: enrich_one_put)

lemma find_append_lists: "find P (xs @ ys) = (case find P xs of None \<Rightarrow> find P ys | Some x \<Rightarrow> Some x)"
  by (induction xs) auto

lemma apr_get_fold_set:
  assumes "apr_documented A"
  shows "apr_table_get A (fold (\<lambda>(k, v) t. apr_table_set A t k v) hs t) k =
    (case find (\<lambda>kv. same_key (fst kv) k) (rev hs) of None \<Rightarrow> apr_table_get A t k | Some kv \<Rightarrow> Some (snd kv))"
proof (induction hs arbitrary: t)
  case (Cons h hs)
  then show ?case
    by (cases h) (auto simp: apr_get_set [OF assms] find_append_lists split: option.splits)
qed simp

text \<open>What \<open>enrichContext\<close> does in a location the module treats: it tries every rule, in
  the order of the configuration, on the parts of the request its scope covers (query string, body,
  headers; an empty body or header block is skipped), counts the non-empty results, and leaves in
  the environment, under each variable name, the last result for it; a variable with no result
  keeps its value, and nothing else of the request changes.\<close>

theorem migrate_env_meaning:
  assumes "apr_documented A" and "active_conf r = Some (cp, conf)"
  shows "\<exists>r'. enrichContext E A r info =
      (int (length (concat (map (env_hits E info) (mEnvLists conf)))), r') \<and>
    (\<forall>k. apr_table_get A (subprocess_env r') k =
       (case find (\<lambda>kv. same_key (fst kv) k) (rev (concat (map (env_hits E info) (mEnvLists conf)))) of
          None \<Rightarrow> apr_table_get A (subprocess_env r) k | Some kv \<Rightarrow> Some (snd kv))) \<and>
    r'\<lparr>subprocess_env := subprocess_env r\<rparr> = r"
  using assms(2) apr_get_fold_set [OF assms(1)]
  by (simp add: enrichContext_def enrich_fold_put put_env_def)

definition sample_request :: "MigrateConf \<Rightarrow> key_val_list migrate_request" where
  "sample_request conf = \<lparr>rq_status = 200, rq_method = ''POST'', rq_uri = ''/u'', rq_args = Some ''a=1'',
     rq_headers_in = [], rq_headers_out = [], rq_request_time = 0, rq_conf = None, rq_info = None,
     mg_per_dir_config = True, mg_conf = Some (7, conf), mg_info = None, subprocess_env = [],
     connection_pool = True, bucket_alloc = False, read_length = 0, remaining = 0\<rparr>"

definition sample_conf :: MigrateConf where
  "sample_conf = MigrateConf_init\<lparr>mDirName := Some ''/d'',
     mEnvLists := [\<lparr>mVarName = ''V'', mMatchRegex = ''b'', mSetValue = ''1'', mApplicationScope = ALL_SCOPES\<rparr>,
                   \<lparr>mVarName = ''v'', mMatchRegex = ''B'', mSetValue = ''2'', mApplicationScope = BODY\<rparr>,
                   \<lparr>mVarName = ''W'', mMatchRegex = ''a'', mSetValue = ''3'', mApplicationScope = PATH\<rparr>]\<rparr>"

lemma sample_active [simp]: "active_conf (sample_request sample_conf) = Some (7, sample_conf)"
  "mg_per_dir_config (sample_request sample_conf)" "connection_pool (sample_request sample_conf)"
  by (simp_all add: active_conf_def sample_request_def sample_conf_def)

lemma sample_env [simp]: "apr_table_get ref_apr (subprocess_env (sample_request conf)) k = None"
  by (simp add: sample_request_def ref_apr_def)

theorem migrate_env_meaning_witness:
  "\<exists>r'. enrichContext ref_lib ref_apr (sample_request sample_conf)
         \<lparr>mi_mId = ''i'', mi_mBody = ''abc'', mi_mArgs = ''a=1'', mi_mHeader = [], mi_mConf = None\<rparr> = (2, r') \<and>
       apr_table_get ref_apr (subprocess_env r') ''V'' = Some ''2'' \<and>
       apr_table_get ref_apr (subprocess_env r') ''W'' = None"
proof -
  let ?info = "\<lparr>mi_mId = ''i'', mi_mBody = ''abc'', mi_mArgs = ''a=1'', mi_mHeader = [], mi_mConf = None\<rparr>"
  have hits: "concat (map (env_hits ref_lib ?info) (mEnvLists sample_conf)) = [(''V'', ''1''), (''v'', ''2'')]"
    by (simp add: env_hits_def env_parts_def sample_conf_def ref_lib_def lit_search_def upper_char_def char_of_def
        bit_Suc_0_iff)
  have keys: "same_key ''V'' ''V''" "same_key ''v'' ''V''" "\<not> same_key ''V'' ''W''" "\<not> same_key ''v'' ''W''"
    by (simp_all add: same_key_def tolower_def)
  show ?thesis
    using migrate_env_meaning [OF ref_apr_documented sample_active(1), of ref_lib ?info]
    by (auto simp: hits keys sample_env)
qed

section \<open>The body is read and served\<close>

lemma hook_returns_iff:
  assumes "mg_per_dir_config r" and "active_conf r \<noteq> None" and "connection_pool r"
    and "bucket_alloc r \<or> alloc"
  shows "translateHook E A rnd alloc True bs r \<noteq> None \<longleftrightarrow> (\<exists>n. ends_body (bs n))"
proof -
  have "translateHook E A rnd alloc True bs r \<noteq> None \<longleftrightarrow>
      read_body bs 0 (mi_mBody (fst (migrate_makeRequestInfo E A rnd (r\<lparr>bucket_alloc := True\<rparr>)))) \<noteq> None"
    using assms by (auto simp: translateHook_def Let_def split: option.splits prod.splits)
  then show ?thesis unfolding read_body_returns_iff .
qed



text \<open>Successive calls of the filter, each with an empty brigade: what each delivered, and the
  request and context they leave.\<close>

fun serve_calls ::
    "next_filter \<Rightarrow> int list \<Rightarrow> 't migrate_request option \<times> int \<Rightarrow>
     (apr_status \<times> bucket list) list \<times> 't migrate_request option \<times> int" where
  "serve_calls nxt [] rc = ([], rc)"
| "serve_calls nxt (n # ns) (req, ctx) =
     (case inputFilterBody2Brigade nxt APR_SUCCESS n req ctx [] of (out, req', ctx') \<Rightarrow>
        case serve_calls nxt ns (req', ctx') of (outs, rc) \<Rightarrow> (out # outs, rc))"

lemma serve_calls_Cons:
  "fst (serve_calls nxt (n # ns) (req, ctx)) =
     (let res = inputFilterBody2Brigade nxt APR_SUCCESS n req ctx []
      in fst res # fst (serve_calls nxt ns (snd res)))"
  by (simp add: Let_def split: prod.splits)

lemma body2brigade_step:
  assumes "mg_info r = Some info" and "mg_per_dir_config r" and "0 \<le> ctx"
    and "to_int32 (int (length (mi_mBody info))) = bSize" and "to_int32 (min (bSize - ctx) n) = t"
    and nx: "\<And>b. brigade_text (snd (nxt b)) = brigade_text b"
  shows "let res = inputFilterBody2Brigade nxt APR_SUCCESS n (Some r) ctx [];
             rd = (if t > 0 then ctx + t else ctx)
         in brigade_text (snd (fst res)) = (if t > 0 then take (nat t) (drop (nat ctx) (mi_mBody info)) else []) \<and>
            snd (snd res) = (if rd \<ge> bSize then -1 else rd) \<and>
            (\<exists>r'. fst (snd res) = Some r' \<and> mg_info r' = Some info \<and> mg_per_dir_config r')"
  using assms(1-5) by (cases "ctx = 0") (simp_all add: inputFilterBody2Brigade_def Let_def nx)

lemma migrate_served:
  assumes "mg_info r = Some info" and "mg_per_dir_config r" and size: "length (mi_mBody info) < 2 ^ 31"
    and nx: "\<And>b. brigade_text (snd (nxt b)) = brigade_text b"
    and n: "0 \<le> n" and k: "k < length (mi_mBody info) \<or> k = 0"
  obtains out ctx' r' where
    "inputFilterBody2Brigade nxt APR_SUCCESS n (Some r) (int k) [] = (out, Some r', ctx')"
    "brigade_text (snd out) = take (nat n) (drop k (mi_mBody info))"
    "mg_info r' = Some info" "mg_per_dir_config r'"
    "ctx' = (if int k + n \<ge> int (length (mi_mBody info)) then -1 else int k + n)"
proof -
  let ?L = "int (length (mi_mBody info))"
  define t where "t = min (?L - int k) n"
  have L: "to_int32 ?L = ?L" using size by (intro to_int32_id) auto
  have T: "to_int32 (min (?L - int k) n) = t" unfolding t_def using size n k by (intro to_int32_id) auto
  have tx: "(if t > 0 then take (nat t) (drop k (mi_mBody info)) else []) = take (nat n) (drop k (mi_mBody info))"
    using n by (auto simp: t_def min_def)
  have rd: "(if t > 0 then int k + t else int k) \<ge> ?L \<longleftrightarrow> int k + n \<ge> ?L"
    "int k + n < ?L \<Longrightarrow> (if t > 0 then int k + t else int k) = int k + n"
    using n k by (auto simp: t_def)
  obtain out req ctx' where res: "inputFilterBody2Brigade nxt APR_SUCCESS n (Some r) (int k) [] = (out, req, ctx')"
    by (metis prod_cases3)
  then show thesis
    using body2brigade_step [OF assms(1,2) _ L T nx] that tx rd
    by (auto simp: Let_def split: if_splits)
qed

text \<open>From a position the filter has reached, the next calls deliver what they ask for of the rest;
  once done it delivers nothing.\<close>

definition rest_of :: "MigrateInfo \<Rightarrow> int \<Rightarrow> string" where
  "rest_of info ctx = (if ctx = -1 then [] else drop (nat ctx) (mi_mBody info))"

lemma serve_calls_rest:
  assumes "mg_info r = Some info" and "mg_per_dir_config r" and size: "length (mi_mBody info) < 2 ^ 31"
    and nx: "\<And>b. brigade_text (snd (nxt b)) = brigade_text b" and "\<forall>n \<in> set ns. 0 \<le> n"
    and "ctx = -1 \<or> ctx = 0 \<or> (0 \<le> ctx \<and> ctx < int (length (mi_mBody info)))"
  shows "concat (map (brigade_text \<circ> snd) (fst (serve_calls nxt ns (Some r, ctx)))) =
           take (nat (sum_list ns)) (rest_of info ctx)"
  using assms
proof (induction ns arbitrary: r ctx)
  case (Cons n ns)
  have n: "0 \<le> n" "0 \<le> sum_list ns" using Cons.prems(5) by (auto intro: sum_list_nonneg)
  show ?case
  proof (cases "ctx = -1")
    case True
    then show ?thesis
      using Cons.IH [OF Cons.prems(1-4), of ctx] Cons.prems
      by (simp add: serve_calls_Cons inputFilterBody2Brigade_def rest_of_def del: serve_calls.simps)
  next
    case False
    then obtain k where k: "ctx = int k" "k < length (mi_mBody info) \<or> k = 0"
      using Cons.prems(6) by (intro that [of "nat ctx"]) auto
    obtain out ctx' r' where s:
      "inputFilterBody2Brigade nxt APR_SUCCESS n (Some r) (int k) [] = (out, Some r', ctx')"
      "brigade_text (snd out) = take (nat n) (drop k (mi_mBody info))"
      "mg_info r' = Some info" "mg_per_dir_config r'"
      "ctx' = (if int k + n \<ge> int (length (mi_mBody info)) then -1 else int k + n)"
      by (rule migrate_served [OF Cons.prems(1-4) n(1) k(2)])
    have "concat (map (brigade_text \<circ> snd) (fst (serve_calls nxt ns (Some r', ctx')))) =
        take (nat (sum_list ns)) (rest_of info ctx')"
      using Cons.prems(3-5) s(3-5) n(1) by (intro Cons.IH) auto
    moreover have "rest_of info ctx' = drop (nat n) (drop k (mi_mBody info))"
      using n s(5) by (auto simp: rest_of_def nat_add_distrib add.commute)
    ultimately show ?thesis
      using s(1,2) k(1) n
      by (simp add: serve_calls_Cons rest_of_def nat_add_distrib take_add comp_def del: serve_calls.simps)
  qed
qed (simp add: rest_of_def)

text \<open>C26: The body a migrated request was sent with reaches the handlers unchanged: after the hook
  has read it from the input filters, the calls of the module's filter, whatever the sizes they ask
  for, deliver it in order, each byte once, and nothing more. The body must be shorter than
  \<open>2^31\<close> bytes, the range of the filter's \<open>int\<close>, and the rest of the chain, read to its
  end by the hook, must have no more data.\<close>

theorem migrate_body_replayed:
  assumes hook: "translateHook E A rnd alloc True bs r = Some (st, r')"
    and treated: "mg_per_dir_config r" "active_conf r \<noteq> None" "connection_pool r" "bucket_alloc r \<or> alloc"
    and stream: "ends_body (bs n)" "\<forall>i < n. \<not> ends_body (bs i)"
    and size: "length (stream_text bs 0 n) < 2 ^ 31"
    and nx: "\<forall>b. brigade_text (snd (nxt b)) = brigade_text b" and sizes: "\<forall>k \<in> set sizes. 0 \<le> k"
  shows "concat (map (brigade_text \<circ> snd) (fst (serve_calls nxt sizes (Some r', 0)))) =
    take (nat (sum_list sizes)) (stream_text bs 0 n)"
proof -
  have "read_body bs 0 content = Some (content @ stream_text bs 0 n)" for content
    using stream by (intro read_body_returns) auto
  then obtain info where "mg_info r' = Some info" "mi_mBody info = stream_text bs 0 n" "mg_per_dir_config r'"
    using hook treated
    by (auto simp: translateHook_def Let_def migrate_makeRequestInfo_def MigrateInfo_new_def enrichContext_def
        enrich_fold_put put_env_def getOrSetUniqueID_def split: option.splits prod.splits if_splits)
  then show ?thesis
    using serve_calls_rest [of r' info nxt sizes 0] size nx sizes by (simp add: rest_of_def)
qed

theorem migrate_body_replayed_witness:
  "let bs = (\<lambda>i. if i = 0 then Some [Data_bucket (Inr ''ab''), Metadata_bucket]
                 else Some [Data_bucket (Inr ''cd''), EOS_bucket]);
       r' = snd (the (translateHook ref_lib ref_apr None True True bs (sample_request sample_conf)))
   in concat (map (brigade_text \<circ> snd) (fst (serve_calls (\<lambda>b. (APR_SUCCESS, b @ [EOS_bucket])) [1, 0, 2, 8] (Some r', 0)))) = ''abcd''"
proof -
  let ?bs = "\<lambda>i :: nat. if i = 0 then Some [Data_bucket (Inr ''ab''), Metadata_bucket]
                 else Some [Data_bucket (Inr ''cd''), EOS_bucket]"
  have ends: "ends_body (?bs 1)" "\<forall>i < 1. \<not> ends_body (?bs i)" "stream_text ?bs 0 1 = ''abcd''"
    by (simp_all add: ends_body_def extractBrigadeContent_def stream_text_def)
  have "translateHook ref_lib ref_apr None True True ?bs (sample_request sample_conf) \<noteq> None"
    using hook_returns_iff [of "sample_request sample_conf" True ref_lib ref_apr None ?bs]
      sample_active ends(1) by blast
  then obtain st r' where hook: "translateHook ref_lib ref_apr None True True ?bs (sample_request sample_conf) = Some (st, r')"
    by auto
  show ?thesis
    unfolding Let_def hook
    using migrate_body_replayed [OF hook _ _ _ _ ends(1,2), of "\<lambda>b. (APR_SUCCESS, b @ [EOS_bucket])" "[1, 0, 2, 8]"]
      brigade_text_EOS ends(3) by simp
qed

end
