(* ===== verification/Migrate_Config.thy ===== *)
theory Migrate_Config
  imports Mod_Migrate
begin

text \<open>
  Reading the configuration of mod_migrate: the table of directives (mod_migrate.cc, \<open>gCmds\<close>) and the rules the directives
  of a location leave in its configuration.
\<close>

datatype migrate_directive = MigrateApplicationScope string | MigrateEnvDirective string string string

fun migrate_gCmds ::
    "ext_lib \<Rightarrow> migrate_parms \<Rightarrow> migrate_directive \<Rightarrow> MigrateConf option \<Rightarrow>
     dup_exception + (string option \<times> MigrateConf option)" where
  "migrate_gCmds E parms (MigrateApplicationScope a) cfg = Inr (migrate_setApplicationScope parms a cfg)"
| "migrate_gCmds E parms (MigrateEnvDirective a b c) cfg = setMigrateEnv E parms a b c cfg"

text \<open>The directives of one location; \<open>None\<close> if Apache stops at a message or the server ends with an exception.\<close>

fun migrate_config_run ::
    "ext_lib \<Rightarrow> migrate_parms \<Rightarrow> migrate_directive list \<Rightarrow> MigrateConf option \<Rightarrow> MigrateConf option option" where
  "migrate_config_run E parms [] cfg = Some cfg"
| "migrate_config_run E parms (d # ds) cfg =
     (case migrate_gCmds E parms d cfg of
        Inl e \<Rightarrow> None
      | Inr (Some msg, cfg') \<Rightarrow> None
      | Inr (None, cfg') \<Rightarrow> migrate_config_run E parms ds cfg')"

text \<open>The rules the directives ask for: each with the scope declared last before it.\<close>

fun migrate_rules :: "eApplicationScope \<Rightarrow> migrate_directive list \<Rightarrow> MigrateEnv list" where
  "migrate_rules sc [] = []"
| "migrate_rules sc (MigrateApplicationScope a # ds) =
     migrate_rules (case scope_stringToEnum a of None \<Rightarrow> sc | Some s \<Rightarrow> s) ds"
| "migrate_rules sc (MigrateEnvDirective a b c # ds) =
     \<lparr>mVarName = a, mMatchRegex = b, mSetValue = c, mApplicationScope = sc\<rparr> # migrate_rules sc ds"

lemma migrate_setActive_keeps:
  assumes "migrate_setActive parms (Some c) = (None, c')"
  shows "\<exists>d. c' = Some (c\<lparr>mDirName := Some d\<rparr>)"
proof (cases "mDirName c")
  case (Some a)
  then have "c' = Some c" using assms by (auto simp: migrate_setActive_def Let_def split: if_splits)
  then show ?thesis using Some by (intro exI [of _ a]) simp
qed (use assms in \<open>auto simp: migrate_setActive_def Let_def split: if_splits\<close>)

lemma migrate_directive_adds:
  assumes "migrate_gCmds E parms d (Some c) = Inr (None, cfg)"
  shows "\<exists>c'. cfg = Some c' \<and> mDirName c' \<noteq> None \<and>
    mEnvLists c' @ migrate_rules (mCurrentApplicationScope c') ds = mEnvLists c @ migrate_rules (mCurrentApplicationScope c) (d # ds)"
proof -
  obtain msg c1 where a: "migrate_setActive parms (Some c) = (msg, c1)" by fastforce
  have "msg = None" using assms a by (cases d) (auto simp: migrate_setApplicationScope_def setMigrateEnv_def split: option.splits)
  then obtain n where "c1 = Some (c\<lparr>mDirName := Some n\<rparr>)" using migrate_setActive_keeps a by blast
  then show ?thesis
    using assms a \<open>msg = None\<close>
    by (cases d) (auto simp: migrate_setApplicationScope_def setMigrateEnv_def split: option.splits if_splits)
qed

text \<open>An accepted location with at least one directive is active and holds the rules of its directives in order.\<close>

lemma migrate_configuration_rules:
  assumes "migrate_config_run E parms ds (Some c) = Some cfg"
  shows "\<exists>c'. cfg = Some c' \<and> mEnvLists c' = mEnvLists c @ migrate_rules (mCurrentApplicationScope c) ds \<and>
    (ds \<noteq> [] \<longrightarrow> mDirName c' \<noteq> None)"
  using assms
proof (induction ds arbitrary: c)
  case Nil
  then show ?case by auto
next
  case (Cons d ds)
  obtain cfg1 where d: "migrate_gCmds E parms d (Some c) = Inr (None, cfg1)"
      and ds: "migrate_config_run E parms ds cfg1 = Some cfg"
    using Cons.prems by (auto split: sum.splits option.splits prod.splits)
  obtain c1 where c1: "cfg1 = Some c1" "mDirName c1 \<noteq> None"
      "mEnvLists c1 @ migrate_rules (mCurrentApplicationScope c1) ds =
       mEnvLists c @ migrate_rules (mCurrentApplicationScope c) (d # ds)"
    using migrate_directive_adds [OF d, of ds] by blast
  obtain c' where "cfg = Some c'" "mEnvLists c' = mEnvLists c1 @ migrate_rules (mCurrentApplicationScope c1) ds"
      "ds \<noteq> [] \<longrightarrow> mDirName c' \<noteq> None"
    using Cons.IH [of c1] ds c1(1) by auto
  then show ?case using c1 ds by (cases ds) auto
qed

text \<open>C27: What the directives of a location of mod_migrate do to a request: if Apache accepts them, \<open>enrichContext\<close>
  tries the rules of the directives in their order, each on the parts of the request that the scope declared last before it
  covers, counts the non-empty results, and leaves in the environment, under each variable name, the last result for it; a
  variable with no result keeps its value, and nothing else of the request changes.\<close>

theorem migrate_directives_meaning:
  assumes "apr_documented A" "migrate_config_run E parms ds (Some migrate_createDirConfig) = Some (Some conf)" "ds \<noteq> []"
    and "mg_conf r = Some (cp, conf)"
  shows "\<exists>r'. enrichContext E A r info =
      (int (length (concat (map (env_hits E info) (migrate_rules ALL_SCOPES ds)))), r') \<and>
    (\<forall>k. apr_table_get A (subprocess_env r') k =
       (case find (\<lambda>kv. same_key (fst kv) k) (rev (concat (map (env_hits E info) (migrate_rules ALL_SCOPES ds)))) of
          None \<Rightarrow> apr_table_get A (subprocess_env r) k | Some kv \<Rightarrow> Some (snd kv))) \<and>
    r'\<lparr>subprocess_env := subprocess_env r\<rparr> = r"
proof -
  have c: "mEnvLists conf = migrate_rules ALL_SCOPES ds" "mDirName conf \<noteq> None"
    using migrate_configuration_rules [OF assms(2)] assms(3) by (auto simp: migrate_createDirConfig_def MigrateConf_init_def)
  then have "active_conf r = Some (cp, conf)" using assms(4) by (auto simp: active_conf_def)
  from migrate_env_meaning [OF assms(1) this, of E info] show ?thesis by (simp add: c(1))
qed

definition sample_directives :: "migrate_directive list" where
  "sample_directives = [MigrateEnvDirective ''V'' ''b'' ''1'', MigrateApplicationScope ''BODY'', MigrateEnvDirective ''v'' ''B'' ''2'',
     MigrateApplicationScope ''PATH'', MigrateEnvDirective ''W'' ''a'' ''3'']"

lemma sample_rules: "migrate_rules ALL_SCOPES sample_directives = mEnvLists sample_conf"
  by (simp add: sample_directives_def sample_conf_def scope_stringToEnum_def)

lemma sample_run:
  "migrate_config_run ref_lib \<lparr>mp_path = ''/d'', ap_find_linked_module = (\<lambda>_. True)\<rparr> sample_directives (Some migrate_createDirConfig) =
     Some (Some (sample_conf\<lparr>mCurrentApplicationScope := PATH\<rparr>))"
  by (simp add: sample_directives_def migrate_setApplicationScope_def setMigrateEnv_def migrate_setActive_def Let_def
      migrate_createDirConfig_def MigrateConf_init_def sample_conf_def scope_stringToEnum_def ref_lib_def)

theorem migrate_directives_meaning_witness:
  "\<exists>conf r'. migrate_config_run ref_lib \<lparr>mp_path = ''/d'', ap_find_linked_module = (\<lambda>_. True)\<rparr> sample_directives
         (Some migrate_createDirConfig) = Some (Some conf) \<and>
       enrichContext ref_lib ref_apr (sample_request conf)
         \<lparr>mi_mId = ''i'', mi_mBody = ''abc'', mi_mArgs = ''a=1'', mi_mHeader = [], mi_mConf = None\<rparr> = (2, r') \<and>
       apr_table_get ref_apr (subprocess_env r') ''V'' = Some ''2''"
proof -
  let ?info = "\<lparr>mi_mId = ''i'', mi_mBody = ''abc'', mi_mArgs = ''a=1'', mi_mHeader = [], mi_mConf = None\<rparr>"
  have hits: "concat (map (env_hits ref_lib ?info) (migrate_rules ALL_SCOPES sample_directives)) = [(''V'', ''1''), (''v'', ''2'')]"
    unfolding sample_rules
    by (simp add: env_hits_def env_parts_def sample_conf_def ref_lib_def lit_search_def upper_char_def char_of_def bit_Suc_0_iff)
  have keys: "same_key ''V'' ''V''" "same_key ''v'' ''V''" by (simp_all add: same_key_def tolower_def)
  have "sample_directives \<noteq> []" by (simp add: sample_directives_def)
  moreover have "mg_conf (sample_request (sample_conf\<lparr>mCurrentApplicationScope := PATH\<rparr>)) =
      Some (7, sample_conf\<lparr>mCurrentApplicationScope := PATH\<rparr>)"
    by (simp add: sample_request_def)
  ultimately show ?thesis
    using migrate_directives_meaning [OF ref_apr_documented sample_run, of "sample_request (sample_conf\<lparr>mCurrentApplicationScope := PATH\<rparr>)" 7
        ?info] sample_run
    by (auto simp: hits keys)
qed

end
