(* ===== verification/Utf8.thy ===== *)
theory Utf8
  imports Dup_Prelude
begin

text \<open>
  The part of the vendored utf8 library (extern/utf8/source/utf8/core.h, checked.h) that the utf8 json
  printer runs its output through: the decoder \<open>validate_next\<close>, the encoder \<open>append\<close>,
  the search for an invalid sequence and the replacement of invalid sequences. An iterator is the
  rest of the string from its position on; octets and code points are natural numbers, none of the
  operations comes near the width of its type.
\<close>

section \<open>Octets\<close>

definition mask8 :: "char \<Rightarrow> nat" where
  "mask8 oc = of_char oc"

definition octet :: "nat \<Rightarrow> char" where
  "octet n = char_of n"

definition is_trail :: "char \<Rightarrow> bool" where
  "is_trail oc \<longleftrightarrow> drop_bit 6 (mask8 oc) = 0x2"

definition is_surrogate :: "nat \<Rightarrow> bool" where
  "is_surrogate cp \<longleftrightarrow> 0xd800 \<le> cp \<and> cp \<le> 0xdfff"

definition CODE_POINT_MAX :: nat where
  "CODE_POINT_MAX = 0x10ffff"

definition is_code_point_valid :: "nat \<Rightarrow> bool" where
  "is_code_point_valid cp \<longleftrightarrow> cp \<le> CODE_POINT_MAX \<and> \<not> is_surrogate cp"

definition sequence_length :: "char \<Rightarrow> nat" where
  "sequence_length c =
     (let lead = mask8 c in
      if lead < 0x80 then 1
      else if drop_bit 5 lead = 0x6 then 2
      else if drop_bit 4 lead = 0xe then 3
      else if drop_bit 3 lead = 0x1e then 4
      else 0)"

definition is_overlong_sequence :: "nat \<Rightarrow> nat \<Rightarrow> bool" where
  "is_overlong_sequence cp len \<longleftrightarrow>
     (if cp < 0x80 then len \<noteq> 1
      else if cp < 0x800 then len \<noteq> 2
      else if cp < 0x10000 then len \<noteq> 3
      else False)"

section \<open>Decoding\<close>

datatype utf_error = NOT_ENOUGH_ROOM | INVALID_LEAD | INCOMPLETE_SEQUENCE | OVERLONG_SEQUENCE | INVALID_CODE_POINT

text \<open>On success the iterator stands on the next octet, a trail octet.\<close>

definition increase_safely :: "string \<Rightarrow> utf_error + string" where
  "increase_safely it =
     (case tl it of
        [] \<Rightarrow> Inl NOT_ENOUGH_ROOM
      | c # cs \<Rightarrow> if \<not> is_trail c then Inl INCOMPLETE_SEQUENCE else Inr (c # cs))"

definition get_sequence_1 :: "string \<Rightarrow> utf_error + (nat \<times> string)" where
  "get_sequence_1 it = (if it = [] then Inl NOT_ENOUGH_ROOM else Inr (mask8 (hd it), it))"

definition get_sequence_2 :: "string \<Rightarrow> utf_error + (nat \<times> string)" where
  "get_sequence_2 it =
     (if it = [] then Inl NOT_ENOUGH_ROOM
      else (let code_point = mask8 (hd it) in
        case increase_safely it of
          Inl e \<Rightarrow> Inl e
        | Inr it1 \<Rightarrow> Inr ((push_bit 6 code_point AND 0x7ff) + (mask8 (hd it1) AND 0x3f), it1)))"

definition get_sequence_3 :: "string \<Rightarrow> utf_error + (nat \<times> string)" where
  "get_sequence_3 it =
     (if it = [] then Inl NOT_ENOUGH_ROOM
      else (let code_point = mask8 (hd it) in
        case increase_safely it of
          Inl e \<Rightarrow> Inl e
        | Inr it1 \<Rightarrow>
            (let code_point1 = (push_bit 12 code_point AND 0xffff) + (push_bit 6 (mask8 (hd it1)) AND 0xfff) in
             case increase_safely it1 of
               Inl e \<Rightarrow> Inl e
             | Inr it2 \<Rightarrow> Inr (code_point1 + (mask8 (hd it2) AND 0x3f), it2))))"

definition get_sequence_4 :: "string \<Rightarrow> utf_error + (nat \<times> string)" where
  "get_sequence_4 it =
     (if it = [] then Inl NOT_ENOUGH_ROOM
      else (let code_point = mask8 (hd it) in
        case increase_safely it of
          Inl e \<Rightarrow> Inl e
        | Inr it1 \<Rightarrow>
            (let code_point1 = (push_bit 18 code_point AND 0x1fffff) + (push_bit 12 (mask8 (hd it1)) AND 0x3ffff) in
             case increase_safely it1 of
               Inl e \<Rightarrow> Inl e
             | Inr it2 \<Rightarrow>
                 (let code_point2 = code_point1 + (push_bit 6 (mask8 (hd it2)) AND 0xfff) in
                  case increase_safely it2 of
                    Inl e \<Rightarrow> Inl e
                  | Inr it3 \<Rightarrow> Inr (code_point2 + (mask8 (hd it3) AND 0x3f), it3)))))"

text \<open>The iterator is not at the end. An error leaves it where it was; on success it is past the
  sequence.\<close>

definition validate_next :: "string \<Rightarrow> utf_error + (nat \<times> string)" where
  "validate_next it =
     (let len = sequence_length (hd it);
          res = (if len = 0 then Inl INVALID_LEAD
                 else if len = 1 then get_sequence_1 it
                 else if len = 2 then get_sequence_2 it
                 else if len = 3 then get_sequence_3 it
                 else get_sequence_4 it)
      in case res of
           Inl e \<Rightarrow> Inl e
         | Inr (cp, it1) \<Rightarrow>
             if is_code_point_valid cp
             then (if \<not> is_overlong_sequence cp len then Inr (cp, tl it1) else Inl OVERLONG_SEQUENCE)
             else Inl INVALID_CODE_POINT)"

text \<open>The decoder by the octets that are there: \<open>checked\<close> are the final checks.\<close>

definition checked :: "nat \<Rightarrow> nat \<Rightarrow> string \<Rightarrow> utf_error + (nat \<times> string)" where
  "checked len cp rest =
     (if is_code_point_valid cp
      then (if \<not> is_overlong_sequence cp len then Inr (cp, rest) else Inl OVERLONG_SEQUENCE)
      else Inl INVALID_CODE_POINT)"

definition cp2 :: "char \<Rightarrow> char \<Rightarrow> nat" where
  "cp2 c d = (push_bit 6 (mask8 c) AND 0x7ff) + (mask8 d AND 0x3f)"

definition cp3 :: "char \<Rightarrow> char \<Rightarrow> char \<Rightarrow> nat" where
  "cp3 c d e = (push_bit 12 (mask8 c) AND 0xffff) + (push_bit 6 (mask8 d) AND 0xfff) + (mask8 e AND 0x3f)"

definition cp4 :: "char \<Rightarrow> char \<Rightarrow> char \<Rightarrow> char \<Rightarrow> nat" where
  "cp4 c d e f = (push_bit 18 (mask8 c) AND 0x1fffff) + (push_bit 12 (mask8 d) AND 0x3ffff) +
     (push_bit 6 (mask8 e) AND 0xfff) + (mask8 f AND 0x3f)"

fun utf8_decode :: "string \<Rightarrow> utf_error + (nat \<times> string)" where
  "utf8_decode [] = Inl NOT_ENOUGH_ROOM"
| "utf8_decode (c # cs) =
     (if sequence_length c = 0 then Inl INVALID_LEAD
      else if sequence_length c = 1 then checked 1 (mask8 c) cs
      else
       (case cs of
          [] \<Rightarrow> Inl NOT_ENOUGH_ROOM
        | d # ds \<Rightarrow>
            if \<not> is_trail d then Inl INCOMPLETE_SEQUENCE
            else if sequence_length c = 2 then checked 2 (cp2 c d) ds
            else
             (case ds of
                [] \<Rightarrow> Inl NOT_ENOUGH_ROOM
              | e # es \<Rightarrow>
                  if \<not> is_trail e then Inl INCOMPLETE_SEQUENCE
                  else if sequence_length c = 3 then checked 3 (cp3 c d e) es
                  else
                   (case es of
                      [] \<Rightarrow> Inl NOT_ENOUGH_ROOM
                    | f # fs \<Rightarrow>
                        if \<not> is_trail f then Inl INCOMPLETE_SEQUENCE else checked 4 (cp4 c d e f) fs))))"

lemma sequence_length_range: "sequence_length c \<in> {0, 1, 2, 3, 4}"
  by (simp add: sequence_length_def Let_def)

lemma validate_next_decode: "validate_next (c # cs) = utf8_decode (c # cs)"
proof -
  consider "sequence_length c = 0" | "sequence_length c = 1" | "sequence_length c = 2"
    | "sequence_length c = 3" | "sequence_length c = 4"
    using sequence_length_range [of c] by (elim insertE emptyE)
  then show ?thesis
    by cases (simp_all add: validate_next_def get_sequence_1_def get_sequence_2_def get_sequence_3_def
        get_sequence_4_def increase_safely_def checked_def cp2_def cp3_def cp4_def Let_def split: list.splits)
qed

text \<open>An accepted sequence does not depend on what follows it.\<close>

lemma checked_Inr [simp]:
  "checked len cp rest = Inr (cp', rest') \<longleftrightarrow>
     cp' = cp \<and> rest' = rest \<and> is_code_point_valid cp \<and> \<not> is_overlong_sequence cp len"
  by (auto simp: checked_def)

lemma decode_split:
  assumes "utf8_decode s = Inr (cp, rest)"
  shows "\<exists>p. s = p @ rest \<and> p \<noteq> [] \<and> (\<forall>q. utf8_decode (p @ q) = Inr (cp, q))"
proof -
  obtain c cs where s: "s = c # cs" using assms by (cases s) auto
  note d = assms [unfolded s]
  consider "sequence_length c = 1" | "sequence_length c = 2" | "sequence_length c = 3" | "sequence_length c = 4"
    using sequence_length_range [of c] d by fastforce
  then show ?thesis
  proof cases
    case 1
    with d show ?thesis by (intro exI [of _ "[c]"]) (auto simp: s)
  next
    case 2
    with d show ?thesis by (intro exI [of _ "take 2 s"]) (auto simp: s split: list.splits if_splits)
  next
    case 3
    with d show ?thesis by (intro exI [of _ "take 3 s"]) (auto simp: s split: list.splits if_splits)
  next
    case 4
    with d show ?thesis by (intro exI [of _ "take 4 s"]) (auto simp: s split: list.splits if_splits)
  qed
qed

lemma validate_next_split:
  assumes "s \<noteq> []" and "validate_next s = Inr (cp, rest)"
  shows "\<exists>p. s = p @ rest \<and> p \<noteq> [] \<and> (\<forall>q. validate_next (p @ q) = Inr (cp, q))"
proof -
  obtain c cs where s: "s = c # cs" using assms by (cases s) auto
  obtain p where p: "s = p @ rest" "p \<noteq> []" "\<forall>q. utf8_decode (p @ q) = Inr (cp, q)"
    using decode_split [of s cp rest] assms(2) validate_next_decode [of c cs] s by auto
  then have "validate_next (p @ q) = utf8_decode (p @ q)" for q
    using validate_next_decode [of "hd p" "tl p @ q"] by (cases p) auto
  with p show ?thesis by auto
qed

lemma validate_next_shorter:
  "s \<noteq> [] \<Longrightarrow> validate_next s = Inr (cp, rest) \<Longrightarrow> length rest < length s"
  using validate_next_split [of s cp rest] by fastforce

section \<open>Encoding\<close>

text \<open>\<open>None\<close> is the exception \<open>invalid_code_point\<close>.\<close>

definition utf8_append :: "nat \<Rightarrow> string \<Rightarrow> string option" where
  "utf8_append cp out =
     (if \<not> is_code_point_valid cp then None
      else if cp < 0x80 then Some (out @ [octet cp])
      else if cp < 0x800
      then Some (out @ [octet (drop_bit 6 cp OR 0xc0), octet ((cp AND 0x3f) OR 0x80)])
      else if cp < 0x10000
      then Some (out @ [octet (drop_bit 12 cp OR 0xe0), octet ((drop_bit 6 cp AND 0x3f) OR 0x80),
                        octet ((cp AND 0x3f) OR 0x80)])
      else Some (out @ [octet (drop_bit 18 cp OR 0xf0), octet ((drop_bit 12 cp AND 0x3f) OR 0x80),
                        octet ((drop_bit 6 cp AND 0x3f) OR 0x80), octet ((cp AND 0x3f) OR 0x80)]))"

section \<open>Finding and replacing invalid sequences\<close>

function find_invalid :: "string \<Rightarrow> string" where
  "find_invalid [] = []"
| "find_invalid (c # cs) =
     (case validate_next (c # cs) of Inl err_code \<Rightarrow> c # cs | Inr (cp, result) \<Rightarrow> find_invalid result)"
  by pat_completeness auto
termination
  by (relation "measure length") (auto dest: validate_next_shorter [rotated])

definition is_valid :: "string \<Rightarrow> bool" where
  "is_valid s \<longleftrightarrow> find_invalid s = []"

datatype utf8_exception = not_enough_room | invalid_code_point

text \<open>The output so far is the second argument.\<close>

function replace_loop :: "nat \<Rightarrow> string \<Rightarrow> string \<Rightarrow> utf8_exception + string" where
  "replace_loop replacement [] out = Inr out"
| "replace_loop replacement (c # cs) out =
     (case validate_next (c # cs) of
        Inr (cp, start) \<Rightarrow>
          replace_loop replacement start (out @ take (length (c # cs) - length start) (c # cs))
      | Inl NOT_ENOUGH_ROOM \<Rightarrow> Inl not_enough_room
      | Inl INVALID_LEAD \<Rightarrow>
          (case utf8_append replacement out of
             None \<Rightarrow> Inl invalid_code_point
           | Some out1 \<Rightarrow> replace_loop replacement cs out1)
      | Inl _ \<Rightarrow>
          (case utf8_append replacement out of
             None \<Rightarrow> Inl invalid_code_point
           | Some out1 \<Rightarrow> replace_loop replacement (dropWhile is_trail cs) out1))"
  by pat_completeness auto
termination
  by (relation "measure (\<lambda>(r, s, out). length s)")
     (auto dest: validate_next_shorter [rotated] simp: le_imp_less_Suc length_dropWhile_le)

definition replace_invalid :: "string \<Rightarrow> utf8_exception + string" where
  "replace_invalid s = replace_loop 0xfffd s []"

section \<open>Decoding what was encoded\<close>

lemma mask8_octet [simp]: "n < 256 \<Longrightarrow> mask8 (octet n) = n"
  by (simp add: mask8_def octet_def)

lemma low_or_high: "(a :: nat) < 2 ^ n \<Longrightarrow> a OR push_bit n b = a + push_bit n b"
proof -
  assume "a < 2 ^ n"
  then have "m < n" if "bit a m" for m using that by (metis bit_take_bit_iff take_bit_nat_eq_self)
  then show ?thesis by (intro disjunctive_add [symmetric]) (metis bit_push_bit_iff_nat not_le)
qed

lemma or_marks:
  "(a :: nat) < 0x40 \<Longrightarrow> a OR 0x80 = a + 0x80" "(a :: nat) < 0x20 \<Longrightarrow> a OR 0xc0 = a + 0xc0"
  "(a :: nat) < 0x10 \<Longrightarrow> a OR 0xe0 = a + 0xe0" "(a :: nat) < 0x8 \<Longrightarrow> a OR 0xf0 = a + 0xf0"
  using low_or_high [of a 6 2] low_or_high [of a 6 3] low_or_high [of a 5 7] low_or_high [of a 4 15]
  by (simp_all add: push_bit_eq_mult)

lemma and_masks:
  "(a :: nat) AND 0x3f = a mod 0x40" "(a :: nat) AND 0x7ff = a mod 0x800"
  "(a :: nat) AND 0xfff = a mod 0x1000" "(a :: nat) AND 0xffff = a mod 0x10000"
  "(a :: nat) AND 0x3ffff = a mod 0x40000" "(a :: nat) AND 0x1fffff = a mod 0x200000"
proof -
  have m: "a AND (2 ^ n - 1) = a mod 2 ^ n" for n
    by (metis mask_eq_exp_minus_1 take_bit_eq_mask take_bit_eq_mod)
  show "a AND 0x3f = a mod 0x40" "a AND 0x7ff = a mod 0x800" "a AND 0xfff = a mod 0x1000"
    "a AND 0xffff = a mod 0x10000" "a AND 0x3ffff = a mod 0x40000" "a AND 0x1fffff = a mod 0x200000"
    using m [of 6] m [of 11] m [of 12] m [of 16] m [of 18] m [of 21] by simp_all
qed

lemma trail_octet [simp]: "l < 64 \<Longrightarrow> is_trail (octet (l + 128))"
  by (simp add: is_trail_def drop_bit_eq_div div_nat_eqI)

lemma lead_octets:
  "h < 0x80 \<Longrightarrow> sequence_length (octet h) = 1" "h < 0x20 \<Longrightarrow> sequence_length (octet (h + 0xc0)) = 2"
  "h < 0x10 \<Longrightarrow> sequence_length (octet (h + 0xe0)) = 3" "h < 0x8 \<Longrightarrow> sequence_length (octet (h + 0xf0)) = 4"
proof -
  have "(h + 0xc0) div 32 = 6" if "h < 0x20" using that by (intro div_nat_eqI) auto
  moreover have "(h + 0xe0) div 32 = 7" "(h + 0xe0) div 16 = 14" if "h < 0x10"
    using that by (auto intro!: div_nat_eqI)
  moreover have "(h + 0xf0) div 32 = 7" "(h + 0xf0) div 16 = 15" "(h + 0xf0) div 8 = 30" if "h < 0x8"
    using that by (auto intro!: div_nat_eqI)
  ultimately show "h < 0x80 \<Longrightarrow> sequence_length (octet h) = 1"
    "h < 0x20 \<Longrightarrow> sequence_length (octet (h + 0xc0)) = 2" "h < 0x10 \<Longrightarrow> sequence_length (octet (h + 0xe0)) = 3"
    "h < 0x8 \<Longrightarrow> sequence_length (octet (h + 0xf0)) = 4"
    by (simp_all add: sequence_length_def drop_bit_eq_div)
qed

lemma six_bits: "l < 64 \<Longrightarrow> (l + 128) mod 64 = (l :: nat)"
  by (rule mod_nat_eqI) auto

lemma cp2_octets: "h < 32 \<Longrightarrow> l < 64 \<Longrightarrow> cp2 (octet (h + 192)) (octet (l + 128)) = 64 * h + l"
proof -
  assume h: "h < 32" and l: "l < 64"
  have "(h + 192) * 64 mod 2048 = 64 * h" by (rule mod_nat_eqI) (use h in auto)
  then show ?thesis using h l by (simp add: cp2_def and_masks push_bit_eq_mult six_bits)
qed

lemma cp3_octets:
  "h < 16 \<Longrightarrow> m < 64 \<Longrightarrow> l < 64 \<Longrightarrow>
     cp3 (octet (h + 224)) (octet (m + 128)) (octet (l + 128)) = 4096 * h + 64 * m + l"
proof -
  assume h: "h < 16" and m: "m < 64" and l: "l < 64"
  have "(h + 224) * 4096 mod 65536 = 4096 * h" by (rule mod_nat_eqI) (use h in auto)
  moreover have "(m + 128) * 64 mod 4096 = 64 * m" by (rule mod_nat_eqI) (use m in auto)
  ultimately show ?thesis using h m l by (simp add: cp3_def and_masks push_bit_eq_mult six_bits)
qed

lemma cp4_octets:
  "h < 8 \<Longrightarrow> n < 64 \<Longrightarrow> m < 64 \<Longrightarrow> l < 64 \<Longrightarrow>
     cp4 (octet (h + 240)) (octet (n + 128)) (octet (m + 128)) (octet (l + 128)) =
       262144 * h + 4096 * n + 64 * m + l"
proof -
  assume h: "h < 8" and n: "n < 64" and m: "m < 64" and l: "l < 64"
  have "(h + 240) * 262144 mod 2097152 = 262144 * h" by (rule mod_nat_eqI) (use h in auto)
  moreover have "(n + 128) * 4096 mod 262144 = 4096 * n" by (rule mod_nat_eqI) (use n in auto)
  moreover have "(m + 128) * 64 mod 4096 = 64 * m" by (rule mod_nat_eqI) (use m in auto)
  ultimately show ?thesis using h n m l by (simp add: cp4_def and_masks push_bit_eq_mult six_bits)
qed

text \<open>The octets \<open>append\<close> writes for a code point are decoded to that code point, whatever
  follows them.\<close>

definition octets_of :: "nat \<Rightarrow> string" where
  "octets_of cp =
     (if cp < 0x80 then [octet cp]
      else if cp < 0x800 then [octet (cp div 64 + 0xc0), octet (cp mod 64 + 0x80)]
      else if cp < 0x10000
      then [octet (cp div 4096 + 0xe0), octet (cp div 64 mod 64 + 0x80), octet (cp mod 64 + 0x80)]
      else [octet (cp div 262144 + 0xf0), octet (cp div 4096 mod 64 + 0x80), octet (cp div 64 mod 64 + 0x80),
            octet (cp mod 64 + 0x80)])"

lemma utf8_append_octets:
  "is_code_point_valid cp \<Longrightarrow> utf8_append cp out = Some (out @ octets_of cp)"
proof -
  assume "is_code_point_valid cp"
  moreover have "cp div 64 < 32" if "cp < 0x800" using that by (simp add: div_less_iff_less_mult)
  moreover have "cp div 4096 < 16" if "cp < 0x10000" using that by (simp add: div_less_iff_less_mult)
  moreover have "cp div 262144 < 8" if "cp \<le> 0x10ffff" using that by (simp add: div_less_iff_less_mult)
  ultimately show ?thesis
    by (simp add: utf8_append_def octets_of_def is_code_point_valid_def CODE_POINT_MAX_def drop_bit_eq_div
        and_masks or_marks)
qed

lemma div_mod_parts:
  "64 * (cp div 64) + cp mod 64 = (cp :: nat)"
  "4096 * (cp div 4096) + 64 * (cp div 64 mod 64) + cp mod 64 = (cp :: nat)"
  "262144 * (cp div 262144) + 4096 * (cp div 4096 mod 64) + 64 * (cp div 64 mod 64) + cp mod 64 = (cp :: nat)"
proof -
  show a: "64 * (cp div 64) + cp mod 64 = cp" by simp
  have e: "cp div 4096 = cp div 64 div 64" "cp div 262144 = cp div 4096 div 64" by (simp_all flip: div_mult2_eq)
  have "64 * (cp div 64 div 64) + cp div 64 mod 64 = cp div 64" by simp
  with a e show b: "4096 * (cp div 4096) + 64 * (cp div 64 mod 64) + cp mod 64 = cp" by linarith
  have "64 * (cp div 4096 div 64) + cp div 4096 mod 64 = cp div 4096" by simp
  with b e show "262144 * (cp div 262144) + 4096 * (cp div 4096 mod 64) + 64 * (cp div 64 mod 64) + cp mod 64 = cp"
    by linarith
qed

lemma decode_octets:
  assumes v: "is_code_point_valid cp"
  shows "validate_next (octets_of cp @ q) = Inr (cp, q)"
proof -
  have le: "cp \<le> 0x10ffff" using v by (simp add: is_code_point_valid_def CODE_POINT_MAX_def)
  consider "cp < 0x80" | "0x80 \<le> cp" "cp < 0x800" | "0x800 \<le> cp" "cp < 0x10000" | "0x10000 \<le> cp" by linarith
  then show ?thesis
  proof cases
    case 1
    then show ?thesis
      using v by (simp add: octets_of_def validate_next_decode lead_octets is_overlong_sequence_def)
  next
    case 2
    then have "cp div 64 < 32" by (simp add: div_less_iff_less_mult)
    with 2 v show ?thesis
      by (simp add: octets_of_def validate_next_decode lead_octets cp2_octets div_mod_parts is_overlong_sequence_def
          del: mult_div_mod_eq)
  next
    case 3
    then have "cp div 4096 < 16" by (simp add: div_less_iff_less_mult)
    with 3 v show ?thesis
      by (simp add: octets_of_def validate_next_decode lead_octets cp3_octets div_mod_parts is_overlong_sequence_def)
  next
    case 4
    have "cp div 262144 < 8" using le by (simp add: div_less_iff_less_mult)
    with 4 v show ?thesis
      by (simp add: octets_of_def validate_next_decode lead_octets cp4_octets div_mod_parts is_overlong_sequence_def)
  qed
qed

section \<open>Replacing makes the text valid\<close>

lemma is_valid_simps [simp]:
  "is_valid []"
  "is_valid (c # cs) \<longleftrightarrow> (case validate_next (c # cs) of Inl e \<Rightarrow> False | Inr (cp, rest) \<Rightarrow> is_valid rest)"
  by (simp_all add: is_valid_def split: sum.splits prod.splits)

lemma is_valid_step:
  "p \<noteq> [] \<Longrightarrow> validate_next (p @ q) = Inr (cp, q) \<Longrightarrow> is_valid (p @ q) \<longleftrightarrow> is_valid q"
  by (cases p) auto

lemma is_valid_append: "is_valid p \<Longrightarrow> is_valid q \<Longrightarrow> is_valid (p @ q)"
proof (induction p rule: find_invalid.induct)
  case (2 c cs)
  from "2.prems"(1) obtain cp rest where v: "validate_next (c # cs) = Inr (cp, rest)" "is_valid rest"
    by (auto split: sum.splits)
  obtain p where p: "c # cs = p @ rest" "p \<noteq> []" "\<And>q. validate_next (p @ q) = Inr (cp, q)"
    using validate_next_split [of "c # cs" cp rest] v(1) by auto
  have "is_valid (rest @ q)" using 2 v by simp
  then show ?case using is_valid_step [OF p(2), of "rest @ q" cp] p(1,3) by (metis append.assoc)
qed simp

lemma accepted_valid:
  assumes "s \<noteq> []" and "validate_next s = Inr (cp, rest)"
  shows "is_valid (take (length s - length rest) s)"
proof -
  obtain p where p: "s = p @ rest" "p \<noteq> []" "\<And>q. validate_next (p @ q) = Inr (cp, q)"
    using validate_next_split [OF assms] by auto
  then show ?thesis using is_valid_step [OF p(2), of "[]" cp] p(3) [of "[]"] by simp
qed

lemma marker_ok: "is_code_point_valid 0xfffd"
  by (simp add: is_code_point_valid_def CODE_POINT_MAX_def is_surrogate_def)

lemma octets_of_nonempty: "octets_of cp \<noteq> []"
  by (simp add: octets_of_def)

lemma octets_of_valid: "is_code_point_valid cp \<Longrightarrow> is_valid (octets_of cp)"
  using is_valid_step [OF octets_of_nonempty, of cp "[]" cp] decode_octets [of cp "[]"] by simp

lemmas append_marker = utf8_append_octets [OF marker_ok]
lemmas marker_valid = octets_of_valid [OF marker_ok]

lemma replace_loop_valid:
  "replace_loop 0xfffd s out = Inr t \<Longrightarrow> is_valid out \<Longrightarrow> is_valid t"
proof (induction "0xfffd :: nat" s out rule: replace_loop.induct)
  case (2 c cs out)
  show ?case
  proof (cases "validate_next (c # cs)")
    case (Inr r)
    obtain cp start where r: "r = (cp, start)" by (cases r)
    with 2 Inr accepted_valid [of "c # cs" cp start] is_valid_append show ?thesis by auto
  next
    case (Inl e)
    with 2 is_valid_append [OF _ marker_valid] show ?thesis by (cases e) (auto simp: append_marker)
  qed
qed simp

text \<open>A valid text is left as it is.\<close>

lemma replace_loop_id: "is_valid s \<Longrightarrow> replace_loop r s out = Inr (out @ s)"
proof (induction s arbitrary: out rule: find_invalid.induct)
  case (2 c cs)
  from "2.prems" obtain cp rest where v: "validate_next (c # cs) = Inr (cp, rest)" "is_valid rest"
    by (auto split: sum.splits)
  obtain p where p: "c # cs = p @ rest" using validate_next_split [of "c # cs" cp rest] v(1) by auto
  then have "take (length (c # cs) - length rest) (c # cs) @ rest = c # cs" by simp
  with 2 v show ?case by simp
qed simp

text \<open>The decoder runs out of octets only at the end of the text, inside a sequence.\<close>

definition ascii_end :: "string \<Rightarrow> bool" where
  "ascii_end s \<longleftrightarrow> s = [] \<or> mask8 (last s) < 0x80"

lemma room_at_ascii_end:
  assumes "ascii_end s" and "s \<noteq> []"
  shows "validate_next s \<noteq> Inl NOT_ENOUGH_ROOM"
proof -
  obtain c cs where s: "s = c # cs" using assms(2) by (cases s) auto
  have "sequence_length (last s) = 1" "\<not> is_trail (last s)"
    using assms by (auto simp: ascii_end_def sequence_length_def is_trail_def drop_bit_eq_div Let_def)
  then show ?thesis
    unfolding s validate_next_decode by (auto simp: checked_def split: list.splits if_splits)
qed

lemma ascii_end_suffix: "ascii_end (p @ q) \<Longrightarrow> ascii_end q"
  by (cases "q = []") (auto simp: ascii_end_def)

lemma replace_loop_total: "ascii_end s \<Longrightarrow> \<exists>t. replace_loop 0xfffd s out = Inr t"
proof (induction "0xfffd :: nat" s out rule: replace_loop.induct)
  case (2 c cs out)
  have cs: "ascii_end cs" using ascii_end_suffix [of "[c]" cs] "2.prems" by simp
  have trimmed: "ascii_end (dropWhile is_trail cs)"
    using ascii_end_suffix [of "takeWhile is_trail cs" "dropWhile is_trail cs"] cs by simp
  show ?case
  proof (cases "validate_next (c # cs)")
    case (Inr r)
    obtain cp start where r: "r = (cp, start)" by (cases r)
    obtain p where "c # cs = p @ start" using validate_next_split [of "c # cs" cp start] Inr r by auto
    then have "ascii_end start" using ascii_end_suffix "2.prems" by metis
    with 2 Inr r show ?thesis by simp
  next
    case (Inl e)
    with 2 cs trimmed room_at_ascii_end [of "c # cs"] show ?thesis by (cases e) (simp_all add: append_marker)
  qed
qed simp

lemma replace_loop_nonempty:
  "replace_loop 0xfffd s out = Inr t \<Longrightarrow> s \<noteq> [] \<or> out \<noteq> [] \<Longrightarrow> t \<noteq> []"
proof (induction "0xfffd :: nat" s out rule: replace_loop.induct)
  case (2 c cs out)
  show ?case
  proof (cases "validate_next (c # cs)")
    case (Inr r)
    obtain cp start where r: "r = (cp, start)" by (cases r)
    then have "length start < length (c # cs)" using validate_next_shorter [of "c # cs" cp start] Inr by simp
    with 2 Inr r show ?thesis by auto
  next
    case (Inl e)
    moreover have "octets_of 65533 \<noteq> []" by (simp add: octets_of_def)
    ultimately show ?thesis using 2 by (cases e) (auto simp: append_marker)
  qed
qed simp

lemma replace_invalid_nonempty: "replace_invalid s = Inr t \<Longrightarrow> s \<noteq> [] \<Longrightarrow> t \<noteq> []"
  using replace_loop_nonempty [of s "[]" t] by (simp add: replace_invalid_def)

text \<open>C39: \<open>replace_invalid\<close> gives valid text: whatever it returns is valid UTF-8; a valid text is
  returned unchanged; and on a text whose last octet is ASCII, such as a json document, it returns
  and never throws. Encoding a valid code point and decoding it again gives it back.\<close>

theorem replace_invalid_sanitises:
  "(\<forall>t. replace_invalid s = Inr t \<longrightarrow> is_valid t) \<and>
   (is_valid s \<longrightarrow> replace_invalid s = Inr s) \<and>
   (ascii_end s \<longrightarrow> (\<exists>t. replace_invalid s = Inr t)) \<and>
   (is_code_point_valid cp \<longrightarrow>
      (\<exists>u. utf8_append cp [] = Some u \<and> is_valid u \<and> validate_next (u @ s) = Inr (cp, s)))"
  using replace_loop_valid [where s = s and out = "[]"] replace_loop_id [where s = s and out = "[]"]
    replace_loop_total [where s = s and out = "[]"] utf8_append_octets [where cp = cp and out = "[]"] octets_of_valid [where cp = cp]
    decode_octets [where cp = cp and q = s]
  by (auto simp: replace_invalid_def)

theorem replace_invalid_sanitises_witness:
  "\<exists>t u. ascii_end [octet 0xff, CHR ''a''] \<and> replace_invalid [octet 0xff, CHR ''a''] = Inr t \<and> is_valid t \<and>
     utf8_append 0xe9 [] = Some u \<and> is_valid u"
proof -
  have "ascii_end [octet 0xff, CHR ''a'']" by (simp add: ascii_end_def mask8_def)
  moreover have "is_code_point_valid 0xe9"
    by (simp add: is_code_point_valid_def CODE_POINT_MAX_def is_surrogate_def)
  ultimately show ?thesis
    using replace_invalid_sanitises [of "[octet 0xff, CHR ''a'']" "0xe9"] by blast
qed

end
