(* ===== verification/Diff_Printer.thy ===== *)
theory Diff_Printer
  imports Request_Info Std_Map Utf8
begin

text \<open>
  The diff printers of libws_diff (DiffPrinter/*.cc): the abstract class \<open>diffPrinter\<close> as
  the locale \<open>diff_printer\<close>, its implementations \<open>multilineDiffPrinter\<close>,
  \<open>jsonDiffPrinter\<close> and \<open>utf8JsonDiffPrinter\<close>, and the dispatch between them. The json
  values of jsoncpp are a parameter, a type \<open>'j\<close> with the functions of \<open>diff_lib\<close>.
\<close>

section \<open>Libraries\<close>

datatype json_leaf = JString string | JInt int | JDouble int | JArray "string list"

record 'j diff_lib =
  json_new :: 'j
  json_set :: "string list \<Rightarrow> json_leaf \<Rightarrow> 'j \<Rightarrow> 'j"
    \<comment> \<open>assignment to the member the keys lead to\<close>
  json_member :: "string list \<Rightarrow> 'j \<Rightarrow> bool"
  json_write :: "'j \<Rightarrow> string"
    \<comment> \<open>\<open>Json::FastWriter\<close>\<close>
  print_double :: "int \<Rightarrow> string"
    \<comment> \<open>\<open>lexical_cast\<close> of a \<open>double\<close> with that integral value\<close>

datatype diffTypeAvailable = JSON | UTF8JSON | MULTILINE

fun diffTypeStr :: "diffTypeAvailable \<Rightarrow> string" where
  "diffTypeStr MULTILINE = ''MULTILINE''"
| "diffTypeStr JSON = ''SIMPLEJSON''"
| "diffTypeStr UTF8JSON = ''UTF8JSON''"

section \<open>The multiline printer\<close>

text \<open>The parts of the output, in the order of the enumeration.\<close>

datatype diffPartitionning =
  P_BEGIN | P_INFO | P_RUNTIME | P_STATUS | P_URI | P_HEADER | P_BODY | P_CASSDIFF | P_HEADERDIFF | P_BODYDIFF

fun part_index :: "diffPartitionning \<Rightarrow> nat" where
  "part_index P_BEGIN = 0"
| "part_index P_INFO = 1"
| "part_index P_RUNTIME = 2"
| "part_index P_STATUS = 3"
| "part_index P_URI = 4"
| "part_index P_HEADER = 5"
| "part_index P_BODY = 6"
| "part_index P_CASSDIFF = 7"
| "part_index P_HEADERDIFF = 8"
| "part_index P_BODYDIFF = 9"

lemma part_index_inj: "part_index a = part_index b \<longleftrightarrow> a = b"
  by (cases a; cases b) simp_all

instantiation diffPartitionning :: linorder
begin

definition less_eq_diffPartitionning :: "diffPartitionning \<Rightarrow> diffPartitionning \<Rightarrow> bool" where
  "less_eq_diffPartitionning a b \<longleftrightarrow> part_index a \<le> part_index b"

definition less_diffPartitionning :: "diffPartitionning \<Rightarrow> diffPartitionning \<Rightarrow> bool" where
  "less_diffPartitionning a b \<longleftrightarrow> part_index a < part_index b"

instance
  by standard (auto simp: less_eq_diffPartitionning_def less_diffPartitionning_def part_index_inj)

end

record multilineDiffPrinter =
  ml_isADiff :: bool
  ml_id :: string
  hadPreviousCassDiff :: bool
  streams :: "(diffPartitionning, string) std_map"

definition SEPARATOR :: string where
  "SEPARATOR = ''-------------------'' @ [NL]"

fun prettyfyStartLine :: "diffPartitionning \<Rightarrow> string" where
  "prettyfyStartLine P_RUNTIME = ''Elapsed time for requests (ms):''"
| "prettyfyStartLine P_URI = ''URI : ''"
| "prettyfyStartLine P_STATUS = ''Http Status Codes:''"
| "prettyfyStartLine _ = []"

fun prettyfyEndLine :: "diffPartitionning \<Rightarrow> string" where
  "prettyfyEndLine P_RUNTIME = [NL]"
| "prettyfyEndLine P_STATUS = [NL]"
| "prettyfyEndLine _ = []"

fun partitionSeparator :: "diffPartitionning \<Rightarrow> string" where
  "partitionSeparator P_HEADER = ''---REQ_HEADER---'' @ [NL]"
| "partitionSeparator P_BODY = ''---REQ_BODY---'' @ [NL]"
| "partitionSeparator P_CASSDIFF = ''---CASS_DIFF---'' @ [NL]"
| "partitionSeparator P_HEADERDIFF = ''---HDR_DIFF---'' @ [NL]"
| "partitionSeparator P_BODYDIFF = ''---BODY_DIFF---'' @ [NL]"
| "partitionSeparator _ = []"

text \<open>\<open>getStream(part)->append(s)\<close>\<close>

definition ml_append :: "diffPartitionning \<Rightarrow> string \<Rightarrow> multilineDiffPrinter \<Rightarrow> multilineDiffPrinter" where
  "ml_append part s p = p\<lparr>streams := map_modify part [] (\<lambda>t. t @ s) (streams p)\<rparr>"

definition multilineDiffPrinter_new :: "string \<Rightarrow> multilineDiffPrinter" where
  "multilineDiffPrinter_new pid =
     ml_append P_BEGIN (''BEGIN NEW REQUEST DIFFERENCE n: '' @ pid @ [NL])
       \<lparr>ml_isADiff = False, ml_id = pid, hadPreviousCassDiff = False, streams = []\<rparr>"

definition ml_addInfo :: "string \<Rightarrow> string \<Rightarrow> multilineDiffPrinter \<Rightarrow> multilineDiffPrinter" where
  "ml_addInfo key value = ml_append P_INFO (key @ '' : '' @ value @ [NL])"

definition ml_addInfo_double ::
    "'j diff_lib \<Rightarrow> string \<Rightarrow> int \<Rightarrow> multilineDiffPrinter \<Rightarrow> multilineDiffPrinter" where
  "ml_addInfo_double D key value = ml_append P_INFO (key @ '' : '' @ print_double D value @ [NL])"

definition ml_addRequestUri :: "string \<Rightarrow> string \<Rightarrow> multilineDiffPrinter \<Rightarrow> multilineDiffPrinter" where
  "ml_addRequestUri uri paramsBody p =
     (let p1 = ml_append P_URI uri p;
          p2 = (if paramsBody \<noteq> [] then ml_append P_URI paramsBody p1 else p1)
      in ml_append P_URI [NL] p2)"

definition ml_addRequestBody :: "string \<Rightarrow> multilineDiffPrinter \<Rightarrow> multilineDiffPrinter" where
  "ml_addRequestBody body p = (if body \<noteq> [] then ml_append P_BODY [NL] (ml_append P_BODY body p) else p)"

definition ml_addRequestHeader :: "string \<Rightarrow> string \<Rightarrow> multilineDiffPrinter \<Rightarrow> multilineDiffPrinter" where
  "ml_addRequestHeader key value = ml_append P_HEADER (key @ '' : '' @ value @ [NL])"

definition ml_addStatus :: "ext_lib \<Rightarrow> string \<Rightarrow> int \<Rightarrow> multilineDiffPrinter \<Rightarrow> multilineDiffPrinter" where
  "ml_addStatus E service statusCode = ml_append P_STATUS ('' '' @ service @ '' '' @ lexical_string E statusCode)"

definition ml_addRuntime :: "ext_lib \<Rightarrow> string \<Rightarrow> int \<Rightarrow> multilineDiffPrinter \<Rightarrow> multilineDiffPrinter" where
  "ml_addRuntime E service milli = ml_append P_RUNTIME ('' '' @ service @ '' '' @ lexical_string E milli)"

definition or_empty :: "string option \<Rightarrow> string" where
  "or_empty v = (case v of None \<Rightarrow> [] | Some s \<Rightarrow> s)"

definition ml_addHeaderDiff ::
    "string \<Rightarrow> string option \<Rightarrow> string option \<Rightarrow> multilineDiffPrinter \<Rightarrow> multilineDiffPrinter" where
  "ml_addHeaderDiff key srcValue dstValue p =
     ml_append P_HEADERDIFF (key @ '' ==> '' @ or_empty srcValue @ ''/'' @ or_empty dstValue @ [NL])
       (p\<lparr>ml_isADiff := True\<rparr>)"

definition ml_addCassandraDiff ::
    "string \<Rightarrow> string \<Rightarrow> string \<Rightarrow> string \<Rightarrow> multilineDiffPrinter \<Rightarrow> multilineDiffPrinter" where
  "ml_addCassandraDiff fieldName multiValue dbValue reqValue p =
     (let q = [CHR 0x27];
          p1 = p\<lparr>ml_isADiff := True\<rparr>;
          p2 = ml_append P_CASSDIFF
                 ((if hadPreviousCassDiff p1 then SEPARATOR else []) @
                  ''Field name in the db : '' @ q @ fieldName @ q @ [NL] @
                  ''Multivalue/Collection index/key : '' @ q @ multiValue @ q @ [NL] @
                  ''Value retrieved in Database : '' @ q @ dbValue @ q @ [NL] @
                  ''Value about to be set from Request : '' @ q @ reqValue @ q @ [NL]) p1
      in p2\<lparr>hadPreviousCassDiff := True\<rparr>)"

definition ml_addFullDiff_lines :: "string list \<Rightarrow> multilineDiffPrinter \<Rightarrow> multilineDiffPrinter" where
  "ml_addFullDiff_lines diffLines p =
     fold (\<lambda>l. ml_append P_BODYDIFF (l @ [NL])) diffLines (p\<lparr>ml_isADiff := True\<rparr>)"

definition ml_addFullDiff :: "string \<Rightarrow> multilineDiffPrinter \<Rightarrow> multilineDiffPrinter" where
  "ml_addFullDiff diffLines p = ml_append P_BODYDIFF (diffLines @ [NL]) (p\<lparr>ml_isADiff := True\<rparr>)"

fun print_part :: "diffPartitionning \<times> string \<Rightarrow> string" where
  "print_part (part, s) =
     (if s \<noteq> [] then partitionSeparator part @ prettyfyStartLine part @ s @ prettyfyEndLine part else [])"

definition ml_retrieveDiff :: "string \<Rightarrow> multilineDiffPrinter \<Rightarrow> bool \<times> string" where
  "ml_retrieveDiff res p =
     (if ml_isADiff p
      then (True, res @ concat (map print_part (streams p)) @ ''END DIFFERENCE : '' @ ml_id p @ [NL])
      else (False, res))"

section \<open>The json printers\<close>

record 'j jsonDiffPrinter =
  js_isADiff :: bool
  js_id :: string
  mJsonRes :: 'j

definition js_set :: "'j diff_lib \<Rightarrow> string list \<Rightarrow> json_leaf \<Rightarrow> 'j jsonDiffPrinter \<Rightarrow> 'j jsonDiffPrinter" where
  "js_set D path v p = p\<lparr>mJsonRes := json_set D path v (mJsonRes p)\<rparr>"

definition jsonDiffPrinter_new :: "'j diff_lib \<Rightarrow> string \<Rightarrow> 'j jsonDiffPrinter" where
  "jsonDiffPrinter_new D pid =
     js_set D [''id''] (JString pid) \<lparr>js_isADiff = False, js_id = pid, mJsonRes = json_new D\<rparr>"

definition js_addInfo :: "'j diff_lib \<Rightarrow> string \<Rightarrow> string \<Rightarrow> 'j jsonDiffPrinter \<Rightarrow> 'j jsonDiffPrinter" where
  "js_addInfo D key value = js_set D [key] (JString value)"

definition js_addInfo_double :: "'j diff_lib \<Rightarrow> string \<Rightarrow> int \<Rightarrow> 'j jsonDiffPrinter \<Rightarrow> 'j jsonDiffPrinter" where
  "js_addInfo_double D key value = js_set D [key] (JDouble value)"

definition js_addRequestBody :: "'j diff_lib \<Rightarrow> string \<Rightarrow> 'j jsonDiffPrinter \<Rightarrow> 'j jsonDiffPrinter" where
  "js_addRequestBody D body = js_addInfo D ''ReqBody'' body"

text \<open>The arguments of a query string. The position of the equals sign is an \<open>int\<close>: without
  one it is -1, and both key and value are the whole token.\<close>

definition js_addArg :: "ext_lib \<Rightarrow> 'j diff_lib \<Rightarrow> string \<Rightarrow> 'j jsonDiffPrinter \<Rightarrow> 'j jsonDiffPrinter" where
  "js_addArg E D it =
     (case find_char (CHR ''='') it of
        None \<Rightarrow> js_set D [''request'', ''args'', to_upper E it] (JString it)
      | Some pos \<Rightarrow> js_set D [''request'', ''args'', to_upper E (take pos it)] (JString (drop (pos + 1) it)))"

text \<open>\<open>pivot\<close> is \<open>npos\<close> in a URI without a question mark; then \<open>pivot + 1\<close> is 0.\<close>

definition js_addRequestUri ::
    "ext_lib \<Rightarrow> 'j diff_lib \<Rightarrow> string \<Rightarrow> string \<Rightarrow> 'j jsonDiffPrinter \<Rightarrow> 'j jsonDiffPrinter" where
  "js_addRequestUri E D uri paramsBody p =
     (let p1 = js_set D [''request'', ''uri''] (JString uri) p;
          pivot = find_char (CHR ''?'') uri;
          p2 = js_set D [''request'', ''url''] (JString (case pivot of None \<Rightarrow> uri | Some i \<Rightarrow> take i uri)) p1;
          params = (case pivot of None \<Rightarrow> uri | Some i \<Rightarrow> drop (i + 1) uri);
          p3 = fold (js_addArg E D) (split_any_of E params (CHR ''&'') False) p2
      in if paramsBody \<noteq> [] then fold (js_addArg E D) (split_any_of E paramsBody (CHR ''&'') False) p3 else p3)"

definition js_addRequestHeader ::
    "ext_lib \<Rightarrow> 'j diff_lib \<Rightarrow> string \<Rightarrow> string \<Rightarrow> 'j jsonDiffPrinter \<Rightarrow> 'j jsonDiffPrinter" where
  "js_addRequestHeader E D key value = js_set D [''request'', ''header'', to_upper E key] (JString value)"

definition js_addStatus :: "'j diff_lib \<Rightarrow> string \<Rightarrow> int \<Rightarrow> 'j jsonDiffPrinter \<Rightarrow> 'j jsonDiffPrinter" where
  "js_addStatus D service statusCode = js_set D [''status'', service] (JInt statusCode)"

definition js_addRuntime :: "'j diff_lib \<Rightarrow> string \<Rightarrow> int \<Rightarrow> 'j jsonDiffPrinter \<Rightarrow> 'j jsonDiffPrinter" where
  "js_addRuntime D service milli = js_set D [''runtime'', service] (JInt milli)"

text \<open>The search for a field name that is not taken: the name itself, then with the numbers from 1
  on. \<open>None\<close>: all are taken.\<close>

partial_function (option) free_field :: "'j diff_lib \<Rightarrow> 'j \<Rightarrow> string \<Rightarrow> nat \<Rightarrow> string \<Rightarrow> string option" where
  "free_field D j fieldName i lField =
     (if json_member D [''diff'', ''cassandra'', lField] j
      then free_field D j fieldName (i + 1) (fieldName @ show_nat i)
      else Some lField)"

definition js_addCassandraDiff ::
    "'j diff_lib \<Rightarrow> string \<Rightarrow> string \<Rightarrow> string \<Rightarrow> string \<Rightarrow> 'j jsonDiffPrinter \<Rightarrow> 'j jsonDiffPrinter option" where
  "js_addCassandraDiff D fieldName multiValue dbValue reqValue p =
     (case free_field D (mJsonRes p) fieldName 1 fieldName of
        None \<Rightarrow> None
      | Some lField \<Rightarrow>
          Some (js_set D [''diff'', ''cassandra'', lField, ''reqVal''] (JString reqValue)
               (js_set D [''diff'', ''cassandra'', lField, ''dbVal''] (JString dbValue)
               (js_set D [''diff'', ''cassandra'', lField, ''mulVal''] (JString multiValue)
                 (p\<lparr>js_isADiff := True\<rparr>)))))"

definition js_addHeaderDiff ::
    "'j diff_lib \<Rightarrow> string \<Rightarrow> string option \<Rightarrow> string option \<Rightarrow> 'j jsonDiffPrinter \<Rightarrow> 'j jsonDiffPrinter" where
  "js_addHeaderDiff D key srcValue dstValue p =
     (let p1 = p\<lparr>js_isADiff := True\<rparr>;
          p2 = (case srcValue of None \<Rightarrow> p1 | Some v \<Rightarrow> js_set D [''diff'', ''header'', key, ''src''] (JString v) p1)
      in case dstValue of None \<Rightarrow> p2 | Some v \<Rightarrow> js_set D [''diff'', ''header'', key, ''dst''] (JString v) p2)"

definition JSONMAXSIZE :: nat where
  "JSONMAXSIZE = 14000"

text \<open>\<open>a.find(x) < a.find(y)\<close>, where \<open>npos\<close> is the largest number.\<close>

fun pos_less :: "nat option \<Rightarrow> nat option \<Rightarrow> bool" where
  "pos_less (Some a) (Some b) \<longleftrightarrow> a < b"
| "pos_less (Some a) None \<longleftrightarrow> True"
| "pos_less None _ \<longleftrightarrow> False"

text \<open>The counters and the sets of tags of the loop over the lines.\<close>

type_synonym tag_counts = "nat \<times> (string, unit) std_map \<times> nat \<times> (string, unit) std_map"

definition count_line :: "ext_lib \<Rightarrow> string \<Rightarrow> char \<Rightarrow> string \<Rightarrow> tag_counts \<Rightarrow> tag_counts" where
  "count_line E tagToIdentify firstChar it = (\<lambda>(posDiff, posList, negDiff, negList).
     (case regex_search E it tagToIdentify of
        None \<Rightarrow> (posDiff, posList, negDiff, negList)
      | Some what \<Rightarrow>
          if pos_less (find_char (CHR ''+'') it) (find_char firstChar it)
          then (posDiff + 1, map_insert what () posList, negDiff, negList)
          else if pos_less (find_char (CHR ''-'') it) (find_char firstChar it)
          then (posDiff, posList, negDiff + 1, map_insert what () negList)
          else (posDiff, posList, negDiff, negList)))"

definition js_addFullDiff_lines ::
    "ext_lib \<Rightarrow> 'j diff_lib \<Rightarrow> string list \<Rightarrow> nat \<Rightarrow> string \<Rightarrow> 'j jsonDiffPrinter \<Rightarrow> 'j jsonDiffPrinter" where
  "js_addFullDiff_lines E D diffLines truncSize type p =
     (let (tagToIdentify, firstChar) =
            (if type = ''XML'' then (''<.*?>'', CHR ''<'') else (''\".*?\"'', CHR 0x22)) in
      case fold (count_line E tagToIdentify firstChar) diffLines (0, [], 0, []) of
        (posDiff, posList, negDiff, negList) \<Rightarrow>
      let p1 = (if posDiff \<noteq> 0
                then js_set D [''diff'', ''body'', ''posList''] (JArray (map fst posList))
                      (js_set D [''diff'', ''body'', ''posDiff''] (JInt (int posDiff)) p) else p);
          p2 = (if negDiff \<noteq> 0
                then js_set D [''diff'', ''body'', ''negList''] (JArray (map fst negList))
                      (js_set D [''diff'', ''body'', ''negDiff''] (JInt (int negDiff)) p1) else p1);
          fullDiff = join_strings E diffLines [NL]
      in if length fullDiff \<ge> JSONMAXSIZE
         then (let p3 = p2\<lparr>js_isADiff := True\<rparr>;
                   truncatedDiff = concat (map (\<lambda>it. take truncSize it @ [NL]) diffLines)
               in if length truncatedDiff < JSONMAXSIZE
                  then js_set D [''diff'', ''body'', ''full''] (JString truncatedDiff) p3 else p3)
         else if fullDiff \<noteq> []
         then js_set D [''diff'', ''body'', ''full''] (JString fullDiff) (p2\<lparr>js_isADiff := True\<rparr>)
         else p2)"

definition js_addFullDiff :: "ext_lib \<Rightarrow> 'j diff_lib \<Rightarrow> string \<Rightarrow> 'j jsonDiffPrinter \<Rightarrow> 'j jsonDiffPrinter" where
  "js_addFullDiff E D diffLines p =
     js_addFullDiff_lines E D (split_any_of E diffLines NL True) 100 ''XML'' p"

definition js_retrieveDiff :: "'j diff_lib \<Rightarrow> string \<Rightarrow> 'j jsonDiffPrinter \<Rightarrow> bool \<times> string" where
  "js_retrieveDiff D res p = (js_isADiff p, res @ json_write D (mJsonRes p))"

definition utf8_retrieveDiff :: "'j diff_lib \<Rightarrow> string \<Rightarrow> 'j jsonDiffPrinter \<Rightarrow> bool \<times> string" where
  "utf8_retrieveDiff D res p =
     (case js_retrieveDiff D res p of (v, res1) \<Rightarrow>
        case replace_invalid res1 of Inl ex \<Rightarrow> (False, res1) | Inr temp \<Rightarrow> (v, temp))"

section \<open>The abstract class\<close>

datatype 'j diffPrinter =
  Multiline multilineDiffPrinter | Json "'j jsonDiffPrinter" | Utf8Json "'j jsonDiffPrinter"

fun createDiffPrinter :: "'j diff_lib \<Rightarrow> string \<Rightarrow> diffTypeAvailable \<Rightarrow> 'j diffPrinter" where
  "createDiffPrinter D pid MULTILINE = Multiline (multilineDiffPrinter_new pid)"
| "createDiffPrinter D pid JSON = Json (jsonDiffPrinter_new D pid)"
| "createDiffPrinter D pid UTF8JSON = Utf8Json (jsonDiffPrinter_new D pid)"

fun isDiff :: "'j diffPrinter \<Rightarrow> bool" where
  "isDiff (Multiline p) = ml_isADiff p"
| "isDiff (Json p) = js_isADiff p"
| "isDiff (Utf8Json p) = js_isADiff p"

text \<open>Both json printers have the type their common constructor gives them.\<close>

fun getPrinterType :: "'j diffPrinter \<Rightarrow> diffTypeAvailable" where
  "getPrinterType (Multiline p) = MULTILINE"
| "getPrinterType (Json p) = JSON"
| "getPrinterType (Utf8Json p) = JSON"

text \<open>Virtual calls: one function for the multiline printer, one for the json printers.\<close>

fun dispatch ::
    "(multilineDiffPrinter \<Rightarrow> multilineDiffPrinter) \<Rightarrow> ('j jsonDiffPrinter \<Rightarrow> 'j jsonDiffPrinter) \<Rightarrow>
     'j diffPrinter \<Rightarrow> 'j diffPrinter" where
  "dispatch f g (Multiline p) = Multiline (f p)"
| "dispatch f g (Json p) = Json (g p)"
| "dispatch f g (Utf8Json p) = Utf8Json (g p)"

definition dp_addInfo :: "'j diff_lib \<Rightarrow> string \<Rightarrow> string \<Rightarrow> 'j diffPrinter \<Rightarrow> 'j diffPrinter" where
  "dp_addInfo D k v = dispatch (ml_addInfo k v) (js_addInfo D k v)"

definition dp_addInfo_double :: "'j diff_lib \<Rightarrow> string \<Rightarrow> int \<Rightarrow> 'j diffPrinter \<Rightarrow> 'j diffPrinter" where
  "dp_addInfo_double D k v = dispatch (ml_addInfo_double D k v) (js_addInfo_double D k v)"

definition dp_addRequestUri ::
    "ext_lib \<Rightarrow> 'j diff_lib \<Rightarrow> string \<Rightarrow> string \<Rightarrow> 'j diffPrinter \<Rightarrow> 'j diffPrinter" where
  "dp_addRequestUri E D uri params = dispatch (ml_addRequestUri uri params) (js_addRequestUri E D uri params)"

definition dp_addRequestBody :: "'j diff_lib \<Rightarrow> string \<Rightarrow> 'j diffPrinter \<Rightarrow> 'j diffPrinter" where
  "dp_addRequestBody D body = dispatch (ml_addRequestBody body) (js_addRequestBody D body)"

definition dp_addRequestHeader ::
    "ext_lib \<Rightarrow> 'j diff_lib \<Rightarrow> string \<Rightarrow> string \<Rightarrow> 'j diffPrinter \<Rightarrow> 'j diffPrinter" where
  "dp_addRequestHeader E D k v = dispatch (ml_addRequestHeader k v) (js_addRequestHeader E D k v)"

definition dp_addStatus :: "ext_lib \<Rightarrow> 'j diff_lib \<Rightarrow> string \<Rightarrow> int \<Rightarrow> 'j diffPrinter \<Rightarrow> 'j diffPrinter" where
  "dp_addStatus E D s c = dispatch (ml_addStatus E s c) (js_addStatus D s c)"

definition dp_addRuntime :: "ext_lib \<Rightarrow> 'j diff_lib \<Rightarrow> string \<Rightarrow> int \<Rightarrow> 'j diffPrinter \<Rightarrow> 'j diffPrinter" where
  "dp_addRuntime E D s ms = dispatch (ml_addRuntime E s ms) (js_addRuntime D s ms)"

definition dp_addHeaderDiff ::
    "'j diff_lib \<Rightarrow> string \<Rightarrow> string option \<Rightarrow> string option \<Rightarrow> 'j diffPrinter \<Rightarrow> 'j diffPrinter" where
  "dp_addHeaderDiff D k s d = dispatch (ml_addHeaderDiff k s d) (js_addHeaderDiff D k s d)"

definition dp_addFullDiff :: "ext_lib \<Rightarrow> 'j diff_lib \<Rightarrow> string \<Rightarrow> 'j diffPrinter \<Rightarrow> 'j diffPrinter" where
  "dp_addFullDiff E D lines = dispatch (ml_addFullDiff lines) (js_addFullDiff E D lines)"

fun dp_addCassandraDiff ::
    "'j diff_lib \<Rightarrow> string \<Rightarrow> string \<Rightarrow> string \<Rightarrow> string \<Rightarrow> 'j diffPrinter \<Rightarrow> 'j diffPrinter option" where
  "dp_addCassandraDiff D f m db rq (Multiline p) = Some (Multiline (ml_addCassandraDiff f m db rq p))"
| "dp_addCassandraDiff D f m db rq (Json p) = map_option Json (js_addCassandraDiff D f m db rq p)"
| "dp_addCassandraDiff D f m db rq (Utf8Json p) = map_option Utf8Json (js_addCassandraDiff D f m db rq p)"

fun dp_retrieveDiff :: "'j diff_lib \<Rightarrow> string \<Rightarrow> 'j diffPrinter \<Rightarrow> bool \<times> string" where
  "dp_retrieveDiff D res (Multiline p) = ml_retrieveDiff res p"
| "dp_retrieveDiff D res (Json p) = js_retrieveDiff D res p"
| "dp_retrieveDiff D res (Utf8Json p) = utf8_retrieveDiff D res p"

section \<open>The contract of a printer\<close>

text \<open>What the comparators rely on: \<open>isDiff\<close> tells whether a difference was added. A body
  difference counts when it is \<open>visible\<close> to the printer.\<close>

locale diff_printer =
  fixes found :: "'p \<Rightarrow> bool"
    and header_diff :: "string \<Rightarrow> string option \<Rightarrow> string option \<Rightarrow> 'p \<Rightarrow> 'p"
    and full_diff :: "string \<Rightarrow> 'p \<Rightarrow> 'p"
    and visible :: "'p \<Rightarrow> string \<Rightarrow> bool"
  assumes found_header_diff: "found (header_diff k s d p)"
    and found_full_diff: "found (full_diff t p) \<longleftrightarrow> found p \<or> visible p t"
    and visible_header_diff: "visible (header_diff k s d p) t = visible p t"
begin

lemma found_header_diffs:
  "found (fold (\<lambda>(k, s, d). header_diff k s d) es p) \<longleftrightarrow> found p \<or> es \<noteq> []"
proof (induction es arbitrary: p)
  case (Cons e es)
  then show ?case by (cases e) (simp add: found_header_diff)
qed simp

lemma visible_header_diffs:
  "visible (fold (\<lambda>(k, s, d). header_diff k s d) es p) t = visible p t"
proof (induction es arbitrary: p)
  case (Cons e es)
  then show ?case by (cases e) (simp add: visible_header_diff)
qed simp

lemma found_report:
  "found (full_diff t (fold (\<lambda>(k, s, d). header_diff k s d) es p)) \<longleftrightarrow> found p \<or> es \<noteq> [] \<or> visible p t"
  by (simp add: found_full_diff found_header_diffs visible_header_diffs)

end

lemma ml_append_sel [simp]:
  "ml_isADiff (ml_append part s p) = ml_isADiff p" "ml_id (ml_append part s p) = ml_id p"
  "hadPreviousCassDiff (ml_append part s p) = hadPreviousCassDiff p"
  by (simp_all add: ml_append_def)

lemma js_set_sel [simp]:
  "js_isADiff (js_set D path v p) = js_isADiff p" "js_id (js_set D path v p) = js_id p"
  by (simp_all add: js_set_def)

interpretation multiline: diff_printer ml_isADiff ml_addHeaderDiff ml_addFullDiff "\<lambda>_ _. True"
  by unfold_locales (simp_all add: ml_addHeaderDiff_def ml_addFullDiff_def)

text \<open>A json printer sees a body difference that has a character after splitting and joining.\<close>

definition json_visible :: "ext_lib \<Rightarrow> string \<Rightarrow> bool" where
  "json_visible E t \<longleftrightarrow> join_strings E (split_any_of E t NL True) [NL] \<noteq> []"

lemma js_addFullDiff_lines_found:
  "js_isADiff (js_addFullDiff_lines E D ls n type p) \<longleftrightarrow>
     js_isADiff p \<or> join_strings E ls [NL] \<noteq> []"
  by (auto simp: js_addFullDiff_lines_def JSONMAXSIZE_def Let_def split: prod.splits)

interpretation json: diff_printer js_isADiff "js_addHeaderDiff D" "js_addFullDiff E D" "\<lambda>_. json_visible E"
  for E :: ext_lib and D :: "'j diff_lib"
  by unfold_locales
    (simp_all add: js_addHeaderDiff_def Let_def js_addFullDiff_def js_addFullDiff_lines_found json_visible_def
      split: option.splits)

definition dp_visible :: "ext_lib \<Rightarrow> 'j diffPrinter \<Rightarrow> string \<Rightarrow> bool" where
  "dp_visible E p t \<longleftrightarrow> getPrinterType p = MULTILINE \<or> json_visible E t"

interpretation printer: diff_printer isDiff "dp_addHeaderDiff D" "dp_addFullDiff E D" "dp_visible E"
  for E :: ext_lib and D :: "'j diff_lib"
proof unfold_locales
  fix k s d t and p :: "'j diffPrinter"
  show "isDiff (dp_addHeaderDiff D k s d p)"
    unfolding dp_addHeaderDiff_def
    by (cases p) (simp_all add: multiline.found_header_diff json.found_header_diff)
  show "isDiff (dp_addFullDiff E D t p) \<longleftrightarrow> isDiff p \<or> dp_visible E p t"
    unfolding dp_addFullDiff_def dp_visible_def
    by (cases p) (simp_all add: multiline.found_full_diff json.found_full_diff)
  show "dp_visible E (dp_addHeaderDiff D k s d p) t = dp_visible E p t"
    by (cases p) (simp_all add: dp_visible_def dp_addHeaderDiff_def)
qed

text \<open>What is not a difference does not count as one.\<close>

lemma notes_keep_found [simp]:
  "isDiff (dp_addInfo D k v p) = isDiff p" "isDiff (dp_addInfo_double D k i p) = isDiff p"
  "isDiff (dp_addRequestUri E D u b p) = isDiff p" "isDiff (dp_addRequestBody D b p) = isDiff p"
  "isDiff (dp_addRequestHeader E D k v p) = isDiff p" "isDiff (dp_addStatus E D k i p) = isDiff p"
  "isDiff (dp_addRuntime E D k i p) = isDiff p"
proof -
  have arg: "js_isADiff (js_addArg E D it q) = js_isADiff q" for it and q :: "'b jsonDiffPrinter" and D
    by (simp add: js_addArg_def split: option.splits)
  have args: "js_isADiff (fold (js_addArg E D) ts q) = js_isADiff q" for ts and q :: "'b jsonDiffPrinter" and D
    by (induction ts arbitrary: q) (simp_all add: arg)
  show "isDiff (dp_addInfo D k v p) = isDiff p" "isDiff (dp_addInfo_double D k i p) = isDiff p"
    "isDiff (dp_addRequestUri E D u b p) = isDiff p" "isDiff (dp_addRequestBody D b p) = isDiff p"
    "isDiff (dp_addRequestHeader E D k v p) = isDiff p" "isDiff (dp_addStatus E D k i p) = isDiff p"
    "isDiff (dp_addRuntime E D k i p) = isDiff p"
    by (cases p; simp add: dp_addInfo_def ml_addInfo_def js_addInfo_def dp_addInfo_double_def
        ml_addInfo_double_def js_addInfo_double_def dp_addRequestUri_def ml_addRequestUri_def js_addRequestUri_def
        dp_addRequestBody_def ml_addRequestBody_def js_addRequestBody_def dp_addRequestHeader_def
        ml_addRequestHeader_def js_addRequestHeader_def dp_addStatus_def ml_addStatus_def js_addStatus_def
        dp_addRuntime_def ml_addRuntime_def js_addRuntime_def Let_def args)+
qed

text \<open>A printer that has found nothing reports no difference; one that has reports one unless the
  utf8 conversion throws.\<close>

lemma retrieve_found:
  "fst (dp_retrieveDiff D res p) \<longleftrightarrow> isDiff p \<and>
     (case p of Utf8Json q \<Rightarrow> \<not> isl (replace_invalid (res @ json_write D (mJsonRes q))) | _ \<Rightarrow> True)"
  by (cases p) (auto simp: ml_retrieveDiff_def js_retrieveDiff_def utf8_retrieveDiff_def split: sum.splits)

end
