(* ===== verification/Map_Compare.thy ===== *)
theory Map_Compare
  imports Diff_Printer Dup_Commands "HOL-Library.Product_Lexorder"
begin

text \<open>
  The comparison of headers (libws_diff/mapCompare.cc): two \<open>std::map\<close>s of strings are compared
  after the ignore expressions of their keys have been applied; a stop expression that matches a
  value of either map ends the comparison. Pairs are compared as \<open>std::pair\<close> does, by key and
  then by value.
\<close>

type_synonym mapStrings = "(string, string) std_map"

record MapCompare =
  mc_mStopRegex :: "(string, string) std_map"
  mc_mIgnoreRegex :: "(string, string) std_map"

definition MapCompare_new :: MapCompare where
  "MapCompare_new = \<lparr>mc_mStopRegex = [], mc_mIgnoreRegex = []\<rparr>"

text \<open>\<open>m.insert(first, last)\<close>\<close>

definition insert_range :: "('k::linorder, 'v) std_map \<Rightarrow> ('k \<times> 'v) list \<Rightarrow> ('k, 'v) std_map" where
  "insert_range m kvs = foldl (\<lambda>m (k, v). map_insert k v m) m kvs"

definition mc_merge :: "MapCompare \<Rightarrow> MapCompare \<Rightarrow> MapCompare" where
  "mc_merge mc c = c\<lparr>mc_mStopRegex := insert_range (mc_mStopRegex c) (mc_mStopRegex mc),
                     mc_mIgnoreRegex := insert_range (mc_mIgnoreRegex c) (mc_mIgnoreRegex mc)\<rparr>"

definition mc_addIgnoreRegex :: "ext_lib \<Rightarrow> string \<Rightarrow> string \<Rightarrow> MapCompare \<Rightarrow> dup_exception + MapCompare" where
  "mc_addIgnoreRegex E key myregex c =
     (if \<not> regex_ok E myregex then Inl BadExpression
      else Inr (c\<lparr>mc_mIgnoreRegex := map_insert key myregex (mc_mIgnoreRegex c)\<rparr>))"

definition mc_addStopRegex :: "ext_lib \<Rightarrow> string \<Rightarrow> string \<Rightarrow> MapCompare \<Rightarrow> dup_exception + MapCompare" where
  "mc_addStopRegex E key myregex c =
     (if \<not> regex_ok E myregex then Inl BadExpression
      else Inr (c\<lparr>mc_mStopRegex := map_insert key myregex (mc_mStopRegex c)\<rparr>))"

fun checkStop :: "ext_lib \<Rightarrow> MapCompare \<Rightarrow> mapStrings \<Rightarrow> bool" where
  "checkStop E c [] \<longleftrightarrow> False"
| "checkStop E c ((k, v) # m) \<longleftrightarrow>
     (case map_find (mc_mStopRegex c) k of
        None \<Rightarrow> checkStop E c m
      | Some re \<Rightarrow> if regex_search E v re \<noteq> None then True else checkStop E c m)"

text \<open>The replacement text is empty, so the format flags of the call do not matter.\<close>

fun ignore_loop :: "ext_lib \<Rightarrow> MapCompare \<Rightarrow> mapStrings \<Rightarrow> mapStrings \<times> string list" where
  "ignore_loop E c [] = ([], [])"
| "ignore_loop E c ((k, v) # m) =
     (case ignore_loop E c m of (m', toDelete) \<Rightarrow>
        (case map_find (mc_mIgnoreRegex c) k of
           None \<Rightarrow> ((k, v) # m', toDelete)
         | Some re \<Rightarrow>
             (let v' = regex_replace E v re []
              in ((k, v') # m', if v' = [] then k # toDelete else toDelete))))"

definition applyIgnoreRegex :: "ext_lib \<Rightarrow> MapCompare \<Rightarrow> mapStrings \<Rightarrow> mapStrings" where
  "applyIgnoreRegex E c m = (case ignore_loop E c m of (m', toDelete) \<Rightarrow> fold map_erase toDelete m')"

text \<open>\<open>std::set_difference\<close> on sorted ranges.\<close>

fun set_difference :: "'a::linorder list \<Rightarrow> 'a list \<Rightarrow> 'a list" where
  "set_difference [] ys = []"
| "set_difference (x # xs) [] = x # xs"
| "set_difference (x # xs) (y # ys) =
     (if x < y then x # set_difference xs (y # ys)
      else if y < x then set_difference (x # xs) ys
      else set_difference xs ys)"

text \<open>The loop over the source differences: a key without a counterpart is output at once, the
  others are kept for later and their counterparts erased.\<close>

fun src_loop ::
    "(string \<Rightarrow> string \<Rightarrow> 'o \<Rightarrow> 'o) \<Rightarrow> mapStrings \<Rightarrow> 'o \<times> (string, string \<times> string) std_map \<times> mapStrings \<Rightarrow>
     'o \<times> (string, string \<times> string) std_map \<times> mapStrings" where
  "src_loop out [] st = st"
| "src_loop out ((k, v) # m) (o1, valueDiff, diffDst) =
     (case map_find diffDst k of
        None \<Rightarrow> src_loop out m (out k v o1, valueDiff, diffDst)
      | Some w \<Rightarrow> src_loop out m (o1, map_insert k (v, w) valueDiff, map_erase k diffDst))"

definition quoted :: "string \<Rightarrow> string" where
  "quoted s = [CHR 0x27] @ s @ [CHR 0x27]"

definition arrow_line :: "string \<Rightarrow> string \<Rightarrow> string \<Rightarrow> string" where
  "arrow_line k v out = out @ quoted k @ '' ==> '' @ quoted v @ [NL]"

definition mc_retrieveDiff_string ::
    "ext_lib \<Rightarrow> MapCompare \<Rightarrow> mapStrings \<Rightarrow> mapStrings \<Rightarrow> string \<Rightarrow> bool \<times> string" where
  "mc_retrieveDiff_string E c src dst output =
     (if checkStop E c src \<or> checkStop E c dst then (False, output)
      else
       (let dupSrc = applyIgnoreRegex E c src; dupDst = applyIgnoreRegex E c dst;
            diffSrc = insert_range [] (set_difference dupSrc dupDst);
            diffDst = insert_range [] (set_difference dupDst dupSrc);
            s0 = (if diffSrc \<noteq> [] then ''Key missing in the destination map :'' @ [NL] else [])
        in case src_loop arrow_line diffSrc (s0, [], diffDst) of (s1, valueDiff, diffDst1) \<Rightarrow>
             let s2 = (if diffDst1 \<noteq> []
                       then fold (\<lambda>(k, v). arrow_line k v) diffDst1 (s1 @ ''Key missing in src map :'' @ [NL]) else s1);
                 s3 = (if valueDiff \<noteq> []
                       then fold (\<lambda>(k, a, b) s. s @ quoted k @ '' ==> '' @ quoted a @ ''/'' @ quoted b @ [NL])
                              valueDiff (s2 @ ''Key with value differences :'' @ [NL]) else s2)
             in (True, s3)))"

definition mc_retrieveDiff ::
    "ext_lib \<Rightarrow> 'j diff_lib \<Rightarrow> MapCompare \<Rightarrow> mapStrings \<Rightarrow> mapStrings \<Rightarrow> 'j diffPrinter \<Rightarrow> bool \<times> 'j diffPrinter" where
  "mc_retrieveDiff E D c src dst printer =
     (if checkStop E c src \<or> checkStop E c dst then (False, printer)
      else
       (let dupSrc = applyIgnoreRegex E c src; dupDst = applyIgnoreRegex E c dst;
            diffSrc = insert_range [] (set_difference dupSrc dupDst);
            diffDst = insert_range [] (set_difference dupDst dupSrc)
        in case src_loop (\<lambda>k v. dp_addHeaderDiff D k (Some v) None) diffSrc (printer, [], diffDst) of
             (p1, valueDiff, diffDst1) \<Rightarrow>
             let p2 = fold (\<lambda>(k, v). dp_addHeaderDiff D k None (Some v)) diffDst1 p1
             in (True, fold (\<lambda>(k, a, b). dp_addHeaderDiff D k (Some a) (Some b)) valueDiff p2)))"

section \<open>Lemmas about the pieces\<close>

text \<open>What is left of a value after the ignore expression of its key.\<close>

definition cleaned :: "ext_lib \<Rightarrow> MapCompare \<Rightarrow> string \<Rightarrow> string option \<Rightarrow> string option" where
  "cleaned E c k v =
     (case v of
        None \<Rightarrow> None
      | Some s \<Rightarrow>
          (case map_find (mc_mIgnoreRegex c) k of
             None \<Rightarrow> Some s
           | Some re \<Rightarrow> if regex_replace E s re [] = [] then None else Some (regex_replace E s re [])))"

lemma checkStop_iff:
  "checkStop E c m \<longleftrightarrow>
     (\<exists>(k, v) \<in> set m. \<exists>re. map_find (mc_mStopRegex c) k = Some re \<and> regex_search E v re \<noteq> None)"
  by (induction E c m rule: checkStop.induct) (auto split: option.splits)

definition ignored :: "ext_lib \<Rightarrow> MapCompare \<Rightarrow> string \<Rightarrow> string \<Rightarrow> string" where
  "ignored E c k v = (case map_find (mc_mIgnoreRegex c) k of None \<Rightarrow> v | Some re \<Rightarrow> regex_replace E v re [])"

lemma ignore_loop_eq:
  "ignore_loop E c m =
     (map (\<lambda>(k, v). (k, ignored E c k v)) m,
      [k. (k, v) \<leftarrow> m, map_find (mc_mIgnoreRegex c) k \<noteq> None \<and> ignored E c k v = []])"
  by (induction E c m rule: ignore_loop.induct) (auto simp: ignored_def Let_def split: option.splits)

lemma map_find_map: "map_find (map (\<lambda>(k, v). (k, f k v)) m) k = map_option (f k) (map_find m k)"
  by (induction m k rule: map_find.induct) auto

lemma map_wf_map: "map_wf m \<Longrightarrow> map_wf (map (\<lambda>(k, v). (k, f k v)) m)"
  by (simp add: map_wf_def comp_def case_prod_beta)

lemma fold_erase:
  "map_wf m \<Longrightarrow> map_wf (fold map_erase ks m) \<and>
     map_find (fold map_erase ks m) k = (if k \<in> set ks then None else map_find m k)"
  by (induction ks arbitrary: m) (auto simp: map_find_erase)

lemma applyIgnoreRegex_wf: "map_wf m \<Longrightarrow> map_wf (applyIgnoreRegex E c m)"
  by (simp add: applyIgnoreRegex_def ignore_loop_eq fold_erase map_wf_map)

lemma applyIgnoreRegex_find:
  assumes "map_wf m"
  shows "map_find (applyIgnoreRegex E c m) k = cleaned E c k (map_find m k)"
proof -
  have "k \<in> set [k. (k, v) \<leftarrow> m, map_find (mc_mIgnoreRegex c) k \<noteq> None \<and> ignored E c k v = []] \<longleftrightarrow>
      (\<exists>v. (k, v) \<in> set m \<and> map_find (mc_mIgnoreRegex c) k \<noteq> None \<and> ignored E c k v = [])"
    by (force split: if_splits)
  then have "k \<in> set [k. (k, v) \<leftarrow> m, map_find (mc_mIgnoreRegex c) k \<noteq> None \<and> ignored E c k v = []] \<longleftrightarrow>
      (\<exists>v. map_find m k = Some v \<and> map_find (mc_mIgnoreRegex c) k \<noteq> None \<and> ignored E c k v = [])"
    by (simp only: map_find_entries [OF assms])
  then show ?thesis
    using fold_erase [OF map_wf_map [OF assms, of "ignored E c"]]
    by (auto simp: applyIgnoreRegex_def ignore_loop_eq map_find_map cleaned_def ignored_def split: option.splits)
qed

lemma set_difference_filter:
  "sorted_wrt (<) xs \<Longrightarrow> sorted_wrt (<) ys \<Longrightarrow> set_difference xs ys = filter (\<lambda>x. x \<notin> set ys) xs"
proof (induction xs ys rule: set_difference.induct)
  case (3 x xs y ys)
  consider "x < y" | "y < x" | "x = y" by fastforce
  then show ?case
  proof cases
    case 1
    then have "x \<notin> set (y # ys)" using "3.prems"(2) by auto
    with 1 3 show ?thesis by simp
  next
    case 2
    then have "\<forall>z \<in> set (x # xs). z \<noteq> y" using "3.prems"(1) by auto
    then have "filter (\<lambda>z. z \<notin> set (y # ys)) (x # xs) = filter (\<lambda>z. z \<notin> set ys) (x # xs)"
      by (intro filter_cong) auto
    moreover have "\<not> x < y" using 2 by simp
    ultimately show ?thesis using 2 "3.IH"(2) "3.prems" by (simp only: set_difference.simps if_True if_False) simp
  next
    case 3
    have "\<forall>z \<in> set xs. z \<noteq> y" using "3.prems"(1) 3 by auto
    then have "filter (\<lambda>z. z \<notin> set (y # ys)) xs = filter (\<lambda>z. z \<notin> set ys) xs"
      by (intro filter_cong) auto
    then show ?thesis using 3 "3.IH"(3) "3.prems" by simp
  qed
qed simp_all

lemma map_wf_sorted_pairs: "map_wf m \<Longrightarrow> sorted_wrt (<) (m :: ('k::linorder \<times> 'v::linorder) list)"
  unfolding map_wf_def sorted_wrt_map by (erule sorted_wrt_mono_rel [rotated]) (auto simp: less_prod_def)

lemma map_put_last: "map_wf (m @ [(k, v)]) \<Longrightarrow> map_find m k = None \<and> map_put k v m = m @ [(k, v)]"
  by (induction k v m rule: map_put.induct) (auto simp: map_wf_Cons)

lemma insert_range_id: "map_wf m \<Longrightarrow> insert_range [] m = m"
proof (induction m rule: rev_induct)
  case (snoc kv m)
  have "map_wf m" using snoc.prems by (auto simp: map_wf_def sorted_wrt_append)
  moreover obtain k v where "kv = (k, v)" by (cases kv)
  ultimately show ?case
    using snoc map_put_last [of m k v] by (simp add: insert_range_def map_insert_def)
qed (simp add: insert_range_def)

lemma map_wf_filter: "map_wf m \<Longrightarrow> map_wf (filter P m)"
  by (simp add: map_wf_def sorted_wrt_map sorted_wrt_filter)

text \<open>The entries of one map that the other does not have.\<close>

definition only_in :: "mapStrings \<Rightarrow> mapStrings \<Rightarrow> mapStrings" where
  "only_in a b = filter (\<lambda>kv. kv \<notin> set b) a"

lemma diff_only_in:
  "map_wf a \<Longrightarrow> map_wf b \<Longrightarrow> insert_range [] (set_difference a b) = only_in a b"
  by (simp add: only_in_def set_difference_filter map_wf_sorted_pairs insert_range_id map_wf_filter)

lemma only_in_wf: "map_wf a \<Longrightarrow> map_wf (only_in a b)"
  by (simp add: only_in_def map_wf_filter)

lemma only_in_find:
  assumes "map_wf a" and "map_wf b"
  shows "map_find (only_in a b) k = Some v \<longleftrightarrow> map_find a k = Some v \<and> map_find b k \<noteq> Some v"
  using assms by (simp add: map_find_entries only_in_wf) (simp add: only_in_def)

section \<open>What a comparison reports\<close>

text \<open>The entries the loop separates: those whose key the destination differences lack, the pairs
  of values, and what remains of the destination differences.\<close>

definition value_pairs :: "mapStrings \<Rightarrow> mapStrings \<Rightarrow> (string, string \<times> string) std_map" where
  "value_pairs ds dd = map (\<lambda>(k, v). (k, (v, the (map_find dd k)))) (filter (\<lambda>kv. map_find dd (fst kv) \<noteq> None) ds)"

lemma value_pairs_cong:
  "(\<And>x. x \<in> set ds \<Longrightarrow> map_find dd (fst x) = map_find dd' (fst x)) \<Longrightarrow> value_pairs ds dd = value_pairs ds dd'"
  unfolding value_pairs_def by (intro map_cong filter_cong) auto

lemma src_loop_result:
  assumes "map_wf ds" and "map_wf vs" and "\<forall>x \<in> set vs. \<forall>y \<in> set ds. fst x < fst y" and "map_wf dd"
  shows "src_loop out ds (o1, vs, dd) =
    (fold (\<lambda>(k, v). out k v) (filter (\<lambda>kv. map_find dd (fst kv) = None) ds) o1,
     vs @ value_pairs ds dd,
     fold map_erase (map fst (filter (\<lambda>kv. map_find dd (fst kv) \<noteq> None) ds)) dd)"
  using assms
proof (induction ds arbitrary: o1 vs dd)
  case (Cons kv ds)
  obtain k v where kv: "kv = (k, v)" by (cases kv)
  have ds: "map_wf ds" "\<And>x. x \<in> set ds \<Longrightarrow> k < fst x" using Cons.prems(1) by (auto simp: kv map_wf_Cons)
  show ?case
  proof (cases "map_find dd k")
    case None
    with Cons ds show ?thesis by (simp add: kv value_pairs_def)
  next
    case (Some w)
    let ?dd = "map_erase k dd"
    have wf: "map_wf (vs @ [(k, (v, w))])"
      using Cons.prems(2,3) by (auto simp: kv map_wf_def sorted_wrt_append)
    have same: "map_find ?dd (fst x) = map_find dd (fst x)" if "x \<in> set ds" for x
      using ds(2) [OF that] Cons.prems(4) by (simp add: map_find_erase)
    have filters: "filter (\<lambda>kv. map_find ?dd (fst kv) = None) ds = filter (\<lambda>kv. map_find dd (fst kv) = None) ds"
      "filter (\<lambda>kv. map_find ?dd (fst kv) \<noteq> None) ds = filter (\<lambda>kv. map_find dd (fst kv) \<noteq> None) ds"
      by (intro filter_cong; simp add: same)+
    have "\<forall>x \<in> set (vs @ [(k, (v, w))]). \<forall>y \<in> set ds. fst x < fst y"
      using Cons.prems(3) ds(2) by auto
    from Cons.IH [OF ds(1) wf this, of ?dd o1] Some show ?thesis
      using Cons.prems(4) map_put_last [OF wf] value_pairs_cong [of ds ?dd dd, OF same]
      by (simp add: kv map_insert_def filters del: not_None_eq) (simp add: value_pairs_def)
  qed
qed (simp add: value_pairs_def)

text \<open>The differences of two maps, in the order they are reported: keys of the first map only, keys
  of the second map only, keys with two values.\<close>

definition map_differences :: "mapStrings \<Rightarrow> mapStrings \<Rightarrow> (string \<times> string option \<times> string option) list" where
  "map_differences a b =
     map (\<lambda>(k, v). (k, Some v, None)) (filter (\<lambda>kv. map_find b (fst kv) = None) a) @
     map (\<lambda>(k, v). (k, None, Some v)) (filter (\<lambda>kv. map_find a (fst kv) = None) b) @
     map (\<lambda>(k, v). (k, Some v, map_find b k))
       (filter (\<lambda>kv. map_find b (fst kv) \<noteq> None \<and> map_find b (fst kv) \<noteq> Some (snd kv)) a)"

lemma map_differences_iff:
  assumes "map_wf a" and "map_wf b"
  shows "(k, x, y) \<in> set (map_differences a b) \<longleftrightarrow> map_find a k = x \<and> map_find b k = y \<and> x \<noteq> y"
proof -
  have m: "(k, v) \<in> set a \<longleftrightarrow> map_find a k = Some v" "(k, v) \<in> set b \<longleftrightarrow> map_find b k = Some v" for v
    using assms by (simp_all add: map_find_entries)
  show ?thesis by (cases x; cases y) (auto simp: map_differences_def image_iff m Bex_def)
qed

lemma map_differences_distinct:
  assumes "map_wf a" and "map_wf b"
  shows "distinct (map fst (map_differences a b))"
proof -
  have d: "distinct (map fst (filter P a))" "distinct (map fst (filter P b))" for P
    using map_wf_distinct assms by (auto intro: distinct_map_filter)
  have "fst \<circ> (\<lambda>(k, v). (k, f k v)) = fst" for f :: "string \<Rightarrow> string \<Rightarrow> string option \<times> string option"
    by auto
  moreover have "map_find a k \<noteq> None" if "k \<in> fst ` set a" for k
    using that assms by (auto simp flip: map_find_entries)
  moreover have "map_find b k \<noteq> None" if "k \<in> fst ` set b" for k
    using that assms by (auto simp flip: map_find_entries)
  ultimately show ?thesis
    using d by (fastforce simp: map_differences_def)
qed

text \<open>The three passes together report exactly the differences of the cleaned maps.\<close>

lemma option_ext: "(\<And>v. x = Some v \<longleftrightarrow> y = Some v) \<Longrightarrow> x = y"
  by (cases x; cases y) auto

lemma only_in_find_eq:
  assumes "map_wf a" and "map_wf b"
  shows "map_find (only_in a b) k = (if map_find a k = map_find b k then None else map_find a k)"
  by (rule option_ext) (auto simp: only_in_find [OF assms])

lemma filter_find_eq:
  assumes "map_wf b"
  shows "map_find (filter (\<lambda>kv. map_find a (fst kv) = None) b) k = (if map_find a k = None then map_find b k else None)"
  by (rule option_ext) (auto simp: map_find_entries [OF map_wf_filter [OF assms]] map_find_entries [OF assms])

lemma only_in_cases:
  assumes "map_wf a" and "map_wf b" and "kv \<in> set a"
  shows "kv \<notin> set b \<and> map_find (only_in b a) (fst kv) = None \<longleftrightarrow> map_find b (fst kv) = None"
    and "kv \<notin> set b \<and> map_find (only_in b a) (fst kv) \<noteq> None \<longleftrightarrow>
      map_find b (fst kv) \<noteq> None \<and> map_find b (fst kv) \<noteq> Some (snd kv)"
    and "map_find b (fst kv) \<noteq> Some (snd kv) \<Longrightarrow> map_find (only_in b a) (fst kv) = map_find b (fst kv)"
proof -
  obtain k v where kv: "kv = (k, v)" by (cases kv)
  have a: "map_find a k = Some v" using assms by (simp add: kv map_find_entries)
  have b: "kv \<notin> set b \<longleftrightarrow> map_find b k \<noteq> Some v" using assms by (simp add: kv map_find_entries)
  have n: "map_find (only_in b a) k = (if map_find b k = Some v then None else map_find b k)"
    by (simp add: only_in_find_eq [OF assms(2,1)] a)
  show "kv \<notin> set b \<and> map_find (only_in b a) (fst kv) = None \<longleftrightarrow> map_find b (fst kv) = None"
    unfolding b by (simp add: kv n)
  show "kv \<notin> set b \<and> map_find (only_in b a) (fst kv) \<noteq> None \<longleftrightarrow>
      map_find b (fst kv) \<noteq> None \<and> map_find b (fst kv) \<noteq> Some (snd kv)"
    unfolding b by (cases "map_find b k = Some v") (simp_all add: kv n)
  show "map_find b (fst kv) \<noteq> Some (snd kv) \<Longrightarrow> map_find (only_in b a) (fst kv) = map_find b (fst kv)"
    by (simp add: kv n)
qed

lemma passes_differences:
  assumes a: "map_wf a" and b: "map_wf b"
    and l: "src_loop out (only_in a b) (o1, [], only_in b a) = (o2, vd, dd)"
  shows "o2 = fold (\<lambda>(k, v). out k v) (filter (\<lambda>kv. map_find b (fst kv) = None) a) o1"
    and "dd = filter (\<lambda>kv. map_find a (fst kv) = None) b"
    and "vd = map (\<lambda>(k, v). (k, (v, the (map_find b k))))
       (filter (\<lambda>kv. map_find b (fst kv) \<noteq> None \<and> map_find b (fst kv) \<noteq> Some (snd kv)) a)"
proof -
  let ?B = "only_in b a"
  let ?both = "filter (\<lambda>kv. map_find b (fst kv) \<noteq> None \<and> map_find b (fst kv) \<noteq> Some (snd kv)) a"
  have f: "filter (\<lambda>kv. map_find ?B (fst kv) = None) (only_in a b) = filter (\<lambda>kv. map_find b (fst kv) = None) a"
    "filter (\<lambda>kv. map_find ?B (fst kv) \<noteq> None) (only_in a b) = ?both"
    unfolding only_in_def [of a] filter_filter
    by (intro filter_cong refl; use only_in_cases [OF a b] in blast)+
  note r = src_loop_result [OF only_in_wf [OF a] map_wf_Nil _ only_in_wf [OF b], of b out o1 a]
  show "o2 = fold (\<lambda>(k, v). out k v) (filter (\<lambda>kv. map_find b (fst kv) = None) a) o1"
    using l r by (simp add: f del: not_None_eq)
  show "vd = map (\<lambda>(k, v). (k, (v, the (map_find b k)))) ?both"
    using l r only_in_cases(3) [OF a b]
    by (auto simp: value_pairs_def f simp del: not_None_eq intro!: map_cong)
  have dd: "dd = fold map_erase (map fst ?both) ?B" using l r by (simp add: f del: not_None_eq)
  show "dd = filter (\<lambda>kv. map_find a (fst kv) = None) b"
  proof (rule map_wf_ext)
    show "map_wf dd" unfolding dd by (intro fold_erase [THEN conjunct1] only_in_wf b)
    show "map_wf (filter (\<lambda>kv. map_find a (fst kv) = None) b)" using b by (rule map_wf_filter)
    fix k
    have "k \<in> set (map fst ?both) \<longleftrightarrow> (\<exists>v w. map_find a k = Some v \<and> map_find b k = Some w \<and> w \<noteq> v)"
      by (force simp: image_iff map_find_entries [OF a])
    then show "map_find dd k = map_find (filter (\<lambda>kv. map_find a (fst kv) = None) b) k"
      using fold_erase [OF only_in_wf [OF b]]
      by (cases "map_find a k"; cases "map_find b k")
         (simp_all add: dd only_in_find_eq [OF b a] filter_find_eq [OF b] del: set_map)
  qed
qed

lemma fold_addHeaderDiff:
  "fold (\<lambda>(k, s, d). dp_addHeaderDiff D k s d) (map_differences a b) p =
     fold (\<lambda>(k, x, y). dp_addHeaderDiff D k (Some x) (Some y))
       (map (\<lambda>(k, v). (k, (v, the (map_find b k))))
         (filter (\<lambda>kv. map_find b (fst kv) \<noteq> None \<and> map_find b (fst kv) \<noteq> Some (snd kv)) a))
     (fold (\<lambda>(k, v). dp_addHeaderDiff D k None (Some v)) (filter (\<lambda>kv. map_find a (fst kv) = None) b)
     (fold (\<lambda>(k, v). dp_addHeaderDiff D k (Some v) None) (filter (\<lambda>kv. map_find b (fst kv) = None) a) p))"
proof -
  let ?f = "\<lambda>(k, s, d). dp_addHeaderDiff D k s d" and ?g = "\<lambda>(k, x, y). dp_addHeaderDiff D k (Some x) (Some y)"
  have s: "?f \<circ> (\<lambda>(k, v). (k, Some v, None)) = (\<lambda>(k, v). dp_addHeaderDiff D k (Some v) None)"
    "?f \<circ> (\<lambda>(k, v). (k, None, Some v)) = (\<lambda>(k, v). dp_addHeaderDiff D k None (Some v))"
    by (simp_all add: fun_eq_iff)
  have "(?f \<circ> (\<lambda>(k, v). (k, Some v, map_find b k))) x = (?g \<circ> (\<lambda>(k, v). (k, (v, the (map_find b k))))) x"
    if "x \<in> set (filter (\<lambda>kv. map_find b (fst kv) \<noteq> None \<and> map_find b (fst kv) \<noteq> Some (snd kv)) a)" for x
    using that by (cases x rule: prod.exhaust) auto
  then show ?thesis
    unfolding map_differences_def fold_append o_apply fold_map s by (intro fold_cong refl)
qed

lemma mc_retrieveDiff_eq:
  assumes "map_wf src" and "map_wf dst"
  shows "mc_retrieveDiff E D c src dst p =
    (if checkStop E c src \<or> checkStop E c dst then (False, p)
     else (True, fold (\<lambda>(k, s, d). dp_addHeaderDiff D k s d)
             (map_differences (applyIgnoreRegex E c src) (applyIgnoreRegex E c dst)) p))"
proof -
  let ?a = "applyIgnoreRegex E c src" and ?b = "applyIgnoreRegex E c dst"
  have wf: "map_wf ?a" "map_wf ?b" using assms by (simp_all add: applyIgnoreRegex_wf)
  obtain o2 vd dd where l:
    "src_loop (\<lambda>k v. dp_addHeaderDiff D k (Some v) None) (only_in ?a ?b) (p, [], only_in ?b ?a) = (o2, vd, dd)"
    by (metis prod_cases3)
  show ?thesis
    unfolding mc_retrieveDiff_def fold_addHeaderDiff Let_def diff_only_in [OF wf] diff_only_in [OF wf(2,1)] l
    by (simp only: passes_differences [OF wf l] prod.case)
qed

lemma mc_retrieveDiff_meaning:
  assumes "map_wf src" and "map_wf dst"
  shows "\<exists>es. mc_retrieveDiff E D c src dst p =
      (if checkStop E c src \<or> checkStop E c dst then (False, p)
       else (True, fold (\<lambda>(k, s, d). dp_addHeaderDiff D k s d) es p)) \<and>
    distinct (map fst es) \<and>
    (\<forall>k s d. (k, s, d) \<in> set es \<longleftrightarrow>
       cleaned E c k (map_find src k) = s \<and> cleaned E c k (map_find dst k) = d \<and> s \<noteq> d) \<and>
    (\<not> checkStop E c src \<and> \<not> checkStop E c dst \<longrightarrow>
       isDiff (snd (mc_retrieveDiff E D c src dst p)) =
         (isDiff p \<or> (\<exists>k. cleaned E c k (map_find src k) \<noteq> cleaned E c k (map_find dst k))))"
proof -
  let ?a = "applyIgnoreRegex E c src" and ?b = "applyIgnoreRegex E c dst"
  let ?es = "map_differences ?a ?b"
  have wf: "map_wf ?a" "map_wf ?b" using assms by (simp_all add: applyIgnoreRegex_wf)
  have es: "(k, s, d) \<in> set ?es \<longleftrightarrow>
      cleaned E c k (map_find src k) = s \<and> cleaned E c k (map_find dst k) = d \<and> s \<noteq> d" for k s d
    using map_differences_iff [OF wf] assms by (simp add: applyIgnoreRegex_find)
  have "?es \<noteq> [] \<longleftrightarrow> (\<exists>k s d. (k, s, d) \<in> set ?es)" by (cases ?es) auto
  then have ne: "?es \<noteq> [] \<longleftrightarrow> (\<exists>k. cleaned E c k (map_find src k) \<noteq> cleaned E c k (map_find dst k))"
    by (simp add: es)
  show ?thesis
    using mc_retrieveDiff_eq [OF assms, of E D c p] map_differences_distinct [OF wf] es ne
    by (intro exI [of _ ?es]) (simp add: printer.found_header_diffs)
qed

text \<open>C17: What comparing two header maps reports. If a stop expression matches a value under its key
  in either map, nothing is reported and the result is false. Otherwise the printer is given exactly
  the keys on which the maps disagree once the ignore expressions have been applied (a value that
  becomes empty is dropped), each once, with the two values; and the printer has a difference
  afterwards exactly when it had one before or the cleaned maps differ.\<close>

theorem map_compare_meaning:
  assumes "map_wf src" and "map_wf dst"
  shows "\<exists>es. mc_retrieveDiff E D c src dst p =
      (if checkStop E c src \<or> checkStop E c dst then (False, p)
       else (True, fold (\<lambda>(k, s, d). dp_addHeaderDiff D k s d) es p)) \<and>
    distinct (map fst es) \<and>
    (\<forall>k s d. (k, s, d) \<in> set es \<longleftrightarrow>
       cleaned E c k (map_find src k) = s \<and> cleaned E c k (map_find dst k) = d \<and> s \<noteq> d) \<and>
    (\<not> checkStop E c src \<and> \<not> checkStop E c dst \<longrightarrow>
       isDiff (snd (mc_retrieveDiff E D c src dst p)) =
         (isDiff p \<or> (\<exists>k. cleaned E c k (map_find src k) \<noteq> cleaned E c k (map_find dst k))))"
  using assms by (rule mc_retrieveDiff_meaning)

definition ref_diff_lib :: "(string list \<times> json_leaf) list diff_lib" where
  "ref_diff_lib = \<lparr>
     json_new = [],
     json_set = (\<lambda>path v j. (path, v) # j),
     json_member = (\<lambda>path j. list_ex (\<lambda>(q, v). take (length path) q = path) j),
     json_write = (\<lambda>j. concat (map (\<lambda>(path, v). concat path) j)),
     print_double = show_int\<rparr>"

theorem map_compare_meaning_witness:
  "let c = \<lparr>mc_mStopRegex = [(''S'', ''stop'')], mc_mIgnoreRegex = [(''A'', ''x''), (''D'', ''y'')]\<rparr>;
       src = [(''A'', ''1x''), (''B'', ''b''), (''D'', ''y'')]; dst = [(''A'', ''1''), (''B'', ''c''), (''E'', ''e'')]
   in \<exists>es. mc_retrieveDiff ref_lib ref_diff_lib c src dst (createDiffPrinter ref_diff_lib ''i'' MULTILINE) =
        (True, fold (\<lambda>(k, s, d). dp_addHeaderDiff ref_diff_lib k s d) es (createDiffPrinter ref_diff_lib ''i'' MULTILINE)) \<and>
      (\<forall>k s d. (k, s, d) \<in> set es \<longleftrightarrow>
         cleaned ref_lib c k (map_find src k) = s \<and> cleaned ref_lib c k (map_find dst k) = d \<and> s \<noteq> d)"
proof -
  let ?c = "\<lparr>mc_mStopRegex = [(''S'', ''stop'')], mc_mIgnoreRegex = [(''A'', ''x''), (''D'', ''y'')]\<rparr>"
  let ?s = "[(''A'', ''1x''), (''B'', ''b''), (''D'', ''y'')]" and ?d = "[(''A'', ''1''), (''B'', ''c''), (''E'', ''e'')]"
  have "map_wf ?s" "map_wf ?d" by (simp_all add: map_wf_def)
  moreover have "\<not> checkStop ref_lib ?c ?s" "\<not> checkStop ref_lib ?c ?d" by simp_all
  ultimately show ?thesis
    using map_compare_meaning [of ?s ?d ref_lib ref_diff_lib ?c "createDiffPrinter ref_diff_lib ''i'' MULTILINE"]
    unfolding Let_def by (simp only: if_False simp_thms) blast
qed

end
