(* ===== verification/Utf8_Convert.thy ===== *)
theory Utf8_Convert
  imports Utf8 "HOL-Library.Word"
begin

text \<open>
  The rest of the vendored utf8 library (extern/utf8/source/utf8/checked.h, unchecked.h and the
  surrogate and byte order mark helpers of core.h): decoding with exceptions, moving over a text,
  and the conversions between UTF-8, UTF-16 and UTF-32, each in the checked and in the unchecked
  form.

  As in the theory of the sanitising part, an iterator that only moves forward is the rest of the
  text. UTF-16 units and UTF-32 units are words of their width: the constant
  \<open>SURROGATE_OFFSET\<close> is negative as an integer and the code relies on the wrap-around. The
  unchecked functions do not test for the end; \<open>None\<close> is a read past the last octet.
\<close>

unbundle bit_operations_syntax

section \<open>Surrogates and marks (core.h)\<close>

definition LEAD_SURROGATE_MIN :: "16 word" where
  "LEAD_SURROGATE_MIN = 0xd800"

definition LEAD_SURROGATE_MAX :: "16 word" where
  "LEAD_SURROGATE_MAX = 0xdbff"

definition TRAIL_SURROGATE_MIN :: "16 word" where
  "TRAIL_SURROGATE_MIN = 0xdc00"

definition TRAIL_SURROGATE_MAX :: "16 word" where
  "TRAIL_SURROGATE_MAX = 0xdfff"

definition LEAD_OFFSET :: "16 word" where
  "LEAD_OFFSET = ucast (ucast LEAD_SURROGATE_MIN - drop_bit 10 (0x10000 :: 32 word))"

definition SURROGATE_OFFSET :: "32 word" where
  "SURROGATE_OFFSET = 0x10000 - push_bit 10 (ucast LEAD_SURROGATE_MIN) - ucast TRAIL_SURROGATE_MIN"

definition mask16 :: "16 word \<Rightarrow> 16 word" where
  "mask16 oc = 0xffff AND oc"

definition is_lead_surrogate :: "32 word \<Rightarrow> bool" where
  "is_lead_surrogate cp \<longleftrightarrow> ucast LEAD_SURROGATE_MIN \<le> cp \<and> cp \<le> ucast LEAD_SURROGATE_MAX"

definition is_trail_surrogate :: "32 word \<Rightarrow> bool" where
  "is_trail_surrogate cp \<longleftrightarrow> ucast TRAIL_SURROGATE_MIN \<le> cp \<and> cp \<le> ucast TRAIL_SURROGATE_MAX"

definition bom :: "nat list" where
  "bom = [0xef, 0xbb, 0xbf]"

definition starts_with_bom :: "string \<Rightarrow> bool" where
  "starts_with_bom it \<longleftrightarrow>
     (it \<noteq> [] \<and> mask8 (hd it) = bom ! 0) \<and>
     (tl it \<noteq> [] \<and> mask8 (hd (tl it)) = bom ! 1) \<and>
     (tl (tl it) \<noteq> [] \<and> mask8 (hd (tl (tl it))) = bom ! 2)"

text \<open>The deprecated form reads as far as the octets agree.\<close>

fun agree_with :: "nat list \<Rightarrow> string \<Rightarrow> bool option" where
  "agree_with [] it = Some True"
| "agree_with (b # bs) [] = None"
| "agree_with (b # bs) (c # cs) = (if mask8 c = b then agree_with bs cs else Some False)"

definition is_bom :: "string \<Rightarrow> bool option" where
  "is_bom it = agree_with bom it"

section \<open>Decoding with exceptions (checked.h)\<close>

text \<open>The exceptions of the library with what they carry; \<open>Past_end\<close> is not an exception: it is
  a read of an octet that is not there.\<close>

datatype utf8_throw =
    Not_enough_room
  | Invalid_utf8 char
  | Invalid_utf16 "16 word"
  | Invalid_code_point nat
  | Out_of_range
  | Logic_error
  | Past_end

text \<open>\<open>validate_next\<close> writes the code point only when it accepts the sequence, so what
  \<open>invalid_code_point\<close> carries is the initial 0. On an exception the iterator has not moved.\<close>

definition utf8_next :: "string \<Rightarrow> utf8_throw + (nat \<times> string)" where
  "utf8_next it =
     (if it = [] then Inl Past_end
      else (let cp = 0 in
        case validate_next it of
          Inr (cp, it1) \<Rightarrow> Inr (cp, it1)
        | Inl NOT_ENOUGH_ROOM \<Rightarrow> Inl Not_enough_room
        | Inl INVALID_LEAD \<Rightarrow> Inl (Invalid_utf8 (hd it))
        | Inl INCOMPLETE_SEQUENCE \<Rightarrow> Inl (Invalid_utf8 (hd it))
        | Inl OVERLONG_SEQUENCE \<Rightarrow> Inl (Invalid_utf8 (hd it))
        | Inl INVALID_CODE_POINT \<Rightarrow> Inl (Invalid_code_point cp)))"

definition peek_next :: "string \<Rightarrow> utf8_throw + nat" where
  "peek_next it = map_sum id fst (utf8_next it)"

lemma utf8_next_Inr: "utf8_next it = Inr (cp, rest) \<longleftrightarrow> it \<noteq> [] \<and> validate_next it = Inr (cp, rest)"
  by (auto simp: utf8_next_def Let_def split: sum.splits utf_error.splits)

lemma utf8_next_shorter: "utf8_next it = Inr (cp, rest) \<Longrightarrow> length rest < length it"
  by (auto simp: utf8_next_Inr dest: validate_next_shorter [rotated])

text \<open>The iterator is passed by reference: it is returned also when a sequence throws.\<close>

fun utf8_advance :: "nat \<Rightarrow> string \<Rightarrow> utf8_throw option \<times> string" where
  "utf8_advance 0 it = (None, it)"
| "utf8_advance (Suc n) it =
     (case utf8_next it of Inl e \<Rightarrow> (Some e, it) | Inr (cp, it1) \<Rightarrow> utf8_advance n it1)"

function distance_loop :: "string \<Rightarrow> nat \<Rightarrow> utf8_throw + nat" where
  "distance_loop [] dist = Inr dist"
| "distance_loop (c # cs) dist =
     (case utf8_next (c # cs) of Inl e \<Rightarrow> Inl e | Inr (cp, first) \<Rightarrow> distance_loop first (dist + 1))"
  by pat_completeness auto
termination
  by (relation "measure (length \<circ> fst)") (auto dest: utf8_next_shorter)

definition utf8_distance :: "string \<Rightarrow> utf8_throw + nat" where
  "utf8_distance s = distance_loop s 0"

section \<open>Conversions (checked.h)\<close>

definition append_cp :: "nat \<Rightarrow> string \<Rightarrow> utf8_throw + string" where
  "append_cp cp result =
     (case utf8_append cp result of None \<Rightarrow> Inl (Invalid_code_point cp) | Some result1 \<Rightarrow> Inr result1)"

fun utf16to8 :: "16 word list \<Rightarrow> string \<Rightarrow> utf8_throw + string" where
  "utf16to8 [] result = Inr result"
| "utf16to8 (u # start) result =
     (let cp = ucast (mask16 u) :: 32 word in
      if is_lead_surrogate cp
      then (case start of
              [] \<Rightarrow> Inl (Invalid_utf16 (ucast cp))
            | v # start1 \<Rightarrow>
                (let trail_surrogate = ucast (mask16 v) :: 32 word in
                 if is_trail_surrogate trail_surrogate
                 then (let cp1 = push_bit 10 cp + trail_surrogate + SURROGATE_OFFSET in
                       case append_cp (unat cp1) result of
                         Inl e \<Rightarrow> Inl e
                       | Inr result1 \<Rightarrow> utf16to8 start1 result1)
                 else Inl (Invalid_utf16 (ucast trail_surrogate))))
      else if is_trail_surrogate cp then Inl (Invalid_utf16 (ucast cp))
      else (case append_cp (unat cp) result of
              Inl e \<Rightarrow> Inl e
            | Inr result1 \<Rightarrow> utf16to8 start result1))"

definition units16 :: "32 word \<Rightarrow> 16 word list" where
  "units16 cp =
     (if 0xffff < cp
      then [ucast (drop_bit 10 cp + ucast LEAD_OFFSET), ucast ((cp AND 0x3ff) + ucast TRAIL_SURROGATE_MIN)]
      else [ucast cp])"

function utf8to16 :: "string \<Rightarrow> 16 word list \<Rightarrow> utf8_throw + 16 word list" where
  "utf8to16 [] result = Inr result"
| "utf8to16 (c # cs) result =
     (case utf8_next (c # cs) of
        Inl e \<Rightarrow> Inl e
      | Inr (cp, start) \<Rightarrow> utf8to16 start (result @ units16 (of_nat cp)))"
  by pat_completeness auto
termination
  by (relation "measure (length \<circ> fst)") (auto dest: utf8_next_shorter)

fun utf32to8 :: "32 word list \<Rightarrow> string \<Rightarrow> utf8_throw + string" where
  "utf32to8 [] result = Inr result"
| "utf32to8 (cp # start) result =
     (case append_cp (unat cp) result of Inl e \<Rightarrow> Inl e | Inr result1 \<Rightarrow> utf32to8 start result1)"

function utf8to32 :: "string \<Rightarrow> 32 word list \<Rightarrow> utf8_throw + 32 word list" where
  "utf8to32 [] result = Inr result"
| "utf8to32 (c # cs) result =
     (case utf8_next (c # cs) of
        Inl e \<Rightarrow> Inl e
      | Inr (cp, start) \<Rightarrow> utf8to32 start (result @ [of_nat cp]))"
  by pat_completeness auto
termination
  by (relation "measure (length \<circ> fst)") (auto dest: utf8_next_shorter)

section \<open>The unchecked functions (unchecked.h)\<close>

definition unchecked_append :: "nat \<Rightarrow> string \<Rightarrow> string" where
  "unchecked_append cp result =
     (if cp < 0x80 then result @ [octet cp]
      else if cp < 0x800
      then result @ [octet (drop_bit 6 cp OR 0xc0), octet ((cp AND 0x3f) OR 0x80)]
      else if cp < 0x10000
      then result @ [octet (drop_bit 12 cp OR 0xe0), octet ((drop_bit 6 cp AND 0x3f) OR 0x80),
                     octet ((cp AND 0x3f) OR 0x80)]
      else result @ [octet (drop_bit 18 cp OR 0xf0), octet ((drop_bit 12 cp AND 0x3f) OR 0x80),
                     octet ((drop_bit 6 cp AND 0x3f) OR 0x80), octet ((cp AND 0x3f) OR 0x80)])"

text \<open>A lead octet of no length takes none of the cases of the switch: the octet itself is the
  result and the iterator moves by one.\<close>

fun unchecked_next :: "string \<Rightarrow> (nat \<times> string) option" where
  "unchecked_next [] = None"
| "unchecked_next (c # it) =
     (let cp = mask8 c; len = sequence_length c in
      if len = 2
      then (case it of
              d # it1 \<Rightarrow> Some ((push_bit 6 cp AND 0x7ff) + (mask8 d AND 0x3f), it1)
            | _ \<Rightarrow> None)
      else if len = 3
      then (case it of
              d # e # it1 \<Rightarrow>
                Some ((push_bit 12 cp AND 0xffff) + (push_bit 6 (mask8 d) AND 0xfff) + (mask8 e AND 0x3f), it1)
            | _ \<Rightarrow> None)
      else if len = 4
      then (case it of
              d # e # f # it1 \<Rightarrow>
                Some ((push_bit 18 cp AND 0x1fffff) + (push_bit 12 (mask8 d) AND 0x3ffff) +
                  (push_bit 6 (mask8 e) AND 0xfff) + (mask8 f AND 0x3f), it1)
            | _ \<Rightarrow> None)
      else Some (cp, it))"

lemma unchecked_next_shorter: "unchecked_next it = Some (cp, rest) \<Longrightarrow> length rest < length it"
  by (cases it) (auto simp: Let_def split: if_splits list.splits)

definition unchecked_peek_next :: "string \<Rightarrow> nat option" where
  "unchecked_peek_next it = map_option fst (unchecked_next it)"

fun unchecked_advance :: "nat \<Rightarrow> string \<Rightarrow> string option" where
  "unchecked_advance 0 it = Some it"
| "unchecked_advance (Suc n) it =
     (case unchecked_next it of None \<Rightarrow> None | Some (cp, it1) \<Rightarrow> unchecked_advance n it1)"

function unchecked_distance_loop :: "string \<Rightarrow> nat \<Rightarrow> nat option" where
  "unchecked_distance_loop [] dist = Some dist"
| "unchecked_distance_loop (c # cs) dist =
     (case unchecked_next (c # cs) of
        None \<Rightarrow> None
      | Some (cp, first) \<Rightarrow> unchecked_distance_loop first (dist + 1))"
  by pat_completeness auto
termination
  by (relation "measure (length \<circ> fst)") (auto dest: unchecked_next_shorter simp del: unchecked_next.simps)

definition unchecked_distance :: "string \<Rightarrow> nat option" where
  "unchecked_distance s = unchecked_distance_loop s 0"

fun unchecked_utf16to8 :: "16 word list \<Rightarrow> string \<Rightarrow> string option" where
  "unchecked_utf16to8 [] result = Some result"
| "unchecked_utf16to8 (u # start) result =
     (let cp = ucast (mask16 u) :: 32 word in
      if is_lead_surrogate cp
      then (case start of
              [] \<Rightarrow> None
            | v # start1 \<Rightarrow>
                (let trail_surrogate = ucast (mask16 v) :: 32 word;
                     cp1 = push_bit 10 cp + trail_surrogate + SURROGATE_OFFSET
                 in unchecked_utf16to8 start1 (unchecked_append (unat cp1) result)))
      else unchecked_utf16to8 start (unchecked_append (unat cp) result))"

function unchecked_utf8to16 :: "string \<Rightarrow> 16 word list \<Rightarrow> 16 word list option" where
  "unchecked_utf8to16 [] result = Some result"
| "unchecked_utf8to16 (c # cs) result =
     (case unchecked_next (c # cs) of
        None \<Rightarrow> None
      | Some (cp, start) \<Rightarrow> unchecked_utf8to16 start (result @ units16 (of_nat cp)))"
  by pat_completeness auto
termination
  by (relation "measure (length \<circ> fst)") (auto dest: unchecked_next_shorter simp del: unchecked_next.simps)

fun unchecked_utf32to8 :: "32 word list \<Rightarrow> string \<Rightarrow> string" where
  "unchecked_utf32to8 [] result = result"
| "unchecked_utf32to8 (cp # start) result = unchecked_utf32to8 start (unchecked_append (unat cp) result)"

function unchecked_utf8to32 :: "string \<Rightarrow> 32 word list \<Rightarrow> 32 word list option" where
  "unchecked_utf8to32 [] result = Some result"
| "unchecked_utf8to32 (c # cs) result =
     (case unchecked_next (c # cs) of
        None \<Rightarrow> None
      | Some (cp, start) \<Rightarrow> unchecked_utf8to32 start (result @ [of_nat cp]))"
  by pat_completeness auto
termination
  by (relation "measure (length \<circ> fst)") (auto dest: unchecked_next_shorter simp del: unchecked_next.simps)

section \<open>A text is the encoding of its code points\<close>

text \<open>The decoder accepts of every code point only the octets \<open>append\<close> writes: the lead octet and the
  trail octets are digits to base 64, and the length is the shortest.\<close>

lemma octet_mask8 [simp]: "octet (mask8 c) = c"
  by (simp add: octet_def mask8_def)

lemma mask8_less: "mask8 c < 256"
  by (simp add: mask8_def)

lemma octet_parts: "mask8 c div m = k \<Longrightarrow> 0 < m \<Longrightarrow> \<exists>l < m. c = octet (l + m * k)"
proof (intro exI conjI)
  assume k: "mask8 c div m = k" and m: "0 < m"
  show "mask8 c mod m < m" using m by simp
  have "mask8 c mod m + m * k = mask8 c" using k by (metis add.commute mult_div_mod_eq)
  then show "c = octet (mask8 c mod m + m * k)" by simp
qed

lemma trail_parts: "is_trail c \<Longrightarrow> \<exists>l < 64. c = octet (l + 128)"
  using octet_parts [of c 64 2] by (simp add: is_trail_def drop_bit_eq_div)

lemma lead_parts:
  "sequence_length c = 1 \<Longrightarrow> mask8 c < 0x80"
  "sequence_length c = 2 \<Longrightarrow> \<exists>h < 0x20. c = octet (h + 0xc0)"
  "sequence_length c = 3 \<Longrightarrow> \<exists>h < 0x10. c = octet (h + 0xe0)"
  "sequence_length c = 4 \<Longrightarrow> \<exists>h < 0x8. c = octet (h + 0xf0)"
  using octet_parts [of c 32 6] octet_parts [of c 16 14] octet_parts [of c 8 30]
  by (auto simp: sequence_length_def drop_bit_eq_div Let_def split: if_splits)

lemma six_bit_digits:
  "l < 64 \<Longrightarrow> (64 * a + l) div 64 = a" "l < 64 \<Longrightarrow> (64 * a + l) mod 64 = (l :: nat)"
  by simp_all

lemma octets_of_2:
  assumes cp: "cp = 64 * h + l" and "h < 0x20" "l < 64" "0x80 \<le> cp"
  shows "octets_of cp = [octet (h + 0xc0), octet (l + 0x80)]"
proof -
  have "cp div 64 = h" "cp mod 64 = l" "cp < 0x800" unfolding cp using assms(2,3) by simp_all
  then show ?thesis using assms(4) by (simp add: octets_of_def)
qed

lemma octets_of_3:
  assumes "cp = 4096 * h + 64 * m + l" and "h < 0x10" "m < 64" "l < 64" "0x800 \<le> cp"
  shows "octets_of cp = [octet (h + 0xe0), octet (m + 0x80), octet (l + 0x80)]"
proof -
  have cp: "cp = 64 * (64 * h + m) + l" "cp < 0x10000" using assms(1-4) by simp_all
  have low: "cp div 64 = 64 * h + m" "cp mod 64 = l" unfolding cp(1) by (rule six_bit_digits [OF assms(4)])+
  moreover have "cp div 4096 = cp div 64 div 64" by (simp flip: div_mult2_eq)
  then have "cp div 4096 = h" "cp div 64 mod 64 = m" using six_bit_digits [OF assms(3)] low by simp_all
  ultimately show ?thesis using assms(5) cp(2) by (simp add: octets_of_def)
qed

lemma octets_of_4:
  assumes "cp = 262144 * h + 4096 * n + 64 * m + l" and "h < 0x8" "n < 64" "m < 64" "l < 64" "0x10000 \<le> cp"
  shows "octets_of cp = [octet (h + 0xf0), octet (n + 0x80), octet (m + 0x80), octet (l + 0x80)]"
proof -
  have cp: "cp = 64 * (64 * (64 * h + n) + m) + l" using assms(1) by simp
  have low: "cp div 64 = 64 * (64 * h + n) + m" "cp mod 64 = l" unfolding cp(1) by (rule six_bit_digits [OF assms(5)])+
  have mid: "cp div 64 div 64 = 64 * h + n" "cp div 64 mod 64 = m"
    unfolding low(1) by (rule six_bit_digits [OF assms(4)])+
  have "cp div 64 div 64 div 64 = h" "cp div 64 div 64 mod 64 = n"
    unfolding mid(1) by (rule six_bit_digits [OF assms(3)])+
  moreover have "cp div 4096 = cp div 64 div 64" "cp div 262144 = cp div 64 div 64 div 64"
    by (simp_all flip: div_mult2_eq)
  ultimately show ?thesis using assms(6) low(2) mid(2) by (simp add: octets_of_def)
qed

lemma decode_canonical:
  assumes "utf8_decode s = Inr (cp, rest)"
  shows "is_code_point_valid cp \<and> s = octets_of cp @ rest"
proof -
  obtain c cs where s: "s = c # cs" using assms by (cases s) auto
  note d = assms [unfolded s]
  consider "sequence_length c = 1" | "sequence_length c = 2" | "sequence_length c = 3" | "sequence_length c = 4"
    using sequence_length_range [of c] d by fastforce
  then show ?thesis
  proof cases
    case 1
    with d lead_parts(1) [of c] show ?thesis by (auto simp: s octets_of_def)
  next
    case 2
    then obtain h where h: "h < 0x20" "c = octet (h + 0xc0)" using lead_parts by blast
    from 2 d obtain x where x: "cs = x # rest" "is_trail x" "cp = cp2 c x" "is_code_point_valid cp"
      "\<not> is_overlong_sequence cp 2" by (auto split: list.splits if_splits)
    obtain l where l: "l < 64" "x = octet (l + 128)" using trail_parts x(2) by blast
    have cp: "cp = 64 * h + l" using x(3) h l cp2_octets by simp
    then have "0x80 \<le> 64 * h + l" using x(5) by (simp add: is_overlong_sequence_def split: if_splits)
    then show ?thesis using octets_of_2 [OF cp h(1) l(1)] cp x h l s by simp
  next
    case 3
    then obtain h where h: "h < 0x10" "c = octet (h + 0xe0)" using lead_parts by blast
    from 3 d obtain x y where x: "cs = x # y # rest" "is_trail x" "is_trail y" "cp = cp3 c x y"
      "is_code_point_valid cp" "\<not> is_overlong_sequence cp 3" by (auto split: list.splits if_splits)
    obtain m l where l: "m < 64" "x = octet (m + 128)" "l < 64" "y = octet (l + 128)"
      using trail_parts [OF x(2)] trail_parts [OF x(3)] by auto
    have cp: "cp = 4096 * h + 64 * m + l" using x(4) h l cp3_octets by simp
    then have "0x800 \<le> 4096 * h + 64 * m + l" using x(6) by (simp add: is_overlong_sequence_def split: if_splits)
    then show ?thesis using octets_of_3 [OF cp h(1) l(1,3)] cp x h l s by simp
  next
    case 4
    then obtain h where h: "h < 0x8" "c = octet (h + 0xf0)" using lead_parts by blast
    from 4 d obtain x y z where x: "cs = x # y # z # rest" "is_trail x" "is_trail y" "is_trail z"
      "cp = cp4 c x y z" "is_code_point_valid cp" "\<not> is_overlong_sequence cp 4"
      by (auto split: list.splits if_splits)
    obtain n m l where l: "n < 64" "x = octet (n + 128)" "m < 64" "y = octet (m + 128)" "l < 64" "z = octet (l + 128)"
      using trail_parts [OF x(2)] trail_parts [OF x(3)] trail_parts [OF x(4)] by auto
    have cp: "cp = 262144 * h + 4096 * n + 64 * m + l" using x(5) h l cp4_octets by simp
    then have "0x10000 \<le> 262144 * h + 4096 * n + 64 * m + l"
      using x(7) by (simp add: is_overlong_sequence_def split: if_splits)
    then show ?thesis using octets_of_4 [OF cp h(1) l(1,3,5)] cp x h l s by simp
  qed
qed


lemma decodes_canonical:
  "validate_next s = Inr (cp, rest) \<Longrightarrow> s \<noteq> [] \<Longrightarrow> is_code_point_valid cp \<and> s = octets_of cp @ rest"
  by (metis decode_canonical validate_next_decode neq_Nil_conv)

definition encode_utf8 :: "nat list \<Rightarrow> string" where
  "encode_utf8 cps = concat (map octets_of cps)"

lemma encode_simps [simp]: "encode_utf8 [] = []" "encode_utf8 (cp # cps) = octets_of cp @ encode_utf8 cps"
  "encode_utf8 (xs @ ys) = encode_utf8 xs @ encode_utf8 ys"
  by (simp_all add: encode_utf8_def)

lemma encode_empty [simp]: "encode_utf8 cps = [] \<longleftrightarrow> cps = []"
  by (cases cps) (simp_all add: octets_of_nonempty)

lemma encode_valid: "list_all is_code_point_valid cps \<Longrightarrow> is_valid (encode_utf8 cps)"
  by (induction cps) (simp_all add: is_valid_append octets_of_valid)

lemma valid_encoded: "is_valid s \<Longrightarrow> \<exists>cps. list_all is_code_point_valid cps \<and> s = encode_utf8 cps"
proof (induction s rule: find_invalid.induct)
  case 1
  show ?case by (intro exI [of _ "[]"]) simp
next
  case (2 c cs)
  then obtain cp rest where v: "validate_next (c # cs) = Inr (cp, rest)" "is_valid rest"
    by (auto split: sum.splits)
  then obtain cps where "list_all is_code_point_valid cps" "rest = encode_utf8 cps" using 2 by blast
  with decodes_canonical [OF v(1)] show ?case by (intro exI [of _ "cp # cps"]) simp
qed

lemma valid_iff_encoded: "is_valid s \<longleftrightarrow> (\<exists>cps. list_all is_code_point_valid cps \<and> s = encode_utf8 cps)"
  using encode_valid valid_encoded by blast

lemma octets_of_Cons: "\<exists>c cs. octets_of cp = c # cs"
  using octets_of_nonempty [of cp] by (cases "octets_of cp") auto

lemma utf8_next_octets [simp]: "is_code_point_valid cp \<Longrightarrow> utf8_next (octets_of cp @ q) = Inr (cp, q)"
  by (simp add: utf8_next_Inr decode_octets octets_of_nonempty)

lemma unchecked_next_decoded: "utf8_decode s = Inr r \<Longrightarrow> unchecked_next s = Some r"
  using sequence_length_range [of "hd s"]
  by (cases s; cases r) (auto simp: cp2_def cp3_def cp4_def Let_def split: if_splits list.splits)

lemma unchecked_next_octets [simp]:
  "is_code_point_valid cp \<Longrightarrow> unchecked_next (octets_of cp @ q) = Some (cp, q)"
  using decode_octets [of cp q] octets_of_Cons [of cp] unchecked_next_decoded validate_next_decode
  by (metis append_Cons)


lemma loop_octets:
  assumes "is_code_point_valid cp"
  shows "distance_loop (octets_of cp @ q) n = distance_loop q (n + 1)"
    and "utf8to16 (octets_of cp @ q) us = utf8to16 q (us @ units16 (of_nat cp))"
    and "utf8to32 (octets_of cp @ q) ws = utf8to32 q (ws @ [of_nat cp])"
    and "unchecked_distance_loop (octets_of cp @ q) n = unchecked_distance_loop q (n + 1)"
    and "unchecked_utf8to16 (octets_of cp @ q) us = unchecked_utf8to16 q (us @ units16 (of_nat cp))"
    and "unchecked_utf8to32 (octets_of cp @ q) ws = unchecked_utf8to32 q (ws @ [of_nat cp])"
proof -
  obtain c cs where c: "octets_of cp @ q = c # cs" using octets_of_Cons [of cp] by auto
  have n: "utf8_next (c # cs) = Inr (cp, q)" "unchecked_next (c # cs) = Some (cp, q)"
    using utf8_next_octets [OF assms, of q] unchecked_next_octets [OF assms, of q] c by simp_all
  show "distance_loop (octets_of cp @ q) n = distance_loop q (n + 1)"
    "utf8to16 (octets_of cp @ q) us = utf8to16 q (us @ units16 (of_nat cp))"
    "utf8to32 (octets_of cp @ q) ws = utf8to32 q (ws @ [of_nat cp])"
    "unchecked_distance_loop (octets_of cp @ q) n = unchecked_distance_loop q (n + 1)"
    "unchecked_utf8to16 (octets_of cp @ q) us = unchecked_utf8to16 q (us @ units16 (of_nat cp))"
    "unchecked_utf8to32 (octets_of cp @ q) ws = unchecked_utf8to32 q (ws @ [of_nat cp])"
    by (simp_all add: c n del: unchecked_next.simps)
qed

definition units16_of :: "nat list \<Rightarrow> 16 word list" where
  "units16_of cps = concat (map (\<lambda>cp. units16 (of_nat cp)) cps)"

lemma units16_of_simps [simp]: "units16_of [] = []" "units16_of (cp # cps) = units16 (of_nat cp) @ units16_of cps"
  by (simp_all add: units16_of_def)

lemma decode_encoded:
  assumes "list_all is_code_point_valid cps"
  shows "distance_loop (encode_utf8 cps) n = Inr (n + length cps)"
    and "utf8to16 (encode_utf8 cps) us = Inr (us @ units16_of cps)"
    and "utf8to32 (encode_utf8 cps) ws = Inr (ws @ map of_nat cps)"
    and "unchecked_distance_loop (encode_utf8 cps) n = Some (n + length cps)"
    and "unchecked_utf8to16 (encode_utf8 cps) us = Some (us @ units16_of cps)"
    and "unchecked_utf8to32 (encode_utf8 cps) ws = Some (ws @ map of_nat cps)"
  using assms by (induction cps arbitrary: n us ws) (simp_all add: loop_octets)

lemma advance_encoded:
  "list_all is_code_point_valid cps \<Longrightarrow> n \<le> length cps \<Longrightarrow>
     utf8_advance n (encode_utf8 cps) = (None, encode_utf8 (drop n cps)) \<and>
     unchecked_advance n (encode_utf8 cps) = Some (encode_utf8 (drop n cps))"
proof (induction n arbitrary: cps)
  case (Suc n)
  then show ?case by (cases cps) (simp_all del: unchecked_next.simps)
qed simp

section \<open>UTF-32\<close>

lemma valid_cp_less: "is_code_point_valid cp \<Longrightarrow> cp \<le> 0x10ffff"
  by (simp add: is_code_point_valid_def CODE_POINT_MAX_def)

lemma unat_valid_cp: "is_code_point_valid cp \<Longrightarrow> unat (of_nat cp :: 32 word) = cp"
  using valid_cp_less [of cp] by (simp add: unat_of_nat take_bit_nat_eq_self)

lemma append_cp_valid: "append_cp cp r = (if is_code_point_valid cp then Inr (r @ octets_of cp) else Inl (Invalid_code_point cp))"
  by (simp add: append_cp_def utf8_append_octets) (simp add: utf8_append_def)

lemma unchecked_append_valid: "is_code_point_valid cp \<Longrightarrow> unchecked_append cp r = r @ octets_of cp"
  using utf8_append_octets [of cp r] by (auto simp: utf8_append_def unchecked_append_def split: if_splits)

lemma utf32to8_encodes:
  "utf32to8 ws r =
     (case find (\<lambda>w. \<not> is_code_point_valid (unat w)) ws of
        Some w \<Rightarrow> Inl (Invalid_code_point (unat w))
      | None \<Rightarrow> Inr (r @ encode_utf8 (map unat ws)))"
  by (induction ws arbitrary: r) (simp_all add: append_cp_valid split: option.split)

lemma unchecked_utf32to8_encodes:
  "list_all is_code_point_valid (map unat ws) \<Longrightarrow> unchecked_utf32to8 ws r = r @ encode_utf8 (map unat ws)"
  by (induction ws arbitrary: r) (simp_all add: unchecked_append_valid)

section \<open>UTF-16\<close>

lemma unat_up: "unat (ucast (u :: 16 word) :: 32 word) = unat u"
proof -
  have "unat u < 2 ^ 16" using unsigned_less [of u] by simp
  then show ?thesis by (simp add: unsigned_ucast_eq take_bit_nat_eq_self)
qed

lemma unat_down: "unat (ucast (w :: 32 word) :: 16 word) = unat w mod 65536"
  by (simp add: unsigned_ucast_eq unsigned_take_bit_eq take_bit_eq_mod)

lemma unat_low_bits: "unat ((w :: 32 word) AND 0x3ff) = unat w mod 1024"
proof -
  have e: "(0x3ff :: 32 word) = mask 10" by (simp add: mask_eq_exp_minus_1)
  show ?thesis unfolding e take_bit_eq_mask [symmetric] unsigned_take_bit_eq by (simp add: take_bit_eq_mod)
qed

lemma unat_high_bits: "unat (drop_bit 10 (w :: 32 word)) = unat w div 1024"
  by (simp only: unat_drop_bit_eq drop_bit_eq_div [of _ "unat w"]) simp

lemma mask16_id [simp]: "mask16 u = u"
proof -
  have e: "(0xffff :: 16 word) = mask LENGTH(16)" by (simp add: mask_eq_exp_minus_1)
  show ?thesis
    unfolding mask16_def e by (simp add: and.commute [of _ u] take_bit_word_eq_self flip: take_bit_eq_mask)
qed

lemma surrogate_values:
  "LEAD_OFFSET = 0xd7c0" "SURROGATE_OFFSET = 0xfca02400"
  by (simp_all add: LEAD_OFFSET_def SURROGATE_OFFSET_def LEAD_SURROGATE_MIN_def TRAIL_SURROGATE_MIN_def)

definition lead16 :: "16 word \<Rightarrow> bool" where
  "lead16 u \<longleftrightarrow> 0xd800 \<le> unat u \<and> unat u \<le> 0xdbff"

definition trail16 :: "16 word \<Rightarrow> bool" where
  "trail16 u \<longleftrightarrow> 0xdc00 \<le> unat u \<and> unat u \<le> 0xdfff"

lemma surrogate_ranges:
  "is_lead_surrogate (ucast u) \<longleftrightarrow> lead16 u" "is_trail_surrogate (ucast u) \<longleftrightarrow> trail16 u"
  by (simp_all add: lead16_def trail16_def is_lead_surrogate_def is_trail_surrogate_def LEAD_SURROGATE_MIN_def TRAIL_SURROGATE_MIN_def
      LEAD_SURROGATE_MAX_def TRAIL_SURROGATE_MAX_def word_le_nat_alt unat_up)

definition join16 :: "16 word \<Rightarrow> 16 word \<Rightarrow> nat" where
  "join16 u v = 1024 * (unat u - 0xd7c0) + (unat v - 0xdc00)"

lemma join_surrogates:
  assumes "lead16 u" "trail16 v"
  shows "unat (push_bit 10 (ucast u) + ucast v + SURROGATE_OFFSET) = join16 u v"
proof -
  note r = assms [unfolded lead16_def trail16_def]
  have "unat (push_bit 10 (ucast u :: 32 word)) = 1024 * unat u"
    using r by (simp add: unat_word_ariths push_bit_eq_mult unat_up)
  then have "unat (push_bit 10 (ucast u) + ucast v + SURROGATE_OFFSET) =
      (1024 * unat u + unat v + 0xfca02400) mod 2 ^ 32"
    using r by (simp only: unat_word_ariths(1) surrogate_values unat_up) (simp add: mod_simps)
  also have "1024 * unat u + unat v + 0xfca02400 = join16 u v + 2 ^ 32"
    using r by (simp add: join16_def right_diff_distrib')
  also have "(join16 u v + 2 ^ 32) mod 2 ^ 32 = join16 u v mod 2 ^ 32"
    by (rule mod_add_self2)
  also have "\<dots> = join16 u v"
    by (rule mod_less) (use r in \<open>auto simp: join16_def\<close>)
  finally show ?thesis .
qed

lemma units16_pair:
  assumes "0x10000 \<le> cp" "cp \<le> 0x10ffff"
  obtains u v where "units16 (of_nat cp) = [u, v]" "unat u = cp div 1024 + 0xd7c0" "unat v = cp mod 1024 + 0xdc00"
proof -
  have cp: "unat (of_nat cp :: 32 word) = cp" using assms by (simp add: unat_of_nat take_bit_nat_eq_self)
  let ?u = "ucast (drop_bit 10 (of_nat cp :: 32 word) + ucast LEAD_OFFSET) :: 16 word"
  let ?v = "ucast ((of_nat cp AND 0x3ff :: 32 word) + ucast TRAIL_SURROGATE_MIN) :: 16 word"
  have d: "cp div 1024 < 0x440" using assms(2) by (simp add: div_less_iff_less_mult)
  have "unat ?u = cp div 1024 + 0xd7c0"
    using d by (simp only: unat_down unat_word_ariths(1) unat_high_bits cp surrogate_values unat_up) simp
  moreover have "unat ?v = cp mod 1024 + 0xdc00"
    by (simp only: unat_down unat_word_ariths(1) unat_low_bits cp TRAIL_SURROGATE_MIN_def unat_up)
       (use mod_less_divisor [of 1024 cp] in simp)
  moreover have "0xffff < (of_nat cp :: 32 word)" using assms cp by (simp only: word_less_nat_alt) simp
  ultimately show ?thesis using that [of ?u ?v] by (simp add: units16_def)
qed

lemma units16_single:
  assumes "cp \<le> 0xffff"
  shows "units16 (of_nat cp) = [of_nat cp]" "unat (of_nat cp :: 16 word) = cp"
proof -
  have cp: "unat (of_nat cp :: 32 word) = cp" using assms by (simp add: unat_of_nat take_bit_nat_eq_self)
  show u: "unat (of_nat cp :: 16 word) = cp" using assms by (simp add: unat_of_nat take_bit_nat_eq_self)
  have "\<not> 0xffff < (of_nat cp :: 32 word)" using assms cp by (simp only: word_less_nat_alt) simp
  moreover have "ucast (of_nat cp :: 32 word) = (of_nat cp :: 16 word)"
    using assms by (simp add: word_eq_iff_unsigned [where ?'a = nat] unat_down cp u)
  ultimately show "units16 (of_nat cp) = [of_nat cp]" by (simp add: units16_def)
qed


lemma join16_valid: "lead16 u \<Longrightarrow> trail16 v \<Longrightarrow> is_code_point_valid (join16 u v) \<and> 0x10000 \<le> join16 u v"
  by (auto simp: join16_def lead16_def trail16_def is_code_point_valid_def is_surrogate_def CODE_POINT_MAX_def)

lemma unit_valid: "\<not> lead16 u \<Longrightarrow> \<not> trail16 u \<Longrightarrow> is_code_point_valid (unat u)"
proof -
  have "unat u < 2 ^ 16" using unsigned_less [of u] by simp
  then show "\<not> lead16 u \<Longrightarrow> \<not> trail16 u \<Longrightarrow> is_code_point_valid (unat u)"
    by (auto simp: lead16_def trail16_def is_code_point_valid_def is_surrogate_def CODE_POINT_MAX_def)
qed

lemma ucast_back [simp]: "ucast (ucast (u :: 16 word) :: 32 word) = u"
proof -
  have "unat u < 2 ^ 16" using unsigned_less [of u] by simp
  then show ?thesis by (simp add: word_eq_iff_unsigned [where ?'a = nat] unat_down unat_up)
qed

lemma utf16to8_steps:
  "lead16 u \<Longrightarrow> utf16to8 [u] r = Inl (Invalid_utf16 u)"
  "lead16 u \<Longrightarrow> utf16to8 (u # v # us) r =
     (if trail16 v then utf16to8 us (r @ octets_of (join16 u v)) else Inl (Invalid_utf16 v))"
  "\<not> lead16 u \<Longrightarrow> utf16to8 (u # us) r =
     (if trail16 u then Inl (Invalid_utf16 u) else utf16to8 us (r @ octets_of (unat u)))"
  by (simp_all add: surrogate_ranges unat_up append_cp_valid unit_valid join_surrogates join16_valid Let_def
      del: utf16to8.simps(2) add: utf16to8.simps(2) [of u])

lemma unchecked_utf16to8_steps:
  "lead16 u \<Longrightarrow> trail16 v \<Longrightarrow>
     unchecked_utf16to8 (u # v # us) r = unchecked_utf16to8 us (r @ octets_of (join16 u v))"
  "\<not> lead16 u \<Longrightarrow> \<not> trail16 u \<Longrightarrow>
     unchecked_utf16to8 (u # us) r = unchecked_utf16to8 us (r @ octets_of (unat u))"
  by (simp_all add: surrogate_ranges unat_up unchecked_append_valid unit_valid join_surrogates join16_valid Let_def
      del: unchecked_utf16to8.simps(2) add: unchecked_utf16to8.simps(2) [of u])

text \<open>The code points of a sequence of units, where every lead surrogate is followed by a trail
  surrogate and no trail surrogate stands alone.\<close>

fun code_points16 :: "16 word list \<Rightarrow> nat list option" where
  "code_points16 [] = Some []"
| "code_points16 [u] = (if lead16 u \<or> trail16 u then None else Some [unat u])"
| "code_points16 (u # v # us) =
     (if lead16 u
      then (if trail16 v then map_option (\<lambda>cps. join16 u v # cps) (code_points16 us) else None)
      else if trail16 u then None
      else map_option (\<lambda>cps. unat u # cps) (code_points16 (v # us)))"

lemma utf16to8_accepts:
  "code_points16 us = Some cps \<Longrightarrow>
     list_all is_code_point_valid cps \<and> utf16to8 us r = Inr (r @ encode_utf8 cps) \<and>
     unchecked_utf16to8 us r = Some (r @ encode_utf8 cps)"
  by (induction us arbitrary: r cps rule: code_points16.induct)
     (auto simp: utf16to8_steps unchecked_utf16to8_steps join16_valid unit_valid
       simp del: utf16to8.simps(2) unchecked_utf16to8.simps(2) split: if_splits)

lemma trail_not_lead: "trail16 u \<Longrightarrow> \<not> lead16 u"
  by (simp add: lead16_def trail16_def)

lemma utf16to8_rejects: "code_points16 us = None \<Longrightarrow> \<exists>e \<in> set us. utf16to8 us r = Inl (Invalid_utf16 e)"
  by (induction us arbitrary: r rule: code_points16.induct)
     (auto simp: utf16to8_steps trail_not_lead simp del: utf16to8.simps(2) split: if_splits)

lemma units16_join:
  assumes "lead16 u" "trail16 v"
  shows "units16 (of_nat (join16 u v)) = [u, v]"
proof -
  let ?cp = "join16 u v"
  have "0x10000 \<le> ?cp" "?cp \<le> 0x10ffff" using join16_valid [OF assms] valid_cp_less by auto
  then obtain u' v' where p: "units16 (of_nat ?cp) = [u', v']" "unat u' = ?cp div 1024 + 0xd7c0"
    "unat v' = ?cp mod 1024 + 0xdc00" by (rule units16_pair)
  have "unat v - 0xdc00 < 1024" using assms(2) by (auto simp: trail16_def)
  then have "?cp div 1024 = unat u - 0xd7c0" "?cp mod 1024 = unat v - 0xdc00" unfolding join16_def by simp_all
  then have "unat u' = unat u" "unat v' = unat v" using p assms by (simp_all add: lead16_def trail16_def)
  then show ?thesis using p(1) by (simp add: word_eq_iff_unsigned [where ?'a = nat])
qed

lemma units16_unit: "units16 (ucast (u :: 16 word)) = [u]"
proof -
  have "unat u < 2 ^ 16" using unsigned_less [of u] by simp
  then show ?thesis using units16_single(1) [of "unat u"] by simp
qed

lemma code_points16_units: "code_points16 us = Some cps \<Longrightarrow> units16_of cps = us"
  by (induction us arbitrary: cps rule: code_points16.induct)
     (auto simp: units16_join units16_unit split: if_splits)

lemma code_points16_steps:
  "lead16 u \<Longrightarrow> trail16 v \<Longrightarrow> code_points16 (u # v # us) = map_option (\<lambda>cps. join16 u v # cps) (code_points16 us)"
  "\<not> lead16 u \<Longrightarrow> \<not> trail16 u \<Longrightarrow> code_points16 (u # us) = map_option (\<lambda>cps. unat u # cps) (code_points16 us)"
  by simp (cases us; simp)

lemma code_points16_cp:
  assumes "is_code_point_valid cp"
  shows "code_points16 (units16 (of_nat cp) @ us) = map_option (\<lambda>cps. cp # cps) (code_points16 us)"
proof (cases "cp \<le> 0xffff")
  case True
  with assms have "\<not> lead16 (of_nat cp)" "\<not> trail16 (of_nat cp)"
    by (auto simp: lead16_def trail16_def units16_single is_code_point_valid_def is_surrogate_def)
  with True show ?thesis by (simp add: units16_single code_points16_steps del: code_points16.simps)
next
  case False
  then have "0x10000 \<le> cp" by simp
  then obtain u v where p: "units16 (of_nat cp) = [u, v]" "unat u = cp div 1024 + 0xd7c0"
    "unat v = cp mod 1024 + 0xdc00" using valid_cp_less [OF assms] by (rule units16_pair)
  have "64 \<le> cp div 1024" "cp div 1024 < 0x440" "cp mod 1024 < 1024"
    using False valid_cp_less [OF assms] by (simp_all add: div_less_iff_less_mult less_eq_div_iff_mult_less_eq)
  with p have "lead16 u" "trail16 v" "join16 u v = cp" by (simp_all add: lead16_def trail16_def join16_def)
  then show ?thesis by (simp add: p code_points16_steps)
qed

lemma units_code_points16: "list_all is_code_point_valid cps \<Longrightarrow> code_points16 (units16_of cps) = Some cps"
  by (induction cps) (simp_all add: code_points16_cp)


section \<open>Round trips and agreement\<close>

lemma utf16to8_Inr: "utf16to8 us [] = Inr t \<Longrightarrow> \<exists>cps. code_points16 us = Some cps \<and> t = encode_utf8 cps"
  using utf16to8_rejects [of us "[]"] utf16to8_accepts [of us] by (cases "code_points16 us") fastforce+

lemma find_None_all: "find P xs = None \<longleftrightarrow> list_all (\<lambda>x. \<not> P x) xs"
  by (auto simp: find_None_iff list_all_iff)

lemma utf32to8_Inr: "utf32to8 ws [] = Inr t \<longleftrightarrow> list_all is_code_point_valid (map unat ws) \<and> t = encode_utf8 (map unat ws)"
  using find_None_all [of "\<lambda>w. \<not> is_code_point_valid (unat w)" ws]
  by (auto simp: utf32to8_encodes list.pred_map comp_def split: option.splits)

lemma unat_cps: "list_all is_code_point_valid cps \<Longrightarrow> map unat (map of_nat cps :: 32 word list) = cps"
  by (induction cps) (simp_all add: unat_valid_cp)

text \<open>C35: The conversions are inverse to each other. Valid UTF-8 converts to UTF-16 and to UTF-32,
  and converting back gives the text; whatever UTF-16 or UTF-32 is converted to UTF-8 gives valid
  UTF-8 that converts back to the same units. UTF-16 is accepted exactly when its surrogates are
  paired, and is otherwise refused with \<open>invalid_utf16\<close>; UTF-32 is accepted exactly when every unit
  is a code point.\<close>

theorem utf_conversions_roundtrip:
  "(is_valid s \<longrightarrow>
      (\<exists>us ws. utf8to16 s [] = Inr us \<and> utf16to8 us [] = Inr s \<and>
               utf8to32 s [] = Inr ws \<and> utf32to8 ws [] = Inr s)) \<and>
   (utf16to8 us [] = Inr t \<longrightarrow> is_valid t \<and> utf8to16 t [] = Inr us) \<and>
   (utf32to8 ws [] = Inr t \<longrightarrow> is_valid t \<and> utf8to32 t [] = Inr ws) \<and>
   ((\<exists>t. utf16to8 us [] = Inr t) \<longleftrightarrow> code_points16 us \<noteq> None) \<and>
   (code_points16 us = None \<longrightarrow> (\<exists>e. utf16to8 us [] = Inl (Invalid_utf16 e))) \<and>
   ((\<exists>t. utf32to8 ws [] = Inr t) \<longleftrightarrow> list_all (\<lambda>w. is_code_point_valid (unat w)) ws)"
proof (intro conjI impI)
  assume "is_valid s"
  then obtain cps where cps: "list_all is_code_point_valid cps" "s = encode_utf8 cps" using valid_encoded by blast
  show "\<exists>us ws. utf8to16 s [] = Inr us \<and> utf16to8 us [] = Inr s \<and>
               utf8to32 s [] = Inr ws \<and> utf32to8 ws [] = Inr s"
    using decode_encoded [OF cps(1)] utf16to8_accepts [OF units_code_points16 [OF cps(1)]] cps unat_cps [OF cps(1)]
    by (intro exI [of _ "units16_of cps"] exI [of _ "map of_nat cps"]) (simp add: utf32to8_Inr del: map_map)
next
  assume "utf16to8 us [] = Inr t"
  then obtain cps where cps: "code_points16 us = Some cps" "t = encode_utf8 cps" using utf16to8_Inr by blast
  then have "list_all is_code_point_valid cps" using utf16to8_accepts by blast
  then show "is_valid t" "utf8to16 t [] = Inr us"
    using cps encode_valid decode_encoded(2) code_points16_units by auto
next
  assume "utf32to8 ws [] = Inr t"
  then show "is_valid t" "utf8to32 t [] = Inr ws"
    using encode_valid decode_encoded(3) [of "map unat ws" "[]"] by (simp_all add: utf32to8_Inr comp_def)
next
  show "(\<exists>t. utf16to8 us [] = Inr t) \<longleftrightarrow> code_points16 us \<noteq> None"
    using utf16to8_Inr [of us] utf16to8_accepts [of us _ "[]"] by blast
next
  assume "code_points16 us = None"
  then show "\<exists>e. utf16to8 us [] = Inl (Invalid_utf16 e)" using utf16to8_rejects by blast
next
  show "(\<exists>t. utf32to8 ws [] = Inr t) \<longleftrightarrow> list_all (\<lambda>w. is_code_point_valid (unat w)) ws"
    by (simp add: utf32to8_Inr list.pred_map comp_def)
qed

text \<open>U+1F600, which needs four octets and a pair of surrogates.\<close>

theorem utf_conversions_roundtrip_witness:
  "utf16to8 [0xd83d, 0xde00] [] = Inr (octets_of 0x1f600) \<and> is_valid (octets_of 0x1f600) \<and>
   utf8to16 (octets_of 0x1f600) [] = Inr [0xd83d, 0xde00] \<and>
   code_points16 [0xde00] = None \<and> (\<exists>e. utf16to8 [0xde00] [] = Inl (Invalid_utf16 e))"
proof -
  have cp: "code_points16 [0xd83d, 0xde00] = Some [0x1f600]" "code_points16 [0xde00] = None"
    by (simp_all add: lead16_def trail16_def join16_def)
  then have "utf16to8 [0xd83d, 0xde00] [] = Inr (octets_of 0x1f600)"
    using utf16to8_accepts [OF cp(1), of "[]"] by simp
  then show ?thesis
    using cp(2) utf_conversions_roundtrip [of "[]" "[0xd83d, 0xde00]" "octets_of 0x1f600" "[]"]
      utf_conversions_roundtrip [of "[]" "[0xde00]" "[]" "[]"] by blast
qed

lemma unchecked_next_agrees: "utf8_next s = Inr r \<Longrightarrow> unchecked_next s = Some r"
proof -
  assume n: "utf8_next s = Inr r"
  obtain cp rest where r: "r = (cp, rest)" by (cases r)
  then obtain c cs where "s = c # cs" "validate_next s = Inr r" using n by (cases s) (auto simp: utf8_next_Inr)
  then show ?thesis using unchecked_next_decoded validate_next_decode by metis
qed

lemma unchecked_advance_agrees: "utf8_advance n s = (None, q) \<Longrightarrow> unchecked_advance n s = Some q"
  by (induction n s rule: utf8_advance.induct)
     (auto simp: unchecked_next_agrees simp del: unchecked_next.simps split: sum.splits)

lemma unchecked_loops_agree:
  "distance_loop s n = Inr m \<Longrightarrow> unchecked_distance_loop s n = Some m"
  "utf8to16 s us = Inr vs \<Longrightarrow> unchecked_utf8to16 s us = Some vs"
  "utf8to32 s ws = Inr xs \<Longrightarrow> unchecked_utf8to32 s ws = Some xs"
  subgoal by (induction s n rule: distance_loop.induct)
     (auto simp: unchecked_next_agrees simp del: unchecked_next.simps split: sum.splits)
  subgoal by (induction s us rule: utf8to16.induct)
     (auto simp: unchecked_next_agrees simp del: unchecked_next.simps split: sum.splits)
  subgoal by (induction s ws rule: utf8to32.induct)
     (auto simp: unchecked_next_agrees simp del: unchecked_next.simps split: sum.splits)
  done

lemma unchecked_utf16to8_agrees: "utf16to8 us p = Inr t \<Longrightarrow> unchecked_utf16to8 us p = Some t"
  using utf16to8_accepts [of us _ p] utf16to8_rejects [of us p] by (cases "code_points16 us") auto

lemma unchecked_utf32to8_agrees: "utf32to8 ws p = Inr t \<Longrightarrow> unchecked_utf32to8 ws p = t"
  by (induction ws arbitrary: p) (auto simp: append_cp_valid unchecked_append_valid split: if_splits)

text \<open>C36: The unchecked functions do what the checked ones do wherever the checked ones return: on
  valid UTF-8, stepping, counting, moving and converting read no octet past the end and give the
  same results; converting accepted UTF-16 or UTF-32 to UTF-8 writes the same octets.\<close>

theorem unchecked_agrees_with_checked:
  "(utf8_next s = Inr r \<longrightarrow> unchecked_next s = Some r) \<and>
   (utf8_advance n s = (None, q) \<longrightarrow> unchecked_advance n s = Some q) \<and>
   (utf8_distance s = Inr n \<longrightarrow> unchecked_distance s = Some n) \<and>
   (utf8to16 s us = Inr vs \<longrightarrow> unchecked_utf8to16 s us = Some vs) \<and>
   (utf8to32 s ws = Inr xs \<longrightarrow> unchecked_utf8to32 s ws = Some xs) \<and>
   (utf16to8 us p = Inr t \<longrightarrow> unchecked_utf16to8 us p = Some t) \<and>
   (utf32to8 ws p = Inr t \<longrightarrow> unchecked_utf32to8 ws p = t)"
  using unchecked_next_agrees unchecked_advance_agrees unchecked_loops_agree unchecked_utf16to8_agrees
    unchecked_utf32to8_agrees unfolding utf8_distance_def unchecked_distance_def by blast

theorem unchecked_agrees_with_checked_witness:
  "utf8_distance (encode_utf8 [0x41, 0x1f600]) = Inr 2 \<and> unchecked_distance (encode_utf8 [0x41, 0x1f600]) = Some 2 \<and>
   unchecked_utf8to32 (encode_utf8 [0x41, 0x1f600]) [] = Some [0x41, 0x1f600]"
proof -
  have v: "list_all is_code_point_valid [0x41, 0x1f600]"
    by (simp add: is_code_point_valid_def is_surrogate_def CODE_POINT_MAX_def)
  have d: "utf8_distance (encode_utf8 [0x41, 0x1f600]) = Inr 2" "utf8to32 (encode_utf8 [0x41, 0x1f600]) [] = Inr [0x41, 0x1f600]"
    using decode_encoded [OF v] by (simp_all add: utf8_distance_def)
  then show ?thesis
    using unchecked_agrees_with_checked [of "encode_utf8 [0x41, 0x1f600]" "(0, [])" 2 "[]" "[]" "[]" "[]" "[0x41, 0x1f600]" "[]" "[]"]
    by blast
qed


end
