(* ===== verification/Utf8_Iterator.thy ===== *)
theory Utf8_Iterator
  imports Utf8_Convert
begin

text \<open>
  The operations of the vendored utf8 library that go backwards, and its two iterator classes
  (checked.h and unchecked.h). A position is an index into the text \<open>s\<close>. Stepping back moves the
  iterator before it can fail, so these operations return the position reached also with an
  exception.

  The two classes meet one contract: on the encoding of a list of code points they walk over the
  list in both directions. The contract is the locale \<open>bidirectional_walk\<close>; what a client gets from
  it, reading a whole text forwards and backwards, is proved there once.
\<close>

section \<open>Ranges and steps back\<close>

definition octets_between :: "string \<Rightarrow> nat \<Rightarrow> nat \<Rightarrow> string" where
  "octets_between s i j = take (j - i) (drop i s)"

definition next_at :: "string \<Rightarrow> nat \<Rightarrow> nat \<Rightarrow> utf8_throw + (nat \<times> nat)" where
  "next_at s it end_pos =
     (case utf8_next (octets_between s it end_pos) of
        Inl e \<Rightarrow> Inl e
      | Inr (cp, rest) \<Rightarrow> Inr (cp, end_pos - length rest))"

text \<open>The loop that looks for a lead octet. At index 0 there is nothing to step back to.\<close>

fun prior_loop :: "string \<Rightarrow> nat \<Rightarrow> nat \<Rightarrow> utf8_throw option \<times> nat" where
  "prior_loop s start 0 = (Some Past_end, 0)"
| "prior_loop s start (Suc i) =
     (if is_trail (s ! i)
      then (if i = start then (Some (Invalid_utf8 (s ! i)), i) else prior_loop s start i)
      else (None, i))"

definition utf8_prior :: "string \<Rightarrow> nat \<Rightarrow> nat \<Rightarrow> (utf8_throw + nat) \<times> nat" where
  "utf8_prior s it start =
     (if it = start then (Inl Not_enough_room, it)
      else (let end_pos = it in
        case prior_loop s start it of
          (Some e, it1) \<Rightarrow> (Inl e, it1)
        | (None, it1) \<Rightarrow> (peek_next (octets_between s it1 end_pos), it1)))"

definition utf8_previous :: "string \<Rightarrow> nat \<Rightarrow> nat \<Rightarrow> (utf8_throw + nat) \<times> nat" where
  "utf8_previous s it pass_start =
     (let end_pos = it in
      case prior_loop s pass_start it of
        (Some e, it1) \<Rightarrow> (Inl e, it1)
      | (None, it1) \<Rightarrow> (let temp = it1 in (map_sum id fst (next_at s temp end_pos), it1)))"

text \<open>The unchecked loop stops at no start: \<open>None\<close> is a step before the first octet.\<close>

fun unchecked_prior_loop :: "string \<Rightarrow> nat \<Rightarrow> nat option" where
  "unchecked_prior_loop s 0 = None"
| "unchecked_prior_loop s (Suc i) = (if is_trail (s ! i) then unchecked_prior_loop s i else Some i)"

definition unchecked_prior :: "string \<Rightarrow> nat \<Rightarrow> (nat \<times> nat) option" where
  "unchecked_prior s it =
     (case unchecked_prior_loop s it of
        None \<Rightarrow> None
      | Some it1 \<Rightarrow>
          (case unchecked_next (drop it1 s) of None \<Rightarrow> None | Some (cp, temp) \<Rightarrow> Some (cp, it1)))"

definition unchecked_previous :: "string \<Rightarrow> nat \<Rightarrow> (nat \<times> nat) option" where
  "unchecked_previous s it = unchecked_prior s it"

section \<open>The iterator of checked.h\<close>

record utf8_iterator =
  it_pos :: nat
  range_start :: nat
  range_end :: nat

definition utf8_iterator_new :: "nat \<Rightarrow> nat \<Rightarrow> nat \<Rightarrow> utf8_throw + utf8_iterator" where
  "utf8_iterator_new octet_it rstart rend =
     (if octet_it < rstart \<or> octet_it > rend then Inl Out_of_range
      else Inr \<lparr>it_pos = octet_it, range_start = rstart, range_end = rend\<rparr>)"

definition iterator_base :: "utf8_iterator \<Rightarrow> nat" where
  "iterator_base x = it_pos x"

definition iterator_deref :: "string \<Rightarrow> utf8_iterator \<Rightarrow> utf8_throw + nat" where
  "iterator_deref s x = map_sum id fst (next_at s (it_pos x) (range_end x))"

definition iterator_eq :: "utf8_iterator \<Rightarrow> utf8_iterator \<Rightarrow> utf8_throw + bool" where
  "iterator_eq x rhs =
     (if range_start x \<noteq> range_start rhs \<or> range_end x \<noteq> range_end rhs then Inl Logic_error
      else Inr (it_pos x = it_pos rhs))"

definition iterator_neq :: "utf8_iterator \<Rightarrow> utf8_iterator \<Rightarrow> utf8_throw + bool" where
  "iterator_neq x rhs = map_sum id Not (iterator_eq x rhs)"

definition iterator_inc :: "string \<Rightarrow> utf8_iterator \<Rightarrow> utf8_throw + utf8_iterator" where
  "iterator_inc s x =
     (case next_at s (it_pos x) (range_end x) of
        Inl e \<Rightarrow> Inl e
      | Inr (cp, it1) \<Rightarrow> Inr (x\<lparr>it_pos := it1\<rparr>))"

text \<open>The postfix forms return the old iterator and leave the new one in the object.\<close>

definition iterator_inc_post :: "string \<Rightarrow> utf8_iterator \<Rightarrow> utf8_throw + (utf8_iterator \<times> utf8_iterator)" where
  "iterator_inc_post s x =
     (let temp = x in
      case next_at s (it_pos x) (range_end x) of
        Inl e \<Rightarrow> Inl e
      | Inr (cp, it1) \<Rightarrow> Inr (temp, x\<lparr>it_pos := it1\<rparr>))"

definition iterator_dec :: "string \<Rightarrow> utf8_iterator \<Rightarrow> utf8_throw option \<times> utf8_iterator" where
  "iterator_dec s x =
     (case utf8_prior s (it_pos x) (range_start x) of
        (Inl e, it1) \<Rightarrow> (Some e, x\<lparr>it_pos := it1\<rparr>)
      | (Inr cp, it1) \<Rightarrow> (None, x\<lparr>it_pos := it1\<rparr>))"

definition iterator_dec_post ::
  "string \<Rightarrow> utf8_iterator \<Rightarrow> (utf8_throw + utf8_iterator) \<times> utf8_iterator" where
  "iterator_dec_post s x =
     (let temp = x in
      case utf8_prior s (it_pos x) (range_start x) of
        (Inl e, it1) \<Rightarrow> (Inl e, x\<lparr>it_pos := it1\<rparr>)
      | (Inr cp, it1) \<Rightarrow> (Inr temp, x\<lparr>it_pos := it1\<rparr>))"

section \<open>The iterator of unchecked.h\<close>

definition unchecked_deref :: "string \<Rightarrow> nat \<Rightarrow> nat option" where
  "unchecked_deref s it = map_option fst (unchecked_next (drop it s))"

definition unchecked_eq :: "nat \<Rightarrow> nat \<Rightarrow> bool" where
  "unchecked_eq it rhs \<longleftrightarrow> it = rhs"

definition unchecked_neq :: "nat \<Rightarrow> nat \<Rightarrow> bool" where
  "unchecked_neq it rhs \<longleftrightarrow> \<not> unchecked_eq it rhs"

text \<open>The increment reads the lead octet only.\<close>

definition unchecked_inc :: "string \<Rightarrow> nat \<Rightarrow> nat option" where
  "unchecked_inc s it = (if it < length s then Some (it + sequence_length (s ! it)) else None)"

definition unchecked_inc_post :: "string \<Rightarrow> nat \<Rightarrow> (nat \<times> nat) option" where
  "unchecked_inc_post s it =
     (let temp = it in if it < length s then Some (temp, it + sequence_length (s ! it)) else None)"

definition unchecked_dec :: "string \<Rightarrow> nat \<Rightarrow> nat option" where
  "unchecked_dec s it = map_option snd (unchecked_prior s it)"

definition unchecked_dec_post :: "string \<Rightarrow> nat \<Rightarrow> (nat \<times> nat) option" where
  "unchecked_dec_post s it = (let temp = it in map_option (\<lambda>r. (temp, snd r)) (unchecked_prior s it))"

section \<open>Walking over a sequence\<close>

text \<open>The loops a client writes: read and step forward, step back and read.\<close>

fun read_forward :: "('p \<Rightarrow> 'a option) \<Rightarrow> ('p \<Rightarrow> 'p option) \<Rightarrow> nat \<Rightarrow> 'p \<Rightarrow> ('a list \<times> 'p) option" where
  "read_forward deref inc 0 p = Some ([], p)"
| "read_forward deref inc (Suc n) p =
     (case (deref p, inc p) of
        (Some x, Some p1) \<Rightarrow> map_option (\<lambda>(xs, q). (x # xs, q)) (read_forward deref inc n p1)
      | _ \<Rightarrow> None)"

fun read_backward :: "('p \<Rightarrow> 'a option) \<Rightarrow> ('p \<Rightarrow> 'p option) \<Rightarrow> nat \<Rightarrow> 'p \<Rightarrow> ('a list \<times> 'p) option" where
  "read_backward deref dec 0 p = Some ([], p)"
| "read_backward deref dec (Suc n) p =
     (case dec p of
        None \<Rightarrow> None
      | Some p1 \<Rightarrow>
          (case deref p1 of
             None \<Rightarrow> None
           | Some x \<Rightarrow> map_option (\<lambda>(xs, q). (x # xs, q)) (read_backward deref dec n p1)))"

locale bidirectional_walk =
  fixes valid :: "'a list \<Rightarrow> bool"
    and pos :: "'a list \<Rightarrow> nat \<Rightarrow> 'p"
    and deref :: "'a list \<Rightarrow> 'p \<Rightarrow> 'a option"
    and inc :: "'a list \<Rightarrow> 'p \<Rightarrow> 'p option"
    and dec :: "'a list \<Rightarrow> 'p \<Rightarrow> 'p option"
  assumes deref_pos: "valid xs \<Longrightarrow> k < length xs \<Longrightarrow> deref xs (pos xs k) = Some (xs ! k)"
    and inc_pos: "valid xs \<Longrightarrow> k < length xs \<Longrightarrow> inc xs (pos xs k) = Some (pos xs (Suc k))"
    and dec_pos: "valid xs \<Longrightarrow> k < length xs \<Longrightarrow> dec xs (pos xs (Suc k)) = Some (pos xs k)"
begin

lemma forward_from:
  "valid xs \<Longrightarrow> k + n \<le> length xs \<Longrightarrow>
     read_forward (deref xs) (inc xs) n (pos xs k) = Some (take n (drop k xs), pos xs (k + n))"
proof (induction n arbitrary: k)
  case (Suc n)
  then have "read_forward (deref xs) (inc xs) n (pos xs (Suc k)) = Some (take n (drop (Suc k) xs), pos xs (Suc k + n))"
    by simp
  with Suc.prems show ?case by (simp add: deref_pos inc_pos Cons_nth_drop_Suc [symmetric, of k])
qed simp

lemma backward_from:
  "valid xs \<Longrightarrow> k \<le> length xs \<Longrightarrow>
     read_backward (deref xs) (dec xs) k (pos xs k) = Some (rev (take k xs), pos xs 0)"
  by (induction k) (simp_all add: deref_pos dec_pos take_Suc_conv_app_nth)

lemma whole_text:
  "valid xs \<Longrightarrow>
     read_forward (deref xs) (inc xs) (length xs) (pos xs 0) = Some (xs, pos xs (length xs)) \<and>
     read_backward (deref xs) (dec xs) (length xs) (pos xs (length xs)) = Some (rev xs, pos xs 0)"
  using forward_from [of xs 0 "length xs"] backward_from [of xs "length xs"] by simp

lemma step_and_return: "valid xs \<Longrightarrow> k < length xs \<Longrightarrow> Option.bind (inc xs (pos xs k)) (dec xs) = Some (pos xs k)"
  by (simp add: inc_pos dec_pos)

end

section \<open>Both iterators walk over the code points\<close>

definition offset :: "nat list \<Rightarrow> nat \<Rightarrow> nat" where
  "offset cps k = length (encode_utf8 (take k cps))"

lemma offset_ends [simp]: "offset cps 0 = 0" "offset cps (length cps) = length (encode_utf8 cps)"
  by (simp_all add: offset_def)

lemma offset_Suc: "k < length cps \<Longrightarrow> offset cps (Suc k) = offset cps k + length (octets_of (cps ! k))"
  by (simp add: offset_def take_Suc_conv_app_nth)

lemma offset_le: "offset cps k \<le> length (encode_utf8 cps)"
  by (metis offset_def append_take_drop_id encode_simps(3) le_add1 length_append)

lemma text_at:
  "k < length cps \<Longrightarrow> encode_utf8 cps = encode_utf8 (take k cps) @ octets_of (cps ! k) @ encode_utf8 (drop (Suc k) cps)"
  by (metis encode_simps(2,3) id_take_nth_drop)

lemma drop_offset: "k < length cps \<Longrightarrow> drop (offset cps k) (encode_utf8 cps) = octets_of (cps ! k) @ encode_utf8 (drop (Suc k) cps)"
  by (simp add: text_at [of k] offset_def)

lemma valid_nth: "list_all is_code_point_valid cps \<Longrightarrow> k < length cps \<Longrightarrow> is_code_point_valid (cps ! k)"
  by (simp add: list_all_length)

lemma octets_to_end [simp]: "octets_between s i (length s) = drop i s"
  by (simp add: octets_between_def)

lemma next_at_offset:
  "list_all is_code_point_valid cps \<Longrightarrow> k < length cps \<Longrightarrow>
     next_at (encode_utf8 cps) (offset cps k) (length (encode_utf8 cps)) = Inr (cps ! k, offset cps (Suc k))"
proof -
  assume v: "list_all is_code_point_valid cps" and k: "k < length cps"
  have "octets_between (encode_utf8 cps) (offset cps k) (length (encode_utf8 cps)) =
      octets_of (cps ! k) @ encode_utf8 (drop (Suc k) cps)"
    using drop_offset [OF k] by simp
  moreover have "length (encode_utf8 cps) = offset cps (Suc k) + length (encode_utf8 (drop (Suc k) cps))"
    using arg_cong [OF text_at [OF k], of length] offset_Suc [OF k] by (simp add: offset_def [of cps k])
  ultimately show ?thesis using valid_nth [OF v k] by (simp add: next_at_def)
qed

lemma octets_shape:
  assumes "is_code_point_valid cp"
  obtains c cs where "octets_of cp = c # cs" "\<not> is_trail c" "list_all is_trail cs" "sequence_length c = length (octets_of cp)"
proof -
  have le: "cp \<le> 0x10ffff" by (rule valid_cp_less [OF assms])
  have nt: "\<not> is_trail (octet n)" if "n < 128 \<or> 192 \<le> n \<and> n < 256" for n
    using that by (auto simp: is_trail_def drop_bit_eq_div)
  consider "cp < 0x80" | "0x80 \<le> cp" "cp < 0x800" | "0x800 \<le> cp" "cp < 0x10000" | "0x10000 \<le> cp" by linarith
  then show ?thesis
  proof cases
    case 1
    then show ?thesis using that [of "octet cp" "[]"] nt [of cp] by (simp add: octets_of_def lead_octets)
  next
    case 2
    then have "cp div 64 < 32" by (simp add: div_less_iff_less_mult)
    then show ?thesis using that nt [of "cp div 64 + 0xc0"] 2 by (simp add: octets_of_def lead_octets)
  next
    case 3
    then have "cp div 4096 < 16" by (simp add: div_less_iff_less_mult)
    then show ?thesis using that nt [of "cp div 4096 + 0xe0"] 3 by (simp add: octets_of_def lead_octets)
  next
    case 4
    have "cp div 262144 < 8" using le by (simp add: div_less_iff_less_mult)
    then show ?thesis using that nt [of "cp div 262144 + 0xf0"] 4 by (simp add: octets_of_def lead_octets)
  qed
qed

lemma prior_loops:
  "start \<le> length p \<Longrightarrow> \<not> is_trail c \<Longrightarrow> list_all is_trail cs \<Longrightarrow>
     prior_loop (p @ (c # cs) @ q) start (length p + Suc (length cs)) = (None, length p) \<and>
     unchecked_prior_loop (p @ (c # cs) @ q) (length p + Suc (length cs)) = Some (length p)"
proof (induction cs arbitrary: q rule: rev_induct)
  case (snoc x cs)
  let ?s = "p @ (c # cs @ [x]) @ q" and ?i = "length p + Suc (length cs)"
  have "?s ! ?i = x" by (simp add: nth_append)
  moreover have "?i \<noteq> start" using snoc.prems by simp
  moreover have "prior_loop ?s start ?i = (None, length p) \<and> unchecked_prior_loop ?s ?i = Some (length p)"
    using snoc.IH [of "x # q"] snoc.prems by simp
  ultimately show ?case using snoc.prems by simp
qed simp

lemma prior_at_offset:
  assumes "list_all is_code_point_valid cps" and k: "k < length cps"
  shows "utf8_prior (encode_utf8 cps) (offset cps (Suc k)) 0 = (Inr (cps ! k), offset cps k)"
    and "unchecked_prior (encode_utf8 cps) (offset cps (Suc k)) = Some (cps ! k, offset cps k)"
proof -
  note v = valid_nth [OF assms]
  obtain c cs where c: "octets_of (cps ! k) = c # cs" "\<not> is_trail c" "list_all is_trail cs" by (rule octets_shape [OF v])
  let ?s = "encode_utf8 cps" and ?p = "encode_utf8 (take k cps)" and ?q = "encode_utf8 (drop (Suc k) cps)"
  have s: "?s = ?p @ (c # cs) @ ?q" using text_at [OF k] c(1) by simp
  have i: "offset cps (Suc k) = length ?p + Suc (length cs)" "offset cps k = length ?p"
    using offset_Suc [OF k] c(1) by (simp_all add: offset_def)
  have l: "prior_loop ?s 0 (offset cps (Suc k)) = (None, offset cps k)"
    "unchecked_prior_loop ?s (offset cps (Suc k)) = Some (offset cps k)"
    using prior_loops [of 0 ?p c cs ?q] c(2,3) unfolding i s by simp_all
  have "octets_between ?s (offset cps k) (offset cps (Suc k)) = octets_of (cps ! k) @ []"
    unfolding octets_between_def drop_offset [OF k] using offset_Suc [OF k] by simp
  then have "peek_next (octets_between ?s (offset cps k) (offset cps (Suc k))) = Inr (cps ! k)"
    unfolding peek_next_def using utf8_next_octets [OF v, of "[]"] by simp
  then show "utf8_prior ?s (offset cps (Suc k)) 0 = (Inr (cps ! k), offset cps k)"
    using l i(1) by (simp add: utf8_prior_def Let_def)
  show "unchecked_prior ?s (offset cps (Suc k)) = Some (cps ! k, offset cps k)"
    using l(2) drop_offset [OF k] unchecked_next_octets [OF v] by (simp add: unchecked_prior_def)
qed

definition returned :: "'e + 'a \<Rightarrow> 'a option" where
  "returned r = (case r of Inl e \<Rightarrow> None | Inr x \<Rightarrow> Some x)"

definition moved :: "'e option \<times> 'a \<Rightarrow> 'a option" where
  "moved r = (case r of (Some e, x) \<Rightarrow> None | (None, x) \<Rightarrow> Some x)"

definition iterator_at :: "nat list \<Rightarrow> nat \<Rightarrow> utf8_iterator" where
  "iterator_at cps k = \<lparr>it_pos = offset cps k, range_start = 0, range_end = length (encode_utf8 cps)\<rparr>"

interpretation checked_walk: bidirectional_walk
  "list_all is_code_point_valid" iterator_at
  "\<lambda>cps x. returned (iterator_deref (encode_utf8 cps) x)"
  "\<lambda>cps x. returned (iterator_inc (encode_utf8 cps) x)"
  "\<lambda>cps x. moved (iterator_dec (encode_utf8 cps) x)"
  by unfold_locales
     (simp_all add: returned_def moved_def iterator_at_def iterator_deref_def iterator_inc_def iterator_dec_def
       next_at_offset prior_at_offset)

interpretation unchecked_walk: bidirectional_walk
  "list_all is_code_point_valid" offset
  "\<lambda>cps. unchecked_deref (encode_utf8 cps)" "\<lambda>cps. unchecked_inc (encode_utf8 cps)" "\<lambda>cps. unchecked_dec (encode_utf8 cps)"
proof
  fix cps k
  assume v: "list_all is_code_point_valid cps" and k: "k < length cps"
  show "unchecked_deref (encode_utf8 cps) (offset cps k) = Some (cps ! k)"
    using unchecked_next_octets [OF valid_nth [OF v k]] drop_offset [OF k] by (simp add: unchecked_deref_def)
  show "unchecked_dec (encode_utf8 cps) (offset cps (Suc k)) = Some (offset cps k)"
    using prior_at_offset(2) [OF v k] by (simp add: unchecked_dec_def)
  obtain c cs where c: "octets_of (cps ! k) = c # cs" "sequence_length c = length (octets_of (cps ! k))"
    by (rule octets_shape [OF valid_nth [OF v k]])
  have s: "encode_utf8 cps = encode_utf8 (take k cps) @ c # cs @ encode_utf8 (drop (Suc k) cps)" using text_at [OF k] c(1) by simp
  have "encode_utf8 cps ! offset cps k = c" "offset cps k < length (encode_utf8 cps)"
    unfolding offset_def s by simp_all
  then show "unchecked_inc (encode_utf8 cps) (offset cps k) = Some (offset cps (Suc k))"
    using c(2) offset_Suc [OF k] by (simp add: unchecked_inc_def)
qed

lemma offset_less: "j < k \<Longrightarrow> k \<le> length cps \<Longrightarrow> offset cps j < offset cps k"
proof (induction k)
  case (Suc k)
  have "offset cps k < offset cps (Suc k)" using offset_Suc [of k cps] octets_of_nonempty Suc.prems(2) by simp
  with Suc show ?case by (cases "j = k") auto
qed simp

lemma offset_inj: "j \<le> length cps \<Longrightarrow> k \<le> length cps \<Longrightarrow> offset cps j = offset cps k \<longleftrightarrow> j = k"
  using offset_less [of j k cps] offset_less [of k j cps] by (metis nat_neq_iff less_irrefl)

text \<open>Both iterator classes walk over a valid text in both directions. Reading forward from
  the beginning gives the code points of the text in order and ends at the end of the range, reading
  backward from the end gives them in reverse and ends at the beginning; positions compare equal
  exactly when they stand before the same code point. A step back from the beginning throws
  \<open>not_enough_room\<close> and does not move.\<close>

theorem utf8_iterators_walk:
  assumes "list_all is_code_point_valid cps"
  shows "utf8_iterator_new 0 0 (length (encode_utf8 cps)) = Inr (iterator_at cps 0) \<and>
     utf8_iterator_new (length (encode_utf8 cps)) 0 (length (encode_utf8 cps)) = Inr (iterator_at cps (length cps)) \<and>
     read_forward (\<lambda>x. returned (iterator_deref (encode_utf8 cps) x)) (\<lambda>x. returned (iterator_inc (encode_utf8 cps) x))
       (length cps) (iterator_at cps 0) = Some (cps, iterator_at cps (length cps)) \<and>
     read_backward (\<lambda>x. returned (iterator_deref (encode_utf8 cps) x)) (\<lambda>x. moved (iterator_dec (encode_utf8 cps) x))
       (length cps) (iterator_at cps (length cps)) = Some (rev cps, iterator_at cps 0) \<and>
     iterator_dec (encode_utf8 cps) (iterator_at cps 0) = (Some Not_enough_room, iterator_at cps 0) \<and>
     (\<forall>j \<le> length cps. \<forall>k \<le> length cps. iterator_eq (iterator_at cps j) (iterator_at cps k) = Inr (j = k)) \<and>
     read_forward (unchecked_deref (encode_utf8 cps)) (unchecked_inc (encode_utf8 cps)) (length cps) 0 =
       Some (cps, length (encode_utf8 cps)) \<and>
     read_backward (unchecked_deref (encode_utf8 cps)) (unchecked_dec (encode_utf8 cps)) (length cps) (length (encode_utf8 cps)) =
       Some (rev cps, 0)"
  using checked_walk.whole_text [OF assms] unchecked_walk.whole_text [OF assms]
  by (simp add: utf8_iterator_new_def iterator_at_def iterator_dec_def utf8_prior_def iterator_eq_def offset_inj)

theorem utf8_iterators_walk_witness:
  "read_forward (unchecked_deref (encode_utf8 [0x41, 0x1f600])) (unchecked_inc (encode_utf8 [0x41, 0x1f600]))
     (length [0x41, 0x1f600 :: nat]) 0 = Some ([0x41, 0x1f600], length (encode_utf8 [0x41, 0x1f600])) \<and>
   iterator_dec (encode_utf8 [0x41, 0x1f600]) (iterator_at [0x41, 0x1f600] 0) =
     (Some Not_enough_room, iterator_at [0x41, 0x1f600] 0)"
proof -
  have "list_all is_code_point_valid [0x41, 0x1f600]"
    by (simp add: is_code_point_valid_def is_surrogate_def CODE_POINT_MAX_def)
  note w = utf8_iterators_walk [OF this]
  show ?thesis using w by (elim conjE) (intro conjI)
qed


end
