(* ===== verification/Dtl_Diff.thy ===== *)
theory Dtl_Diff
  imports Dup_Prelude
begin

text \<open>
  The vendored diff library (extern/dtl-cpp/dtl) as the comparison of bodies uses it: class
  \<open>Diff\<close> with the O(NP) algorithm of Wu, Manber and Myers (\<open>compose\<close>, \<open>snake\<close>,
  \<open>recordSequence\<close>), the edit script \<open>Ses\<close> and \<open>patch\<close>. The arrays \<open>fp\<close>
  and \<open>path\<close> are lists indexed from \<open>offset\<close>; reading past the end of a sequence is
  \<open>None\<close>. Numbers of type \<open>long long\<close> are integers: they stay between -1 and the
  number of recorded points.
\<close>

section \<open>Edit scripts\<close>

datatype edit_t = SES_DELETE | SES_COMMON | SES_ADD

record elemInfo =
  beforeIdx :: int
  afterIdx :: int
  etype :: edit_t

type_synonym 'a sesElem = "'a \<times> elemInfo"

record 'a Ses =
  ses_sequence :: "'a sesElem list"
  onlyAdd :: bool
  onlyDelete :: bool
  onlyCopy :: bool
  deletesFirst :: bool
  nextDeleteIdx :: nat

definition Ses_new :: "bool \<Rightarrow> 'a Ses" where
  "Ses_new moveDel = \<lparr>ses_sequence = [], onlyAdd = True, onlyDelete = True, onlyCopy = True,
     deletesFirst = moveDel, nextDeleteIdx = 0\<rparr>"

definition insert_at :: "nat \<Rightarrow> 'a \<Rightarrow> 'a list \<Rightarrow> 'a list" where
  "insert_at i x xs = take i xs @ x # drop i xs"

definition ses_addSequence :: "'a \<Rightarrow> int \<Rightarrow> int \<Rightarrow> edit_t \<Rightarrow> 'a Ses \<Rightarrow> 'a Ses" where
  "ses_addSequence e bi ai t s =
     (let pe = (e, \<lparr>beforeIdx = bi, afterIdx = ai, etype = t\<rparr>);
          s1 = (if \<not> deletesFirst s then s\<lparr>ses_sequence := ses_sequence s @ [pe]\<rparr> else s)
      in case t of
           SES_DELETE \<Rightarrow>
             (let s2 = s1\<lparr>onlyCopy := False, onlyAdd := False\<rparr>
              in if deletesFirst s2
                 then s2\<lparr>ses_sequence := insert_at (nextDeleteIdx s2) pe (ses_sequence s2),
                         nextDeleteIdx := nextDeleteIdx s2 + 1\<rparr>
                 else s2)
         | SES_COMMON \<Rightarrow>
             (let s2 = s1\<lparr>onlyAdd := False, onlyDelete := False\<rparr>
              in if deletesFirst s2
                 then s2\<lparr>ses_sequence := ses_sequence s2 @ [pe], nextDeleteIdx := length (ses_sequence s2) + 1\<rparr>
                 else s2)
         | SES_ADD \<Rightarrow>
             (let s2 = s1\<lparr>onlyDelete := False, onlyCopy := False\<rparr>
              in if deletesFirst s2 then s2\<lparr>ses_sequence := ses_sequence s2 @ [pe]\<rparr> else s2))"

section \<open>The Diff object\<close>

record 'a uniHunk =
  h_a :: int
  h_b :: int
  h_c :: int
  h_d :: int
  h_common0 :: "'a sesElem list"
  h_common1 :: "'a sesElem list"
  h_change :: "'a sesElem list"
  h_inc_dec_count :: int

record 'a Diff =
  dA :: "'a list"
  dB :: "'a list"
  dM :: nat
  dN :: nat
  delta :: nat
  offs :: nat
  fp :: "int list"
  editDistance :: int
  lcs :: "'a list"
  ses :: "'a Ses"
  epath :: "int list"
  pathCordinates :: "(int \<times> int \<times> int) list"
  swapped :: bool
  huge :: bool
  trivial :: bool
  editDistanceOnly :: bool
  uniHunks :: "'a uniHunk list"

definition MAX_CORDINATES_SIZE :: int where
  "MAX_CORDINATES_SIZE = 2000000"

text \<open>The constructor for two sequences: the shorter one becomes \<open>A\<close>.\<close>

definition Diff_new :: "'a list \<Rightarrow> 'a list \<Rightarrow> 'a Diff" where
  "Diff_new a b =
     (let sw = \<not> length a < length b; A = (if sw then b else a); B = (if sw then a else b)
      in \<lparr>dA = A, dB = B, dM = length A, dN = length B, delta = length B - length A, offs = length A + 1,
          fp = [], editDistance = 0, lcs = [], ses = Ses_new False, epath = [], pathCordinates = [],
          swapped = sw, huge = False, trivial = False, editDistanceOnly = False, uniHunks = []\<rparr>)"

definition onUnserious :: "'a Diff \<Rightarrow> 'a Diff" where
  "onUnserious d = d\<lparr>trivial := True\<rparr>"

definition arr_get :: "int list \<Rightarrow> nat \<Rightarrow> int \<Rightarrow> int" where
  "arr_get a off k = a ! nat (k + int off)"

definition arr_set :: "int list \<Rightarrow> nat \<Rightarrow> int \<Rightarrow> int \<Rightarrow> int list" where
  "arr_set a off k v = a[nat (k + int off) := v]"

section \<open>Searching\<close>

text \<open>The loop of \<open>snake\<close>; a negative \<open>x\<close> is a huge number as a \<open>size_t\<close>.\<close>

function slide :: "'a list \<Rightarrow> 'a list \<Rightarrow> int \<Rightarrow> int \<Rightarrow> int \<times> int" where
  "slide A B x y =
     (if 0 \<le> x \<and> x < int (length A) \<and> 0 \<le> y \<and> y < int (length B) \<and> A ! nat x = B ! nat y
      then slide A B (x + 1) (y + 1) else (x, y))"
  by pat_completeness auto
termination by (relation "measure (\<lambda>(A, B, x, y). nat (int (length B) - y))") auto

declare slide.simps [simp del]

definition snake :: "'a Diff \<Rightarrow> int \<Rightarrow> int \<Rightarrow> int \<Rightarrow> int \<times> 'a Diff" where
  "snake d k abv blw =
     (let r = (if abv > blw then arr_get (epath d) (offs d) (k - 1) else arr_get (epath d) (offs d) (k + 1));
          y0 = max abv blw
      in case slide (dA d) (dB d) (y0 - k) y0 of (x, y) \<Rightarrow>
           (y, d\<lparr>epath := arr_set (epath d) (offs d) k (int (length (pathCordinates d))),
                 pathCordinates := (if \<not> editDistanceOnly d then pathCordinates d @ [(x, y, r)]
                                    else pathCordinates d)\<rparr>))"

definition fp_step :: "int \<Rightarrow> 'a Diff \<Rightarrow> 'a Diff" where
  "fp_step k d =
     (case snake d k (arr_get (fp d) (offs d) (k - 1) + 1) (arr_get (fp d) (offs d) (k + 1)) of
        (y, d1) \<Rightarrow> d1\<lparr>fp := arr_set (fp d1) (offs d1) k y\<rparr>)"

definition onp_round :: "int \<Rightarrow> 'a Diff \<Rightarrow> 'a Diff" where
  "onp_round p d =
     (let dl = int (delta d);
          d1 = fold fp_step [- p..dl - 1] d;
          d2 = fold fp_step (rev [dl + 1..dl + p]) d1
      in fp_step dl d2)"

partial_function (option) onp_loop :: "int \<Rightarrow> 'a Diff \<Rightarrow> (int \<times> 'a Diff) option" where
  "onp_loop p d =
     (let d1 = onp_round (p + 1) d
      in if arr_get (fp d1) (offs d1) (int (delta d1)) \<noteq> int (dN d1) \<and>
            int (length (pathCordinates d1)) < MAX_CORDINATES_SIZE
         then onp_loop (p + 1) d1 else Some (p + 1, d1))"

partial_function (option) follow_path ::
    "(int \<times> int \<times> int) list \<Rightarrow> int \<Rightarrow> (int \<times> int) list \<Rightarrow> (int \<times> int) list option" where
  "follow_path cs r epc =
     (if r = -1 then Some epc
      else (case cs ! nat r of (x, y, k) \<Rightarrow> follow_path cs k (epc @ [(x, y)])))"

section \<open>Recording\<close>

text \<open>\<open>px_idx\<close> and \<open>py_idx\<close> are the positions of the two iterators; the line numbers
  \<open>x_idx\<close> and \<open>y_idx\<close> are one more.\<close>

definition add_y :: "int \<Rightarrow> int \<Rightarrow> 'a Diff \<Rightarrow> 'a Diff" where
  "add_y px py d =
     d\<lparr>ses := (if \<not> swapped d then ses_addSequence (dB d ! nat py) 0 (py + 1) SES_ADD (ses d)
               else ses_addSequence (dB d ! nat py) (py + 1) 0 SES_DELETE (ses d))\<rparr>"

definition add_x :: "int \<Rightarrow> int \<Rightarrow> 'a Diff \<Rightarrow> 'a Diff" where
  "add_x px py d =
     d\<lparr>ses := (if \<not> swapped d then ses_addSequence (dA d ! nat px) (px + 1) 0 SES_DELETE (ses d)
               else ses_addSequence (dA d ! nat px) 0 (px + 1) SES_ADD (ses d))\<rparr>"

definition add_common :: "int \<Rightarrow> int \<Rightarrow> 'a Diff \<Rightarrow> 'a Diff" where
  "add_common px py d =
     (if \<not> swapped d
      then d\<lparr>lcs := lcs d @ [dA d ! nat px],
             ses := ses_addSequence (dA d ! nat px) (px + 1) (py + 1) SES_COMMON (ses d)\<rparr>
      else d\<lparr>lcs := lcs d @ [dB d ! nat py],
             ses := ses_addSequence (dB d ! nat py) (py + 1) (px + 1) SES_COMMON (ses d)\<rparr>)"

function record_to :: "int \<times> int \<Rightarrow> int \<times> int \<times> 'a Diff \<Rightarrow> int \<times> int \<times> 'a Diff" where
  "record_to (vx, vy) (px, py, d) =
     (if px < vx \<or> py < vy
      then (if vy - vx > py - px then record_to (vx, vy) (px, py + 1, add_y px py d)
            else if vy - vx < py - px then record_to (vx, vy) (px + 1, py, add_x px py d)
            else record_to (vx, vy) (px + 1, py + 1, add_common px py d))
      else (px, py, d))"
  by pat_completeness auto
termination
  by (relation "measure (\<lambda>((vx, vy), (px, py, d)). nat (vx - px) + nat (vy - py))") auto

declare record_to.simps [simp del]

text \<open>The rest of a sequence from position \<open>i\<close> on; the last element is added after the loop,
  so there has to be one.\<close>

fun odd_loop :: "'a list \<Rightarrow> int \<Rightarrow> edit_t \<Rightarrow> 'a Diff \<Rightarrow> 'a Diff" where
  "odd_loop [] idx et d = d"
| "odd_loop (e # es) idx et d =
     odd_loop es (idx + 1) et (d\<lparr>ses := ses_addSequence e idx 0 et (ses d), editDistance := editDistance d + 1\<rparr>)"

definition recordOddSequence :: "'a list \<Rightarrow> int \<Rightarrow> edit_t \<Rightarrow> 'a Diff \<Rightarrow> 'a Diff option" where
  "recordOddSequence seq i et d =
     (if i \<ge> int (length seq) then None else Some (odd_loop (drop (nat i) seq) (i + 1) et d))"

definition recordSequence :: "(int \<times> int) list \<Rightarrow> 'a Diff \<Rightarrow> (bool \<times> 'a Diff) option" where
  "recordSequence v d =
     (if v = [] then None
      else (case fold record_to (rev v) (0, 0, d) of (px, py, d1) \<Rightarrow>
        if px + 1 > int (dM d1) \<and> py + 1 > int (dN d1) then Some (True, d1)
        else if trivial d1
        then (case recordOddSequence (dA d1) px (if \<not> swapped d1 then SES_DELETE else SES_ADD) d1 of
                None \<Rightarrow> None
              | Some d2 \<Rightarrow>
                  map_option (Pair True)
                    (recordOddSequence (dB d2) py (if \<not> swapped d2 then SES_ADD else SES_DELETE) d2))
        else
         (let A' = drop (nat px) (dA d1); B' = drop (nat py) (dB d1)
          in Some (False, d1\<lparr>dA := A', dB := B', dM := length A', dN := length B',
                    delta := length B' - length A', offs := length A' + 1,
                    fp := replicate (length A' + length B' + 3) (-1),
                    epath := replicate (length (epath d1)) (-1)\<rparr>))))"

partial_function (option) compose_loop :: "'a Diff \<Rightarrow> 'a Diff option" where
  "compose_loop d =
     (case onp_loop (-1) d of
        None \<Rightarrow> None
      | Some (p, d1) \<Rightarrow>
          (let d2 = d1\<lparr>editDistance := editDistance d1 + int (delta d1) + 2 * p\<rparr> in
           if editDistanceOnly d2 then Some (d2\<lparr>fp := []\<rparr>)
           else
            (case follow_path (pathCordinates d2) (arr_get (epath d2) (offs d2) (int (delta d2))) [] of
               None \<Rightarrow> None
             | Some epc \<Rightarrow>
                 (case recordSequence epc d2 of
                    None \<Rightarrow> None
                  | Some (ok, d3) \<Rightarrow>
                      if ok then Some (d3\<lparr>fp := []\<rparr>) else compose_loop (d3\<lparr>pathCordinates := []\<rparr>)))))"

declare onp_loop.simps [code] follow_path.simps [code] compose_loop.simps [code]

definition compose :: "'a Diff \<Rightarrow> 'a Diff option" where
  "compose d =
     compose_loop (d\<lparr>fp := replicate (dM d + dN d + 3) (-1), epath := replicate (dM d + dN d + 3) (-1)\<rparr>)"

text \<open>\<open>patch\<close>: \<open>lstIt\<close> splits the list in what it has passed and the rest.\<close>

fun patch_loop :: "'a sesElem list \<Rightarrow> 'a list \<times> 'a list \<Rightarrow> ('a list \<times> 'a list) option" where
  "patch_loop [] st = Some st"
| "patch_loop ((e, info) # es) (passed, rest) =
     (case etype info of
        SES_ADD \<Rightarrow> patch_loop es (passed @ [e], rest)
      | SES_DELETE \<Rightarrow> (case rest of [] \<Rightarrow> None | x # xs \<Rightarrow> patch_loop es (passed, xs))
      | SES_COMMON \<Rightarrow> (case rest of [] \<Rightarrow> None | x # xs \<Rightarrow> patch_loop es (passed @ [x], xs)))"

definition patch :: "'a Diff \<Rightarrow> 'a list \<Rightarrow> 'a list option" where
  "patch d seq = map_option (\<lambda>(passed, rest). passed @ rest) (patch_loop (ses_sequence (ses d)) ([], seq))"

end
