(* ===== verification/Dtl_Correct.thy ===== *)
theory Dtl_Correct
  imports Dtl_Diff
begin

text \<open>
  Walks through the edit graph: the points the search records form a tree rooted at the origin whose
  edges are at most one insertion or deletion followed by equal elements, and recording the walk that ends
  on the last diagonal writes an edit script that spells the two sequences, with the line numbers of
  every common element. The invariants of the search itself start here too.
\<close>

section \<open>Runs of equal elements\<close>

inductive diag_run :: "'a list \<Rightarrow> 'a list \<Rightarrow> int \<times> int \<Rightarrow> int \<times> int \<Rightarrow> bool" for A B where
  diag_run_refl [simp]: "diag_run A B s s"
| diag_run_step: "0 \<le> x \<Longrightarrow> x < int (length A) \<Longrightarrow> 0 \<le> y \<Longrightarrow> y < int (length B) \<Longrightarrow> A ! nat x = B ! nat y \<Longrightarrow>
    diag_run A B (x + 1, y + 1) v \<Longrightarrow> diag_run A B (x, y) v"

lemma diag_run_facts:
  "diag_run A B s v \<Longrightarrow> fst s \<le> fst v \<and> snd s \<le> snd v \<and> fst v - fst s = snd v - snd s \<and>
     fst v \<le> max (fst s) (int (length A)) \<and> snd v \<le> max (snd s) (int (length B))"
  by (induction rule: diag_run.induct) auto

lemma slide_run: "diag_run A B (x, y) (slide A B x y)"
proof (induction A B x y rule: slide.induct)
  case (1 A B x y)
  show ?case
  proof (cases "0 \<le> x \<and> x < int (length A) \<and> 0 \<le> y \<and> y < int (length B) \<and> A ! nat x = B ! nat y")
    case True
    then show ?thesis using 1 diag_run_step [of x A y B] by (subst slide.simps) auto
  next
    case False
    then show ?thesis by (subst slide.simps) auto
  qed
qed

section \<open>Walks through the edit graph\<close>

definition one_edit :: "int \<times> int \<Rightarrow> int \<times> int \<Rightarrow> bool" where
  "one_edit u s \<longleftrightarrow> s = (fst u, snd u + 1) \<or> s = (fst u + 1, snd u)"

text \<open>At most one insertion or deletion, then equal elements.\<close>

definition segment :: "'a list \<Rightarrow> 'a list \<Rightarrow> int \<times> int \<Rightarrow> int \<times> int \<Rightarrow> bool" where
  "segment A B u v \<longleftrightarrow> (\<exists>s. (s = u \<or> one_edit u s) \<and> diag_run A B s v)"

fun walk :: "'a list \<Rightarrow> 'a list \<Rightarrow> int \<times> int \<Rightarrow> (int \<times> int) list \<Rightarrow> bool" where
  "walk A B u [] \<longleftrightarrow> True"
| "walk A B u (v # vs) \<longleftrightarrow> segment A B u v \<and> walk A B v vs"

lemma walk_snoc: "walk A B u (vs @ [v]) \<longleftrightarrow> walk A B u vs \<and> segment A B (last (u # vs)) v"
  by (induction vs arbitrary: u) auto

lemma segment_mono: "segment A B u v \<Longrightarrow> fst u \<le> fst v \<and> snd u \<le> snd v"
  by (auto simp: segment_def one_edit_def dest!: diag_run_facts)

lemma walk_mono: "walk A B u vs \<Longrightarrow> v \<in> set (u # vs) \<Longrightarrow> fst v \<le> fst (last (u # vs)) \<and> snd v \<le> snd (last (u # vs))"
proof (induction vs arbitrary: u v)
  case (Cons w vs)
  then have w: "fst u \<le> fst w" "snd u \<le> snd w" "walk A B w vs" using segment_mono [of A B u w] by auto
  show ?case
  proof (cases "v = u")
    case True
    with Cons.IH [OF w(3), of w] w show ?thesis by auto
  next
    case False
    with Cons.IH [OF w(3), of v] Cons.prems(2) show ?thesis by auto
  qed
qed simp

section \<open>Points recorded by the search\<close>

definition point_ok :: "'a list \<Rightarrow> 'a list \<Rightarrow> (int \<times> int \<times> int) list \<Rightarrow> nat \<Rightarrow> bool" where
  "point_ok A B cs i \<longleftrightarrow>
     (case cs ! i of (x, y, r) \<Rightarrow>
        r = -1 \<and> diag_run A B (0, 0) (x, y) \<or>
        0 \<le> r \<and> r < int i \<and>
          (case cs ! nat r of (x', y', _) \<Rightarrow> segment A B (x', y') (x, y)))"

definition coords_ok :: "'a list \<Rightarrow> 'a list \<Rightarrow> (int \<times> int \<times> int) list \<Rightarrow> bool" where
  "coords_ok A B cs \<longleftrightarrow> (\<forall>i < length cs. point_ok A B cs i)"

lemma point_ok_append: "i < length cs \<Longrightarrow> point_ok A B cs i \<Longrightarrow> point_ok A B (cs @ [c]) i"
  by (auto simp: point_ok_def nth_append split: prod.splits)

lemma coords_ok_snoc: "coords_ok A B cs \<Longrightarrow> point_ok A B (cs @ [c]) (length cs) \<Longrightarrow> coords_ok A B (cs @ [c])"
  by (auto simp: coords_ok_def less_Suc_eq intro: point_ok_append)

lemma follow_path_walk:
  assumes "coords_ok A B cs" and "r < length cs"
  shows "\<exists>epc. follow_path cs (int r) acc = Some (acc @ epc) \<and> epc \<noteq> [] \<and> walk A B (0, 0) (rev epc) \<and>
    hd epc = (fst (cs ! r), fst (snd (cs ! r)))"
  using assms(2)
proof (induction r arbitrary: acc rule: less_induct)
  case (less r)
  obtain x y k where c: "cs ! r = (x, y, k)" by (cases "cs ! r")
  have ok: "point_ok A B cs r" using assms(1) less.prems by (simp add: coords_ok_def)
  have eq: "follow_path cs (int r) acc = follow_path cs k (acc @ [(x, y)])"
    by (subst follow_path.simps) (simp add: c)
  show ?case
  proof (cases "k = -1")
    case True
    then have "follow_path cs (int r) acc = Some (acc @ [(x, y)])" using eq by (simp add: follow_path.simps)
    moreover have "segment A B (0, 0) (x, y)" using ok True by (auto simp: point_ok_def c segment_def)
    ultimately show ?thesis by (intro exI [of _ "[(x, y)]"]) (simp add: c)
  next
    case False
    with ok have k: "0 \<le> k" "nat k < r" "segment A B (fst (cs ! nat k), fst (snd (cs ! nat k))) (x, y)"
      by (auto simp: point_ok_def c split: prod.splits)
    obtain epc where e: "follow_path cs k (acc @ [(x, y)]) = Some ((acc @ [(x, y)]) @ epc)" "epc \<noteq> []"
        "walk A B (0, 0) (rev epc)" "hd epc = (fst (cs ! nat k), fst (snd (cs ! nat k)))"
      using less.IH [of "nat k" "acc @ [(x, y)]"] k less.prems by auto
    have "last ((0, 0) # rev epc) = hd epc" using e(2) by (simp add: last_rev)
    then show ?thesis
      using e k(3) eq by (intro exI [of _ "(x, y) # epc"]) (simp add: c walk_snoc)
  qed
qed

section \<open>Recording a walk\<close>

text \<open>The two sequences an edit script speaks of.\<close>

definition olds :: "'a sesElem list \<Rightarrow> 'a list" where
  "olds es = map fst (filter (\<lambda>e. etype (snd e) \<noteq> SES_ADD) es)"

definition news :: "'a sesElem list \<Rightarrow> 'a list" where
  "news es = map fst (filter (\<lambda>e. etype (snd e) \<noteq> SES_DELETE) es)"

lemma spelled_append [simp]: "olds (es @ fs) = olds es @ olds fs" "news (es @ fs) = news es @ news fs"
  by (simp_all add: olds_def news_def)

lemma spelled_Nil [simp]: "olds [] = []" "news [] = []"
  by (simp_all add: olds_def news_def)

lemma spelled_single [simp]:
  "olds [e] = (if etype (snd e) = SES_ADD then [] else [fst e])"
  "news [e] = (if etype (snd e) = SES_DELETE then [] else [fst e])"
  by (simp_all add: olds_def news_def)

lemma spelled_Cons:
  "olds (e # es) = (if etype (snd e) = SES_ADD then olds es else fst e # olds es)"
  "news (e # es) = (if etype (snd e) = SES_DELETE then news es else fst e # news es)"
  by (simp_all add: olds_def news_def)

lemma ses_add_append [simp]:
  "\<not> deletesFirst s \<Longrightarrow> ses_sequence (ses_addSequence e b a t s) =
     ses_sequence s @ [(e, \<lparr>beforeIdx = b, afterIdx = a, etype = t\<rparr>)]"
  "deletesFirst (ses_addSequence e b a t s) = deletesFirst s"
  by (cases t; simp add: ses_addSequence_def Let_def)+

text \<open>The side of \<open>A\<close> and the side of \<open>B\<close>, which the constructor may have swapped.\<close>

definition side_A :: "'a Diff \<Rightarrow> 'a list" where
  "side_A d = (if swapped d then news else olds) (ses_sequence (ses d))"

definition side_B :: "'a Diff \<Rightarrow> 'a list" where
  "side_B d = (if swapped d then olds else news) (ses_sequence (ses d))"

text \<open>Common elements carry their line numbers on both sides.\<close>

definition indexed :: "'a sesElem list \<Rightarrow> bool" where
  "indexed es \<longleftrightarrow>
     (\<forall>i < length es. etype (snd (es ! i)) = SES_COMMON \<longrightarrow>
        beforeIdx (snd (es ! i)) = int (length (olds (take i es))) + 1 \<and>
        afterIdx (snd (es ! i)) = int (length (news (take i es))) + 1)"

lemma indexed_Nil [simp]: "indexed []"
  by (simp add: indexed_def)

lemma indexed_snoc [simp]:
  "indexed (es @ [e]) \<longleftrightarrow> indexed es \<and>
     (etype (snd e) = SES_COMMON \<longrightarrow>
        beforeIdx (snd e) = int (length (olds es)) + 1 \<and> afterIdx (snd e) = int (length (news es)) + 1)"
  unfolding indexed_def by (auto simp: less_Suc_eq nth_append)

lemma indexed_changes: "indexed es \<Longrightarrow> \<forall>e \<in> set fs. etype (snd e) \<noteq> SES_COMMON \<Longrightarrow> indexed (es @ fs)"
  by (induction fs rule: rev_induct) (simp_all flip: append_assoc)

definition recorded :: "'a list \<Rightarrow> 'a list \<Rightarrow> int \<times> int \<times> 'a Diff \<Rightarrow> bool" where
  "recorded A B st \<longleftrightarrow>
     (case st of (px, py, d) \<Rightarrow>
        dA d = A \<and> dB d = B \<and> \<not> deletesFirst (ses d) \<and> indexed (ses_sequence (ses d)) \<and> 0 \<le> px \<and> px \<le> int (length A) \<and>
        0 \<le> py \<and> py \<le> int (length B) \<and> side_A d = take (nat px) A \<and> side_B d = take (nat py) B)"

definition same_but_script :: "'a Diff \<Rightarrow> 'a Diff \<Rightarrow> bool" where
  "same_but_script d d' \<longleftrightarrow> d'\<lparr>ses := ses d, lcs := lcs d\<rparr> = d"

lemma same_but_script_refl [simp]: "same_but_script d d"
  by (simp add: same_but_script_def)

lemma same_but_script_trans: "same_but_script d d' \<Longrightarrow> same_but_script d' d'' \<Longrightarrow> same_but_script d d''"
  unfolding same_but_script_def by (cases d; cases d'; cases d'') auto

lemma take_nat_Suc: "0 \<le> i \<Longrightarrow> i < int (length xs) \<Longrightarrow> take (nat (i + 1)) xs = take (nat i) xs @ [xs ! nat i]"
  by (simp add: nat_add_distrib take_Suc_conv_app_nth nat_less_iff)

lemma record_moves:
  assumes "recorded A B (px, py, d)"
  shows "py < int (length B) \<Longrightarrow> recorded A B (px, py + 1, add_y px py d) \<and> same_but_script d (add_y px py d)"
    and "px < int (length A) \<Longrightarrow> recorded A B (px + 1, py, add_x px py d) \<and> same_but_script d (add_x px py d)"
    and "px < int (length A) \<Longrightarrow> py < int (length B) \<Longrightarrow> A ! nat px = B ! nat py \<Longrightarrow>
      recorded A B (px + 1, py + 1, add_common px py d) \<and> same_but_script d (add_common px py d)"
proof -
  note defs = recorded_def side_A_def side_B_def take_nat_Suc same_but_script_def
  show "py < int (length B) \<Longrightarrow> recorded A B (px, py + 1, add_y px py d) \<and> same_but_script d (add_y px py d)"
    using assms by (auto simp: add_y_def defs)
  show "px < int (length A) \<Longrightarrow> recorded A B (px + 1, py, add_x px py d) \<and> same_but_script d (add_x px py d)"
    using assms by (auto simp: add_x_def defs)
  show "px < int (length A) \<Longrightarrow> py < int (length B) \<Longrightarrow> A ! nat px = B ! nat py \<Longrightarrow>
      recorded A B (px + 1, py + 1, add_common px py d) \<and> same_but_script d (add_common px py d)"
    using assms by (auto simp: add_common_def defs)
qed

lemma record_run:
  assumes "diag_run A B (px, py) v" and "recorded A B (px, py, d)"
  shows "\<exists>d'. record_to v (px, py, d) = (fst v, snd v, d') \<and> recorded A B (fst v, snd v, d') \<and> same_but_script d d'"
  using assms
proof (induction "(px, py)" v arbitrary: px py d rule: diag_run.induct)
  case (diag_run_refl px py)
  then show ?case by (intro exI [of _ d]) (simp add: record_to.simps)
next
  case (diag_run_step x y v)
  have f: "x + 1 \<le> fst v" "snd v - fst v = y - x" using diag_run_facts [OF diag_run_step.hyps(6)] by auto
  have m: "recorded A B (x + 1, y + 1, add_common x y d)" "same_but_script d (add_common x y d)"
    using record_moves(3) [OF diag_run_step.prems] diag_run_step.hyps(2,4,5) by auto
  obtain d' where d': "record_to v (x + 1, y + 1, add_common x y d) = (fst v, snd v, d')"
      "recorded A B (fst v, snd v, d')" "same_but_script (add_common x y d) d'"
    using diag_run_step.hyps(7) [OF m(1)] by auto
  have "record_to v (x, y, d) = record_to v (x + 1, y + 1, add_common x y d)"
    using f by (subst record_to.simps [of "fst v" "snd v", simplified]) simp
  with d' m(2) same_but_script_trans show ?case by metis
qed

lemma record_segment:
  assumes seg: "segment A B (px, py) v" and "recorded A B (px, py, d)"
    and "fst v \<le> int (length A)" and "snd v \<le> int (length B)"
  shows "\<exists>d'. record_to v (px, py, d) = (fst v, snd v, d') \<and> recorded A B (fst v, snd v, d') \<and> same_but_script d d'"
proof -
  from seg consider "diag_run A B (px, py) v" | "diag_run A B (px, py + 1) v" | "diag_run A B (px + 1, py) v"
    by (auto simp: segment_def one_edit_def)
  then show ?thesis
  proof cases
    case 1
    then show ?thesis using record_run assms(2) by blast
  next
    case 2
    note f = diag_run_facts [OF 2]
    have m: "recorded A B (px, py + 1, add_y px py d)" "same_but_script d (add_y px py d)"
      using record_moves(1) [OF assms(2)] f assms(4) by auto
    have "record_to v (px, py, d) = record_to v (px, py + 1, add_y px py d)"
      using f by (subst record_to.simps [of "fst v" "snd v", simplified]) simp
    with record_run [OF 2 m(1)] m(2) same_but_script_trans show ?thesis by metis
  next
    case 3
    note f = diag_run_facts [OF 3]
    have m: "recorded A B (px + 1, py, add_x px py d)" "same_but_script d (add_x px py d)"
      using record_moves(2) [OF assms(2)] f assms(3) by auto
    have "record_to v (px, py, d) = record_to v (px + 1, py, add_x px py d)"
      using f by (subst record_to.simps [of "fst v" "snd v", simplified]) simp
    with record_run [OF 3 m(1)] m(2) same_but_script_trans show ?thesis by metis
  qed
qed

lemma record_walk:
  assumes "walk A B u vs" and "recorded A B (fst u, snd u, d)"
    and "fst (last (u # vs)) \<le> int (length A)" and "snd (last (u # vs)) \<le> int (length B)"
  shows "\<exists>d'. fold record_to vs (fst u, snd u, d) = (fst (last (u # vs)), snd (last (u # vs)), d') \<and>
    recorded A B (fst (last (u # vs)), snd (last (u # vs)), d') \<and> same_but_script d d'"
  using assms
proof (induction vs arbitrary: u d)
  case (Cons v vs)
  have v: "fst v \<le> int (length A)" "snd v \<le> int (length B)"
    using walk_mono [of A B v vs v] Cons.prems by auto
  obtain d1 where d1: "record_to v (fst u, snd u, d) = (fst v, snd v, d1)" "recorded A B (fst v, snd v, d1)"
      "same_but_script d d1"
    using record_segment [of A B "fst u" "snd u" v d] Cons.prems v by auto
  have "walk A B v vs" "fst (last (v # vs)) \<le> int (length A)" "snd (last (v # vs)) \<le> int (length B)"
    using Cons.prems by auto
  then obtain d' where d': "fold record_to vs (fst v, snd v, d1) = (fst (last (v # vs)), snd (last (v # vs)), d')"
      "recorded A B (fst (last (v # vs)), snd (last (v # vs)), d')" "same_but_script d1 d'"
    using Cons.IH [of v d1] d1(2) by blast
  have "last (u # v # vs) = last (v # vs)" by simp
  with d1 d' same_but_script_trans [OF d1(3) d'(3)] show ?case by (metis fold_simps(2))
qed auto

lemma odd_loop_facts:
  assumes "\<not> deletesFirst (ses d)"
  shows "\<exists>s ed. odd_loop es idx et d = d\<lparr>ses := s, editDistance := ed\<rparr> \<and> \<not> deletesFirst s \<and>
    (\<exists>new. ses_sequence s = ses_sequence (ses d) @ new \<and> map fst new = es \<and> (\<forall>e \<in> set new. etype (snd e) = et))"
  using assms
proof (induction es arbitrary: idx d)
  case Nil
  then show ?case by (intro exI [of _ "ses d"] exI [of _ "editDistance d"]) simp
next
  case (Cons e es)
  let ?d = "d\<lparr>ses := ses_addSequence e idx 0 et (ses d), editDistance := editDistance d + 1\<rparr>"
  have "\<not> deletesFirst (ses ?d)" using Cons.prems by simp
  then obtain s ed new where s: "odd_loop es (idx + 1) et ?d = ?d\<lparr>ses := s, editDistance := ed\<rparr>" "\<not> deletesFirst s"
      "ses_sequence s = ses_sequence (ses ?d) @ new" "map fst new = es" "\<forall>e \<in> set new. etype (snd e) = et"
    using Cons.IH [of ?d "idx + 1"] by blast
  then show ?case
    using Cons.prems
    by (intro exI [of _ s] exI [of _ ed])
       (auto intro!: exI [of _ "(e, \<lparr>beforeIdx = idx, afterIdx = 0, etype = et\<rparr>) # new"])
qed

lemma olds_news_const:
  "\<forall>e \<in> set es. etype (snd e) = SES_ADD \<Longrightarrow> olds es = [] \<and> news es = map fst es"
  "\<forall>e \<in> set es. etype (snd e) = SES_DELETE \<Longrightarrow> news es = [] \<and> olds es = map fst es"
  by (induction es) (auto simp: olds_def news_def)

text \<open>After recording, the script spells the two sequences.\<close>

definition spells :: "'a list \<Rightarrow> 'a list \<Rightarrow> 'a Diff \<Rightarrow> bool" where
  "spells A B d \<longleftrightarrow> side_A d = A \<and> side_B d = B \<and> indexed (ses_sequence (ses d))"

lemma recordSequence_spells:
  assumes w: "walk A B (0, 0) (rev v)" "v \<noteq> []" "hd v = (x, y)"
    and d: "recorded A B (0, 0, d)" "dM d = length A" "dN d = length B" "trivial d \<or> y = int (length B)"
    and xy: "y - x = int (length B) - int (length A)" "y \<le> int (length B)"
  shows "\<exists>d'. recordSequence v d = Some (True, d') \<and> spells A B d' \<and> swapped d' = swapped d \<and> uniHunks d' = uniHunks d \<and>
    (y = int (length B) \<longrightarrow> editDistance d' = editDistance d)"
proof -
  have l: "last ((0, 0) # rev v) = (x, y)" using w(2,3) by (simp add: last_rev)
  then obtain d1 where d1: "fold record_to (rev v) (0, 0, d) = (x, y, d1)" "recorded A B (x, y, d1)" "same_but_script d d1"
    using record_walk [OF w(1), of d] d(1) xy by auto
  have f: "dM d1 = length A" "dN d1 = length B" "trivial d1 \<or> y = int (length B)" "swapped d1 = swapped d"
      "uniHunks d1 = uniHunks d" "editDistance d1 = editDistance d"
    using d1(3) d(2-4) unfolding same_but_script_def by (cases d; cases d1; auto)+
  have r: "dA d1 = A" "dB d1 = B" "\<not> deletesFirst (ses d1)" "0 \<le> x" "0 \<le> y" "side_A d1 = take (nat x) A"
      "side_B d1 = take (nat y) B" "indexed (ses_sequence (ses d1))"
    using d1(2) by (auto simp: recorded_def)
  show ?thesis
  proof (cases "x + 1 > int (length A) \<and> y + 1 > int (length B)")
    case True
    then show ?thesis using d1(1) f r w(2) by (auto simp: recordSequence_def spells_def)
  next
    case False
    then have lt: "x < int (length A)" "y < int (length B)" using xy by linarith+
    let ?ta = "if \<not> swapped d then SES_DELETE else SES_ADD" and ?tb = "if \<not> swapped d then SES_ADD else SES_DELETE"
    obtain s1 e1 n1 where o1: "odd_loop (drop (nat x) A) (x + 1) ?ta d1 = d1\<lparr>ses := s1, editDistance := e1\<rparr>"
        "\<not> deletesFirst s1" "ses_sequence s1 = ses_sequence (ses d1) @ n1" "map fst n1 = drop (nat x) A"
        "\<forall>e \<in> set n1. etype (snd e) = ?ta"
      using odd_loop_facts [OF r(3), of "drop (nat x) A" "x + 1" ?ta] by blast
    let ?d2 = "d1\<lparr>ses := s1, editDistance := e1\<rparr>"
    have "\<not> deletesFirst (ses ?d2)" using o1 by simp
    then obtain s2 e2 n2 where o2: "odd_loop (drop (nat y) B) (y + 1) ?tb ?d2 = ?d2\<lparr>ses := s2, editDistance := e2\<rparr>"
        "ses_sequence s2 = ses_sequence (ses ?d2) @ n2" "map fst n2 = drop (nat y) B"
        "\<forall>e \<in> set n2. etype (snd e) = ?tb"
      using odd_loop_facts [of ?d2 "drop (nat y) B" "y + 1" ?tb] by blast
    have "recordSequence v d = Some (True, ?d2\<lparr>ses := s2, editDistance := e2\<rparr>)"
      using False d1(1) f r lt o1(1) o2(1) w(2) by (simp add: recordSequence_def recordOddSequence_def)
    moreover have "indexed (ses_sequence s2)"
      using o1(3,5) o2(2,4) r(8) indexed_changes [of "ses_sequence (ses d1)" "n1 @ n2"] by (force split: if_splits)
    ultimately have "recordSequence v d = Some (True, ?d2\<lparr>ses := s2, editDistance := e2\<rparr>)"
        "indexed (ses_sequence s2)" by auto
    moreover have "spells A B (?d2\<lparr>ses := s2, editDistance := e2\<rparr>)"
      using \<open>indexed (ses_sequence s2)\<close> r(6,7) f(4) o1(3-5) o2(2-4) olds_news_const [of n1] olds_news_const [of n2]
      by (auto simp: spells_def side_A_def side_B_def)
    ultimately show ?thesis using f lt by simp
  qed
qed

section \<open>The search\<close>

text \<open>The front on diagonal \<open>k\<close>, and the indices that are inside the arrays.\<close>

definition front :: "'a Diff \<Rightarrow> int \<Rightarrow> int" where
  "front d k = arr_get (fp d) (offs d) k"

definition inside :: "'a list \<Rightarrow> 'a list \<Rightarrow> int \<Rightarrow> bool" where
  "inside A B k \<longleftrightarrow> - int (length A) - 1 \<le> k \<and> k \<le> int (length B) + 1"

lemma arr_get_set:
  "0 \<le> k + int off \<Longrightarrow> nat (k + int off) < length a \<Longrightarrow> 0 \<le> k' + int off \<Longrightarrow>
     arr_get (arr_set a off k v) off k' = (if k' = k then v else arr_get a off k')"
  by (auto simp: arr_get_def arr_set_def nth_list_update nat_eq_iff)

definition shape :: "'a list \<Rightarrow> 'a list \<Rightarrow> 'a Diff \<Rightarrow> bool" where
  "shape A B d \<longleftrightarrow>
     dA d = A \<and> dB d = B \<and> dM d = length A \<and> dN d = length B \<and> length A \<le> length B \<and>
     delta d = length B - length A \<and> offs d = length A + 1 \<and> \<not> editDistanceOnly d \<and>
     length (fp d) = length A + length B + 3 \<and> length (epath d) = length A + length B + 3"

text \<open>An entry is unset, or it points to the recorded point of its diagonal.\<close>

definition entry_ok :: "'a Diff \<Rightarrow> int \<Rightarrow> bool" where
  "entry_ok d k \<longleftrightarrow>
     front d k = -1 \<and> arr_get (epath d) (offs d) k = -1 \<or>
     0 \<le> front d k \<and> k \<le> front d k \<and> 0 \<le> arr_get (epath d) (offs d) k \<and>
     arr_get (epath d) (offs d) k < int (length (pathCordinates d)) \<and>
     (\<exists>r. pathCordinates d ! nat (arr_get (epath d) (offs d) k) = (front d k - k, front d k, r))"

definition search_inv :: "'a list \<Rightarrow> 'a list \<Rightarrow> 'a Diff \<Rightarrow> bool" where
  "search_inv A B d \<longleftrightarrow> shape A B d \<and> coords_ok A B (pathCordinates d) \<and> (\<forall>k. inside A B k \<longrightarrow> entry_ok d k)"

text \<open>What the search leaves alone.\<close>

definition untouched :: "'a Diff \<Rightarrow> 'a Diff \<Rightarrow> bool" where
  "untouched d d' \<longleftrightarrow> d'\<lparr>fp := fp d, epath := epath d, pathCordinates := pathCordinates d\<rparr> = d"

lemma untouched_refl [simp]: "untouched d d"
  by (simp add: untouched_def)

lemma untouched_trans: "untouched d d' \<Longrightarrow> untouched d' d'' \<Longrightarrow> untouched d d''"
  unfolding untouched_def by (cases d; cases d'; cases d'') auto

lemma untouched_sel:
  "untouched d d' \<Longrightarrow> delta d' = delta d \<and> ses d' = ses d \<and> swapped d' = swapped d \<and> trivial d' = trivial d \<and>
     uniHunks d' = uniHunks d \<and> lcs d' = lcs d \<and> editDistance d' = editDistance d"
  unfolding untouched_def by (cases d; cases d') auto

lemma fp_step_front:
  assumes inv: "search_inv A B d" and k: "- int (length A) \<le> k" "k \<le> int (length B)"
  shows "\<exists>y. max (front d (k - 1) + 1) (front d (k + 1)) \<le> y \<and>
      (y - k \<le> max (max (front d (k - 1) + 1) (front d (k + 1)) - k) (int (length A))) \<and>
      (y \<le> max (max (front d (k - 1) + 1) (front d (k + 1))) (int (length B))) \<and>
      (\<forall>k'. inside A B k' \<longrightarrow> front (fp_step k d) k' = (if k' = k then y else front d k')) \<and>
      diag_run A B (max (front d (k - 1) + 1) (front d (k + 1)) - k, max (front d (k - 1) + 1) (front d (k + 1))) (y - k, y) \<and>
      pathCordinates (fp_step k d) = pathCordinates d @
        [(y - k, y, if front d (k - 1) + 1 > front d (k + 1) then arr_get (epath d) (offs d) (k - 1)
                    else arr_get (epath d) (offs d) (k + 1))] \<and>
      epath (fp_step k d) = arr_set (epath d) (offs d) k (int (length (pathCordinates d))) \<and>
      shape A B (fp_step k d) \<and> untouched d (fp_step k d)"
proof -
  let ?y0 = "max (front d (k - 1) + 1) (front d (k + 1))"
  have sh: "shape A B d" using inv by (simp add: search_inv_def)
  obtain x y where s: "slide A B (?y0 - k) ?y0 = (x, y)" by fastforce
  have run: "diag_run A B (?y0 - k, ?y0) (x, y)" using slide_run [of A B "?y0 - k" ?y0] s by simp
  have xy: "x = y - k" "?y0 \<le> y" "y - k \<le> max (?y0 - k) (int (length A))" "y \<le> max ?y0 (int (length B))"
    using diag_run_facts [OF run] by auto
  have fr: "front (fp_step k d) k' = (if k' = k then y else front d k')" if "inside A B k'" for k'
    using that k sh s
    by (auto simp: front_def fp_step_def snake_def shape_def inside_def arr_get_set Let_def split: prod.splits)
  show ?thesis
    using xy run fr sh s
    by (intro exI [of _ y])
       (auto simp: fp_step_def snake_def front_def shape_def untouched_def arr_set_def Let_def split: prod.splits)
qed

end
