(* ===== verification/Dtl_Search.thy ===== *)
theory Dtl_Search
  imports Dtl_Correct
begin

text \<open>
  Termination and correctness of the search of \<open>Diff::compose\<close>: every round keeps the fronts inside
  the edit graph, pushes the front on \<open>delta\<close> at least one row further and records only reachable
  points, so the loop ends after at most \<open>M + 1\<close> rounds and the recorded script spells the two
  sequences.
\<close>

lemma entry_unset_or_point:
  assumes "search_inv A B d" and "inside A B k"
  obtains "front d k = -1" "arr_get (epath d) (offs d) k = -1"
  | i r where "0 \<le> front d k" "k \<le> front d k" "arr_get (epath d) (offs d) k = int i" "i < length (pathCordinates d)"
      "pathCordinates d ! i = (front d k - k, front d k, r)"
proof -
  have "entry_ok d k" using assms by (simp add: search_inv_def)
  then show thesis
    unfolding entry_ok_def
  proof (elim disjE conjE exE)
    fix r
    assume "0 \<le> front d k" "k \<le> front d k" "0 \<le> arr_get (epath d) (offs d) k"
      "arr_get (epath d) (offs d) k < int (length (pathCordinates d))"
      "pathCordinates d ! nat (arr_get (epath d) (offs d) k) = (front d k - k, front d k, r)"
    then show thesis using that(2) [of "nat (arr_get (epath d) (offs d) k)" r] by auto
  qed (rule that(1))
qed

lemma segment_edit:
  "diag_run A B (x, y + 1) v \<Longrightarrow> segment A B (x, y) v" "diag_run A B (x + 1, y) v \<Longrightarrow> segment A B (x, y) v"
  by (auto simp: segment_def one_edit_def)

lemma fp_step_point:
  assumes inv: "search_inv A B d" and k: "- int (length A) \<le> k" "k \<le> int (length B)"
    and seen: "k = 0 \<or> 0 \<le> front d (k - 1) \<or> 0 \<le> front d (k + 1)"
    and run: "diag_run A B (max (front d (k - 1) + 1) (front d (k + 1)) - k, max (front d (k - 1) + 1) (front d (k + 1))) (x, y)"
  shows "max 0 k \<le> max (front d (k - 1) + 1) (front d (k + 1)) \<and>
    point_ok A B (pathCordinates d @
        [(x, y, if front d (k - 1) + 1 > front d (k + 1) then arr_get (epath d) (offs d) (k - 1)
                else arr_get (epath d) (offs d) (k + 1))]) (length (pathCordinates d))"
proof -
  have i: "inside A B (k - 1)" "inside A B (k + 1)" using k by (auto simp: inside_def)
  show ?thesis
  proof (cases "front d (k - 1) + 1 > front d (k + 1)")
    case True
    show ?thesis
      using inv i(1)
    proof (cases rule: entry_unset_or_point)
      case 1
      moreover from this True have "front d (k + 1) = -1" using entry_unset_or_point [OF inv i(2)] by fastforce
      ultimately show ?thesis using True run seen by (auto simp: point_ok_def)
    next
      case (2 j r)
      then have "segment A B (front d (k - 1) - (k - 1), front d (k - 1)) (x, y)"
        using True run by (intro segment_edit(1)) (simp add: max_def algebra_simps)
      with 2 True show ?thesis by (simp add: point_ok_def nth_append)
    qed
  next
    case False
    show ?thesis
      using inv i(2)
    proof (cases rule: entry_unset_or_point)
      case 1
      with False show ?thesis using entry_unset_or_point [OF inv i(1)] by fastforce
    next
      case (2 j r)
      then have "segment A B (front d (k + 1) - (k + 1), front d (k + 1)) (x, y)"
        using False run by (intro segment_edit(2)) (simp add: max_def)
      with 2 False show ?thesis by (simp add: point_ok_def nth_append)
    qed
  qed
qed

lemma fp_step_inv:
  assumes inv: "search_inv A B d" and k: "- int (length A) \<le> k" "k \<le> int (length B)"
    and seen: "k = 0 \<or> 0 \<le> front d (k - 1) \<or> 0 \<le> front d (k + 1)"
  obtains y where "max (front d (k - 1) + 1) (front d (k + 1)) \<le> y" "0 \<le> y"
      "y - k \<le> max (max (front d (k - 1) + 1) (front d (k + 1)) - k) (int (length A))"
      "y \<le> max (max (front d (k - 1) + 1) (front d (k + 1))) (int (length B))"
      "\<And>k'. inside A B k' \<Longrightarrow> front (fp_step k d) k' = (if k' = k then y else front d k')"
      "search_inv A B (fp_step k d)" "untouched d (fp_step k d)"
proof -
  let ?r = "if front d (k - 1) + 1 > front d (k + 1) then arr_get (epath d) (offs d) (k - 1)
            else arr_get (epath d) (offs d) (k + 1)"
  obtain y where y: "max (front d (k - 1) + 1) (front d (k + 1)) \<le> y"
      "y - k \<le> max (max (front d (k - 1) + 1) (front d (k + 1)) - k) (int (length A))"
      "y \<le> max (max (front d (k - 1) + 1) (front d (k + 1))) (int (length B))"
      "\<And>k'. inside A B k' \<Longrightarrow> front (fp_step k d) k' = (if k' = k then y else front d k')"
      "diag_run A B (max (front d (k - 1) + 1) (front d (k + 1)) - k, max (front d (k - 1) + 1) (front d (k + 1))) (y - k, y)"
      and pc: "pathCordinates (fp_step k d) = pathCordinates d @ [(y - k, y, ?r)]"
      and ep: "epath (fp_step k d) = arr_set (epath d) (offs d) k (int (length (pathCordinates d)))"
      and sh: "shape A B (fp_step k d)" and un: "untouched d (fp_step k d)"
    using fp_step_front [OF inv k] by blast
  have pt: "max 0 k \<le> max (front d (k - 1) + 1) (front d (k + 1))"
      "point_ok A B (pathCordinates d @ [(y - k, y, ?r)]) (length (pathCordinates d))"
    using fp_step_point [OF inv k seen y(5)] by auto
  have shd: "shape A B d" "coords_ok A B (pathCordinates d)" "\<And>k'. inside A B k' \<Longrightarrow> entry_ok d k'"
    using inv by (auto simp: search_inv_def)
  have off: "offs (fp_step k d) = offs d" using sh shd(1) by (simp add: shape_def)
  have epk: "arr_get (epath (fp_step k d)) (offs (fp_step k d)) k' =
      (if k' = k then int (length (pathCordinates d)) else arr_get (epath d) (offs d) k')" if "inside A B k'" for k'
    using that k shd(1) unfolding ep off by (subst arr_get_set) (auto simp: shape_def inside_def)
  have "entry_ok (fp_step k d) k'" if i: "inside A B k'" for k'
  proof (cases "k' = k")
    case True
    moreover have "0 \<le> y" "k \<le> y" using y(1) pt(1) by linarith+
    ultimately show ?thesis using y(4) [OF i] epk [OF i] pc by (simp add: entry_ok_def)
  next
    case False
    then have e: "front (fp_step k d) k' = front d k'"
        "arr_get (epath (fp_step k d)) (offs (fp_step k d)) k' = arr_get (epath d) (offs d) k'"
      using y(4) [OF i] epk [OF i] by auto
    show ?thesis
      using shd(3) [OF i] unfolding entry_ok_def e pc by (auto simp: nth_append nat_less_iff)
  qed
  then have "search_inv A B (fp_step k d)"
    using sh coords_ok_snoc [OF shd(2) pt(2)] pc by (simp add: search_inv_def)
  moreover have "0 \<le> y" using y(1) pt(1) by linarith
  ultimately show thesis using that y un by blast
qed

text \<open>Loops over a range of diagonals.\<close>

lemma fold_upto_inv:
  fixes a b :: int
  assumes "P (a - 1) d" and "\<And>j d. a \<le> j \<Longrightarrow> j \<le> b \<Longrightarrow> P (j - 1) d \<Longrightarrow> P j (f j d)" and "a \<le> b + 1"
  shows "P b (fold f [a..b] d)"
  using assms(2,3)
proof (induction "nat (b + 1 - a)" arbitrary: b)
  case 0
  then have "b = a - 1" by simp
  then show ?case using assms(1) by simp
next
  case (Suc n)
  then have "P (b - 1) (fold f [a..b - 1] d)" by force
  with Suc show ?case by (simp add: upto_rec2)
qed

lemma fold_downto_inv:
  fixes a b :: int
  assumes "P (b + 1) d" and "\<And>j d. a \<le> j \<Longrightarrow> j \<le> b \<Longrightarrow> P (j + 1) d \<Longrightarrow> P j (f j d)" and "a \<le> b + 1"
  shows "P a (fold f (rev [a..b]) d)"
  using assms(2,3)
proof (induction "nat (b + 1 - a)" arbitrary: a)
  case 0
  then show ?case using assms(1) by (simp add: antisym)
next
  case (Suc n)
  then have "P (a + 1) (fold f (rev [a + 1..b]) d)" by force
  with Suc show ?case by (simp add: upto_rec1)
qed


section \<open>Rounds\<close>

text \<open>Before round \<open>p\<close> the diagonals from \<open>1 - p\<close> to \<open>delta + p - 1\<close> have a
  front, none has come to an edge of the graph, and the front on \<open>delta\<close> is \<open>p - 1\<close> rows past
  its start.\<close>

definition searching :: "'a list \<Rightarrow> 'a list \<Rightarrow> int \<Rightarrow> 'a Diff \<Rightarrow> bool" where
  "searching A B p d \<longleftrightarrow>
     (let M = int (length A); N = int (length B); dl = N - M in
      search_inv A B d \<and> 0 \<le> p \<and>
      (\<forall>k. inside A B k \<longrightarrow>
        (0 \<le> front d k \<longleftrightarrow> 0 < p \<and> - p < k \<and> k < dl + p) \<and>
        (0 \<le> front d k \<longrightarrow> (k \<le> dl \<longrightarrow> front d k - k < M) \<and> (dl \<le> k \<longrightarrow> front d k < N))) \<and>
      (0 < p \<longrightarrow> dl + p - 1 \<le> front d dl))"

lemma searching_rounds:
  assumes "searching A B p d"
  shows "p \<le> int (length A)"
proof -
  have "length A \<le> length B" using assms by (auto simp: searching_def search_inv_def shape_def Let_def)
  then have "inside A B (int (length B) - int (length A))" by (simp add: inside_def)
  then show ?thesis using assms by (cases "0 < p") (force simp: searching_def Let_def)+
qed

lemma front_unset: "search_inv A B d \<Longrightarrow> inside A B k \<Longrightarrow> front d k < 0 \<Longrightarrow> front d k = -1"
  by (auto simp: search_inv_def entry_ok_def)

lemma searching_unset:
  assumes "searching A B p d" and "inside A B k" and "p = 0 \<or> k \<le> - p \<or> int (length B) - int (length A) + p \<le> k"
  shows "front d k = -1"
proof -
  have "\<not> 0 \<le> front d k" "search_inv A B d" using assms unfolding searching_def Let_def by (metis linorder_not_less, metis)
  then show ?thesis using front_unset [of A B d k] assms(2) by simp
qed

text \<open>The first loop of a round: fronts grow with the diagonal and stay left of the edge.\<close>

definition lower_done :: "'a list \<Rightarrow> 'a list \<Rightarrow> int \<Rightarrow> 'a Diff \<Rightarrow> int \<Rightarrow> 'a Diff \<Rightarrow> bool" where
  "lower_done A B p d0 j d \<longleftrightarrow>
     search_inv A B d \<and> untouched d0 d \<and>
     (\<forall>k. inside A B k \<longrightarrow> k < - p \<or> j < k \<longrightarrow> front d k = front d0 k) \<and>
     (\<forall>k. - p \<le> k \<and> k \<le> j \<longrightarrow> 0 \<le> front d k \<and> k + p \<le> front d k \<and> front d k - k \<le> int (length A)) \<and>
     (\<forall>k. - p < k \<and> k \<le> j \<longrightarrow> front d (k - 1) < front d k)"

lemma lower_step:
  assumes s: "searching A B p d0" and l: "lower_done A B p d0 (j - 1) d"
    and j: "- p \<le> j" "j < int (length B) - int (length A)"
  shows "lower_done A B p d0 j (fp_step j d)"
proof -
  have p: "0 \<le> p" "p \<le> int (length A)" using s searching_rounds [OF s] by (auto simp: searching_def Let_def)
  have inv: "search_inv A B d" and un: "untouched d0 d"
    and same: "\<And>k. inside A B k \<Longrightarrow> k < - p \<or> j \<le> k \<Longrightarrow> front d k = front d0 k"
    using l by (auto simp: lower_done_def)
  have i: "inside A B (j - 1)" "inside A B (j + 1)" "inside A B j" using j p by (auto simp: inside_def)
  have up: "front d (j + 1) = -1 \<and> p = 0 \<or> 0 < p \<and> 0 \<le> front d (j + 1) \<and> front d (j + 1) - (j + 1) < int (length A)"
    using s same [OF i(2)] i(2) j front_unset [of A B d0 "j + 1"] unfolding searching_def Let_def by auto
  have lo: "front d (j - 1) = -1 \<and> j = - p \<or>
      - p < j \<and> 0 \<le> front d (j - 1) \<and> j - 1 + p \<le> front d (j - 1) \<and> front d (j - 1) - (j - 1) \<le> int (length A)"
  proof (cases "j = - p")
    case True
    then show ?thesis
      using s same [OF i(1)] i(1) front_unset [of A B d0 "j - 1"] unfolding searching_def Let_def by auto
  next
    case False
    then show ?thesis using l j unfolding lower_done_def by auto
  qed
  have seen: "j = 0 \<or> 0 \<le> front d (j - 1) \<or> 0 \<le> front d (j + 1)" using up lo by auto
  have jr: "- int (length A) \<le> j" "j \<le> int (length B)" using j p by auto
  obtain y where y: "max (front d (j - 1) + 1) (front d (j + 1)) \<le> y" "0 \<le> y"
      "y - j \<le> max (max (front d (j - 1) + 1) (front d (j + 1)) - j) (int (length A))"
      "\<And>k'. inside A B k' \<Longrightarrow> front (fp_step j d) k' = (if k' = j then y else front d k')"
      "search_inv A B (fp_step j d)" "untouched d (fp_step j d)"
    using fp_step_inv [OF inv jr seen] by metis
  have yb: "j + p \<le> y" "y - j \<le> int (length A)" "- p < j \<longrightarrow> front d (j - 1) < y"
    using y(1-3) up lo p by auto
  have ins: "inside A B k" if "- p \<le> k" "k \<le> j" for k using that jr p by (auto simp: inside_def)
  show ?thesis
    unfolding lower_done_def
  proof (intro conjI allI impI)
    fix k assume k: "- p < k \<and> k \<le> j"
    then have "inside A B k" "inside A B (k - 1)" using ins by auto
    then show "front (fp_step j d) (k - 1) < front (fp_step j d) k"
      using k l yb(3) y(4) by (cases "k = j") (auto simp: lower_done_def)
  next
    fix k assume k: "- p \<le> k \<and> k \<le> j"
    then have "inside A B k" using ins by auto
    then show "0 \<le> front (fp_step j d) k" "k + p \<le> front (fp_step j d) k"
        "front (fp_step j d) k - k \<le> int (length A)"
      using k l yb y(2,4) by (cases "k = j"; auto simp: lower_done_def)+
  qed (use j(1) y(4-6) un same untouched_trans in auto)
qed


text \<open>The second loop: fronts grow as the diagonal falls and stay above the edge.\<close>

definition upper_done :: "'a list \<Rightarrow> 'a list \<Rightarrow> int \<Rightarrow> 'a Diff \<Rightarrow> int \<Rightarrow> 'a Diff \<Rightarrow> bool" where
  "upper_done A B p d0 j d \<longleftrightarrow>
     (let top = int (length B) - int (length A) + p in
      search_inv A B d \<and> untouched d0 d \<and>
      (\<forall>k. inside A B k \<longrightarrow> k < j \<or> top < k \<longrightarrow> front d k = front d0 k) \<and>
      (\<forall>k. j \<le> k \<and> k \<le> top \<longrightarrow> 0 \<le> front d k \<and> front d k \<le> int (length B)) \<and>
      (\<forall>k. j \<le> k \<and> k < top \<longrightarrow> front d (k + 1) \<le> front d k))"

lemma upper_step:
  assumes s: "searching A B p d0" and l: "upper_done A B p d1 (j + 1) d"
    and eq: "\<And>k. inside A B k \<Longrightarrow> int (length B) - int (length A) \<le> k \<Longrightarrow> front d1 k = front d0 k"
    and j: "int (length B) - int (length A) < j" "j \<le> int (length B) - int (length A) + p"
  shows "upper_done A B p d1 j (fp_step j d)"
proof -
  let ?top = "int (length B) - int (length A) + p"
  have p: "0 < p" "p \<le> int (length A)" using s searching_rounds [OF s] j by auto
  have inv: "search_inv A B d" and un: "untouched d1 d"
    and same: "\<And>k. inside A B k \<Longrightarrow> k \<le> j \<or> ?top < k \<Longrightarrow> front d k = front d1 k"
    using l by (auto simp: upper_done_def Let_def)
  have "length A \<le> length B" using inv by (simp add: search_inv_def shape_def)
  then have jr: "- int (length A) \<le> j" "j \<le> int (length B)" using j p by auto
  then have i: "inside A B (j - 1)" "inside A B (j + 1)" "inside A B j" using j p by (auto simp: inside_def)
  have lo: "0 \<le> front d (j - 1)" "front d (j - 1) < int (length B)"
    using s same [OF i(1)] eq [OF i(1)] i(1) j p \<open>length A \<le> length B\<close> unfolding searching_def Let_def by auto
  have up: "front d (j + 1) = -1 \<or> 0 \<le> front d (j + 1) \<and> front d (j + 1) \<le> int (length B)"
  proof (cases "j = ?top")
    case True
    then show ?thesis
      using s same [OF i(2)] eq [OF i(2)] i(2) p front_unset [of A B d0 "j + 1"]
      unfolding searching_def Let_def by auto
  next
    case False
    then show ?thesis using l j unfolding upper_done_def Let_def by auto
  qed
  obtain y where y: "max (front d (j - 1) + 1) (front d (j + 1)) \<le> y" "0 \<le> y"
      "y \<le> max (max (front d (j - 1) + 1) (front d (j + 1))) (int (length B))"
      "\<And>k'. inside A B k' \<Longrightarrow> front (fp_step j d) k' = (if k' = j then y else front d k')"
      "search_inv A B (fp_step j d)" "untouched d (fp_step j d)"
    using fp_step_inv [OF inv jr] lo(1) by metis
  have yb: "y \<le> int (length B)" "front d (j + 1) \<le> y" using y(1-3) up lo by auto
  have ins: "inside A B k" if "j \<le> k" "k \<le> ?top" for k using that jr p by (auto simp: inside_def)
  show ?thesis
    unfolding upper_done_def Let_def
  proof (intro conjI allI impI)
    fix k assume k: "j \<le> k \<and> k < ?top"
    then have "inside A B k" "inside A B (k + 1)" using ins by auto
    then show "front (fp_step j d) (k + 1) \<le> front (fp_step j d) k"
      using k l yb(2) y(4) by (cases "k = j") (auto simp: upper_done_def Let_def)
  next
    fix k assume k: "j \<le> k \<and> k \<le> ?top"
    then have "inside A B k" using ins by auto
    then show "0 \<le> front (fp_step j d) k" "front (fp_step j d) k \<le> int (length B)"
      using k l yb y(2,4) by (cases "k = j"; auto simp: upper_done_def Let_def)+
  qed (use j(2) y(4-6) un same untouched_trans in auto)
qed

lemma lower_mono:
  assumes "lower_done A B p d0 j d" and "- p \<le> k" "k \<le> j"
  shows "front d k - k \<le> front d j - j"
  using assms(3,2)
proof (induction k rule: int_le_induct)
  case (step i)
  then have "front d (i - 1) < front d i" using assms(1) by (auto simp: lower_done_def)
  with step show ?case by auto
qed simp

lemma upper_mono:
  assumes "upper_done A B p d0 j d" and "j \<le> k" "k \<le> int (length B) - int (length A) + p"
  shows "front d k \<le> front d j"
  using assms(2,3)
proof (induction k rule: int_ge_induct)
  case (step i)
  then have "front d (i + 1) \<le> front d i" using assms(1) by (auto simp: upper_done_def Let_def)
  with step show ?case by auto
qed simp


lemma round_loops:
  assumes s: "searching A B p d"
  obtains d1 d2 where "onp_round p d = fp_step (int (length B) - int (length A)) d2"
    "lower_done A B p d (int (length B) - int (length A) - 1) d1"
    "upper_done A B p d1 (int (length B) - int (length A) + 1) d2"
proof -
  let ?dl = "int (length B) - int (length A)"
  let ?d1 = "fold fp_step [- p..?dl - 1] d"
  let ?d2 = "fold fp_step (rev [?dl + 1..?dl + p]) ?d1"
  have inv: "search_inv A B d" and p: "0 \<le> p" using s by (auto simp: searching_def Let_def)
  have le: "length A \<le> length B" using inv by (simp add: search_inv_def shape_def)
  have l0: "lower_done A B p d (- p - 1) d" using inv by (auto simp: lower_done_def)
  have lo: "lower_done A B p d (?dl - 1) ?d1"
    using l0 by (rule fold_upto_inv [where P = "lower_done A B p d"]) (use lower_step [OF s] le p in auto)
  have u0: "upper_done A B p ?d1 (?dl + p + 1) ?d1" using lo by (auto simp: upper_done_def lower_done_def Let_def)
  have eq: "front ?d1 k = front d k" if "inside A B k" "?dl \<le> k" for k
    using lo that by (auto simp: lower_done_def)
  have up: "upper_done A B p ?d1 (?dl + 1) ?d2"
    using u0 by (rule fold_downto_inv [where P = "upper_done A B p ?d1"]) (use upper_step [OF s _ eq] p in auto)
  have "onp_round p d = fp_step ?dl ?d2"
    using inv le by (simp add: onp_round_def search_inv_def shape_def Let_def of_nat_diff)
  then show thesis using that lo up by blast
qed

text \<open>The fronts after the two loops of round \<open>p\<close>, with \<open>delta\<close> still to do.\<close>

definition bands :: "'a list \<Rightarrow> 'a list \<Rightarrow> int \<Rightarrow> 'a Diff \<Rightarrow> bool" where
  "bands A B p d \<longleftrightarrow>
     (let M = int (length A); N = int (length B); dl = N - M in
      search_inv A B d \<and> 0 \<le> p \<and> p \<le> M \<and>
      (\<forall>k. inside A B k \<longrightarrow> k < - p \<or> dl + p < k \<longrightarrow> front d k = -1) \<and>
      (\<forall>k. - p \<le> k \<and> k < dl \<longrightarrow>
         0 \<le> front d k \<and> k + p \<le> front d k \<and> front d k - k \<le> M \<and> front d k - k \<le> front d (dl - 1) - (dl - 1)) \<and>
      (\<forall>k. dl < k \<and> k \<le> dl + p \<longrightarrow> 0 \<le> front d k \<and> front d k \<le> N \<and> front d k \<le> front d (dl + 1)))"

lemma round_bands:
  assumes s: "searching A B p d"
  obtains d2 where "onp_round p d = fp_step (int (length B) - int (length A)) d2" "bands A B p d2" "untouched d d2"
proof -
  let ?dl = "int (length B) - int (length A)"
  obtain d1 d2 where d: "onp_round p d = fp_step ?dl d2" and lo: "lower_done A B p d (?dl - 1) d1"
      and up: "upper_done A B p d1 (?dl + 1) d2"
    using round_loops [OF s] .
  have p: "0 \<le> p" "p \<le> int (length A)" using s searching_rounds [OF s] by (auto simp: searching_def Let_def)
  have inv: "search_inv A B d2" and un: "untouched d d2"
    using lo up untouched_trans by (auto simp: lower_done_def upper_done_def Let_def)
  have le: "length A \<le> length B" using inv by (simp add: search_inv_def shape_def)
  have ins: "inside A B k" if "- p - 1 \<le> k" "k \<le> ?dl + p + 1" for k using that p by (auto simp: inside_def)
  have f1: "front d2 k = front d1 k" if "inside A B k" "k \<le> ?dl" for k using up that by (auto simp: upper_done_def Let_def)
  have out: "front d2 k = -1" if k: "inside A B k" "k < - p \<or> ?dl + p < k" for k
  proof -
    have "front d2 k = front d k" using up lo k p le by (auto simp: upper_done_def lower_done_def Let_def)
    then show ?thesis using searching_unset [OF s k(1)] k(2) by auto
  qed
  have low: "0 \<le> front d2 k \<and> k + p \<le> front d2 k \<and> front d2 k - k \<le> int (length A) \<and>
      front d2 k - k \<le> front d2 (?dl - 1) - (?dl - 1)" if "- p \<le> k" "k < ?dl" for k
    using lo lower_mono [OF lo, of k] that f1 [OF ins, of k] f1 [OF ins, of "?dl - 1"] p by (auto simp: lower_done_def)
  have high: "0 \<le> front d2 k \<and> front d2 k \<le> int (length B) \<and> front d2 k \<le> front d2 (?dl + 1)"
    if "?dl < k" "k \<le> ?dl + p" for k
    using up upper_mono [OF up, of k] that by (auto simp: upper_done_def Let_def)
  have "bands A B p d2" unfolding bands_def Let_def using inv p out low high by blast
  then show thesis using that d un by blast
qed

text \<open>The last step of the round either comes to the end of \<open>B\<close> or leaves all fronts inside.\<close>

lemma bands_delta:
  assumes b: "bands A B p d"
  obtains y where "max (front d (int (length B) - int (length A) - 1) + 1) (front d (int (length B) - int (length A) + 1)) \<le> y"
      "0 \<le> y" "int (length B) - int (length A) + p \<le> y" "y \<le> int (length B)"
      "\<And>k. inside A B k \<Longrightarrow> front (fp_step (int (length B) - int (length A)) d) k =
        (if k = int (length B) - int (length A) then y else front d k)"
      "search_inv A B (fp_step (int (length B) - int (length A)) d)"
      "untouched d (fp_step (int (length B) - int (length A)) d)"
proof -
  let ?dl = "int (length B) - int (length A)"
  have inv: "search_inv A B d" and p: "0 \<le> p" "p \<le> int (length A)" using b by (auto simp: bands_def Let_def)
  have le: "length A \<le> length B" using inv by (simp add: search_inv_def shape_def)
  have lo: "front d (?dl - 1) = -1 \<and> p = 0 \<and> ?dl = 0 \<or>
      0 \<le> front d (?dl - 1) \<and> ?dl - 1 + p \<le> front d (?dl - 1) \<and> front d (?dl - 1) < int (length B)"
  proof (cases "- p \<le> ?dl - 1")
    case True
    then show ?thesis using b unfolding bands_def Let_def by (elim conjE allE [of _ "?dl - 1"]) linarith
  next
    case False
    then have "p = 0" "?dl = 0" "inside A B (?dl - 1)" using p le by (auto simp: inside_def)
    then show ?thesis using b by (simp add: bands_def Let_def)
  qed
  have hi: "front d (?dl + 1) \<le> int (length B)"
  proof (cases "p = 0")
    case True
    moreover from this have "inside A B (?dl + 1)" using le by (simp add: inside_def)
    ultimately show ?thesis using b by (simp add: bands_def Let_def)
  next
    case False
    then show ?thesis using b p by (simp add: bands_def Let_def)
  qed
  have r: "- int (length A) \<le> ?dl" "?dl \<le> int (length B)" using le by auto
  have seen: "?dl = 0 \<or> 0 \<le> front d (?dl - 1) \<or> 0 \<le> front d (?dl + 1)" using lo by linarith
  obtain y where y: "max (front d (?dl - 1) + 1) (front d (?dl + 1)) \<le> y" "0 \<le> y"
      "y \<le> max (max (front d (?dl - 1) + 1) (front d (?dl + 1))) (int (length B))"
      "\<And>k'. inside A B k' \<Longrightarrow> front (fp_step ?dl d) k' = (if k' = ?dl then y else front d k')"
      "search_inv A B (fp_step ?dl d)" "untouched d (fp_step ?dl d)"
    using fp_step_inv [OF inv r seen] by metis
  have "?dl + p \<le> y" "y \<le> int (length B)" using y(1-3) lo hi by linarith+
  with y show thesis using that by blast
qed

lemma bands_searching:
  assumes b: "bands A B p d" and y: "max (front d (int (length B) - int (length A) - 1) + 1) (front d (int (length B) - int (length A) + 1)) \<le> y"
      "0 \<le> y" "int (length B) - int (length A) + p \<le> y" "y < int (length B)"
    and f: "\<And>k. inside A B k \<Longrightarrow> front d' k = (if k = int (length B) - int (length A) then y else front d k)"
    and inv: "search_inv A B d'"
  shows "searching A B (p + 1) d'"
proof -
  let ?dl = "int (length B) - int (length A)"
  have p: "0 \<le> p" "p \<le> int (length A)" using b by (auto simp: bands_def Let_def)
  have le: "length A \<le> length B" using inv by (simp add: search_inv_def shape_def)
  have "(0 \<le> front d' k \<longleftrightarrow> - p \<le> k \<and> k \<le> ?dl + p) \<and>
      (0 \<le> front d' k \<longrightarrow> (k \<le> ?dl \<longrightarrow> front d' k - k < int (length A)) \<and> (?dl \<le> k \<longrightarrow> front d' k < int (length B)))"
    if i: "inside A B k" for k
  proof -
    consider "k < - p \<or> ?dl + p < k" | "k = ?dl" | "- p \<le> k" "k < ?dl" | "?dl < k" "k \<le> ?dl + p" by linarith
    then show ?thesis
    proof cases
      case 1
      then have "k \<noteq> ?dl" using p(1) le by linarith
      with 1 b i f [OF i] show ?thesis by (auto simp: bands_def Let_def)
    next
      case 2
      then show ?thesis using f [OF i] y p le by auto
    next
      case 3
      then have "0 \<le> front d k \<and> front d k - k \<le> front d (?dl - 1) - (?dl - 1)" using b by (auto simp: bands_def Let_def)
      with 3 show ?thesis using f [OF i] y p by auto
    next
      case 4
      then have "0 \<le> front d k \<and> front d k \<le> front d (?dl + 1)" using b by (auto simp: bands_def Let_def)
      with 4 show ?thesis using f [OF i] y p le by auto
    qed
  qed
  moreover have "inside A B ?dl" using le by (simp add: inside_def)
  ultimately show ?thesis using inv p y(3) f [of ?dl] unfolding searching_def Let_def by auto
qed

lemma onp_round_search:
  assumes s: "searching A B p d"
  shows "search_inv A B (onp_round p d) \<and> untouched d (onp_round p d) \<and>
    0 \<le> front (onp_round p d) (int (length B) - int (length A)) \<and>
    front (onp_round p d) (int (length B) - int (length A)) \<le> int (length B) \<and>
    (front (onp_round p d) (int (length B) - int (length A)) \<noteq> int (length B) \<longrightarrow>
       searching A B (p + 1) (onp_round p d))"
proof -
  let ?dl = "int (length B) - int (length A)"
  obtain d2 where d: "onp_round p d = fp_step ?dl d2" and b: "bands A B p d2" and un: "untouched d d2"
    using round_bands [OF s] .
  obtain y where y: "max (front d2 (?dl - 1) + 1) (front d2 (?dl + 1)) \<le> y" "0 \<le> y" "?dl + p \<le> y" "y \<le> int (length B)"
      "\<And>k. inside A B k \<Longrightarrow> front (fp_step ?dl d2) k = (if k = ?dl then y else front d2 k)"
      "search_inv A B (fp_step ?dl d2)" "untouched d2 (fp_step ?dl d2)"
    using bands_delta [OF b] by metis
  have "inside A B ?dl" using y(6) by (simp add: inside_def search_inv_def shape_def)
  then have f: "front (onp_round p d) ?dl = y" using y(5) d by simp
  show ?thesis
    unfolding f using d y(2,4,6) untouched_trans [OF un y(7)] bands_searching [OF b y(1-3) _ y(5,6)] by auto
qed


lemma onp_loop_returns:
  assumes "searching A B (p + 1) d"
  shows "\<exists>p' d'. onp_loop p d = Some (p', d') \<and> search_inv A B d' \<and> untouched d d' \<and>
    0 \<le> front d' (int (length B) - int (length A)) \<and> front d' (int (length B) - int (length A)) \<le> int (length B)"
  using assms
proof (induction "nat (int (length A) - p)" arbitrary: p d)
  case 0
  then show ?case using searching_rounds [OF "0.prems"] by simp
next
  case (Suc n)
  let ?d = "onp_round (p + 1) d"
  note r = onp_round_search [OF Suc.prems]
  have dl: "int (delta ?d) = int (length B) - int (length A)" "dN ?d = length B"
    using r by (auto simp: search_inv_def shape_def)
  show ?case
  proof (cases "front ?d (int (delta ?d)) \<noteq> int (dN ?d) \<and> int (length (pathCordinates ?d)) < MAX_CORDINATES_SIZE")
    case True
    then have "searching A B (p + 1 + 1) ?d" using r dl by simp
    moreover have n: "n = nat (int (length A) - (p + 1))" using Suc.hyps(2) by simp
    ultimately obtain p' d' where "onp_loop (p + 1) ?d = Some (p', d')" "search_inv A B d'" "untouched ?d d'"
        "0 \<le> front d' (int (length B) - int (length A))" "front d' (int (length B) - int (length A)) \<le> int (length B)"
      using Suc.hyps(1) [of "p + 1" ?d] n by blast
    then show ?thesis using True r untouched_trans by (subst onp_loop.simps) (auto simp: front_def Let_def)
  next
    case False
    then show ?thesis using r by (subst onp_loop.simps) (auto simp: front_def Let_def)
  qed
qed

definition fresh :: "'a list \<Rightarrow> 'a list \<Rightarrow> 'a Diff \<Rightarrow> bool" where
  "fresh A B d \<longleftrightarrow>
     shape A B d \<and> fp d = replicate (length A + length B + 3) (-1) \<and> epath d = replicate (length A + length B + 3) (-1) \<and>
     pathCordinates d = [] \<and> ses_sequence (ses d) = [] \<and> \<not> deletesFirst (ses d)"

lemma fresh_searching: "fresh A B d \<Longrightarrow> searching A B 0 d"
  by (auto simp: fresh_def searching_def search_inv_def shape_def coords_ok_def entry_ok_def front_def arr_get_def
      inside_def Let_def nat_less_iff)

text \<open>A diagonal with a front has its point, and following the path from there is a walk.\<close>

lemma search_inv_path:
  assumes "search_inv A B d" and "inside A B k" and "0 \<le> front d k"
  shows "\<exists>epc. follow_path (pathCordinates d) (arr_get (epath d) (offs d) k) [] = Some epc \<and> epc \<noteq> [] \<and>
    walk A B (0, 0) (rev epc) \<and> hd epc = (front d k - k, front d k)"
  using assms(1,2)
proof (cases rule: entry_unset_or_point)
  case 1
  then show ?thesis using assms(3) by simp
next
  case (2 i r)
  then show ?thesis using follow_path_walk [of A B "pathCordinates d" i "[]"] assms(1) by (auto simp: search_inv_def)
qed

lemma compose_loop_spells:
  assumes f: "fresh A B d" and t: "trivial d"
  shows "\<exists>d'. compose_loop d = Some d' \<and> spells A B d' \<and> swapped d' = swapped d \<and> uniHunks d' = uniHunks d"
proof -
  let ?dl = "int (length B) - int (length A)"
  obtain p d1 where l: "onp_loop (-1) d = Some (p, d1)" "search_inv A B d1" "untouched d d1" "0 \<le> front d1 ?dl"
      "front d1 ?dl \<le> int (length B)"
    using onp_loop_returns [of A B "-1" d] fresh_searching [OF f] by auto
  have sh: "shape A B d1" "int (delta d1) = ?dl" "inside A B ?dl" using l(2) by (auto simp: search_inv_def shape_def inside_def)
  obtain epc where e: "follow_path (pathCordinates d1) (arr_get (epath d1) (offs d1) ?dl) [] = Some epc" "epc \<noteq> []"
      "walk A B (0, 0) (rev epc)" "hd epc = (front d1 ?dl - ?dl, front d1 ?dl)"
    using search_inv_path [OF l(2) sh(3) l(4)] by blast
  let ?d2 = "d1\<lparr>editDistance := editDistance d1 + int (delta d1) + 2 * p\<rparr>"
  have "recorded A B (0, 0, ?d2)" "trivial ?d2"
    using f t sh(1) untouched_sel [OF l(3)]
    by (auto simp: fresh_def shape_def recorded_def side_A_def side_B_def olds_def news_def)
  then obtain d3 where r: "recordSequence epc ?d2 = Some (True, d3)" "spells A B d3" "swapped d3 = swapped d1" "uniHunks d3 = uniHunks d1"
    using recordSequence_spells [OF e(3,2,4), of ?d2] sh(1) l(5) by (auto simp: shape_def)
  have "compose_loop d = Some (d3\<lparr>fp := []\<rparr>)"
    using l(1) e(1) r(1) sh(1,2) by (subst compose_loop.simps) (simp add: Let_def shape_def)
  then show ?thesis using r untouched_sel [OF l(3)] by (auto simp: spells_def side_A_def side_B_def)
qed

text \<open>The script of two sequences.\<close>

lemma compose_script:
  "\<exists>d. compose (onUnserious (Diff_new a b)) = Some d \<and> olds (ses_sequence (ses d)) = a \<and>
     news (ses_sequence (ses d)) = b \<and> indexed (ses_sequence (ses d)) \<and> uniHunks d = []"
proof -
  let ?A = "if length a < length b then a else b" and ?B = "if length a < length b then b else a"
  let ?d = "onUnserious (Diff_new a b)"
  let ?start = "?d\<lparr>fp := replicate (dM ?d + dN ?d + 3) (-1), epath := replicate (dM ?d + dN ?d + 3) (-1)\<rparr>"
  have "fresh ?A ?B ?start" "trivial ?start" "swapped ?start \<longleftrightarrow> \<not> length a < length b" "uniHunks ?start = []"
    by (auto simp: fresh_def shape_def onUnserious_def Diff_new_def Ses_new_def Let_def)
  then obtain d where "compose ?d = Some d" "spells ?A ?B d" "swapped d \<longleftrightarrow> \<not> length a < length b" "uniHunks d = []"
    using compose_loop_spells [of ?A ?B ?start] by (auto simp: compose_def)
  then show ?thesis by (auto simp: spells_def side_A_def side_B_def split: if_splits)
qed

text \<open>Patching with a script that spells the old sequence gives the new one.\<close>

lemma patch_loop_script: "patch_loop es (passed, olds es @ rest) = Some (passed @ news es, rest)"
proof (induction es arbitrary: passed)
  case (Cons e es)
  then show ?case by (cases e; cases "etype (snd e)") (auto simp: olds_def news_def)
qed (simp add: olds_def news_def)

lemma script_unchanged: "(\<forall>e \<in> set es. etype (snd e) = SES_COMMON) \<Longrightarrow> olds es = news es"
  by (induction es) (auto simp: olds_def news_def)

end
