(* ===== verification/Dtl_Hunks.thy ===== *)
theory Dtl_Hunks
  imports Dtl_Search
begin

text \<open>
  Unified hunks (extern/dtl-cpp/dtl/Diff.hpp, functors.hpp and libws_diff/customPrinter.hpp): how
  \<open>composeUnifiedHunks\<close> groups the edit script into hunks with up to three lines of context, how
  they are printed and how \<open>uniPatch\<close> applies them. The lemmas show that every hunk names the
  lines it stands for, that nothing but common lines is left out, and therefore that there are no hunks
  exactly when the two sequences are equal.
\<close>

section \<open>Composing\<close>

definition DTL_SEPARATE_SIZE :: int where
  "DTL_SEPARATE_SIZE = 3"

definition DTL_CONTEXT_SIZE :: int where
  "DTL_CONTEXT_SIZE = 3"

text \<open>The local variables of \<open>composeUnifiedHunks\<close> and the hunks found so far.\<close>

record 'a hunk_state =
  u_common0 :: "'a sesElem list"
  u_common1 :: "'a sesElem list"
  u_change :: "'a sesElem list"
  u_middle :: int
  u_isMiddle :: bool
  u_isAfter :: bool
  u_a :: int
  u_b :: int
  u_c :: int
  u_d :: int
  u_inc :: int
  u_adds :: "'a sesElem list"
  u_deletes :: "'a sesElem list"
  u_hunks :: "'a uniHunk list"

definition hunk_start :: "'a uniHunk list \<Rightarrow> 'a hunk_state" where
  "hunk_start hs = \<lparr>u_common0 = [], u_common1 = [], u_change = [], u_middle = 0, u_isMiddle = False,
     u_isAfter = False, u_a = 0, u_b = 0, u_c = 0, u_d = 0, u_inc = 0, u_adds = [], u_deletes = [], u_hunks = hs\<rparr>"

definition joinSesVec :: "'a sesElem list \<Rightarrow> 'a sesElem list \<Rightarrow> 'a sesElem list" where
  "joinSesVec s1 s2 = (if s2 \<noteq> [] then s1 @ s2 else s1)"

definition hunk_edit :: "bool \<Rightarrow> bool \<Rightarrow> 'a sesElem \<Rightarrow> 'a hunk_state \<Rightarrow> 'a hunk_state" where
  "hunk_edit isAdd final e u =
     (let u1 = u\<lparr>u_middle := 0, u_inc := (if isAdd then u_inc u + 1 else u_inc u - 1)\<rparr>;
          u2 = (if isAdd then u1\<lparr>u_adds := u_adds u1 @ [e]\<rparr> else u1\<lparr>u_deletes := u_deletes u1 @ [e]\<rparr>);
          u3 = (if \<not> u_isMiddle u2 then u2\<lparr>u_isMiddle := True\<rparr> else u2);
          u4 = (if u_isMiddle u3 then (if isAdd then u3\<lparr>u_d := u_d u3 + 1\<rparr> else u3\<lparr>u_b := u_b u3 + 1\<rparr>) else u3)
      in if final
         then u4\<lparr>u_change := joinSesVec (joinSesVec (u_change u4) (u_deletes u4)) (u_adds u4), u_isAfter := True\<rparr>
         else u4)"

text \<open>A common element before any change: it becomes context, the oldest one leaving when there are three.\<close>

definition hunk_context :: "bool \<Rightarrow> 'a sesElem \<Rightarrow> 'a hunk_state \<Rightarrow> 'a hunk_state" where
  "hunk_context sw e u =
     (if int (length (u_common0 u)) < DTL_CONTEXT_SIZE
      then (let u1 = (if u_a u = 0 \<and> u_c u = 0
                      then (if \<not> sw then u\<lparr>u_a := beforeIdx (snd e), u_c := afterIdx (snd e)\<rparr>
                            else u\<lparr>u_a := afterIdx (snd e), u_c := beforeIdx (snd e)\<rparr>)
                      else u)
            in u1\<lparr>u_common0 := u_common0 u1 @ [e]\<rparr>)
      else u\<lparr>u_common0 := butlast (rotate1 (u_common0 u)) @ [e], u_a := u_a u + 1, u_c := u_c u + 1,
             u_b := u_b u - 1, u_d := u_d u - 1\<rparr>)"

definition hunk_common :: "bool \<Rightarrow> bool \<Rightarrow> 'a sesElem \<Rightarrow> 'a hunk_state \<Rightarrow> 'a hunk_state" where
  "hunk_common sw final e u =
     (let u1 = u\<lparr>u_b := u_b u + 1, u_d := u_d u + 1\<rparr>;
          u2 = (if u_common1 u1 = [] \<and> u_adds u1 = [] \<and> u_deletes u1 = [] \<and> u_change u1 = []
                then hunk_context sw e u1 else u1)
      in if u_isMiddle u2 \<and> \<not> u_isAfter u2
         then u2\<lparr>u_middle := u_middle u2 + 1,
                 u_change := joinSesVec (joinSesVec (u_change u2) (u_deletes u2)) (u_adds u2) @ [e],
                 u_isAfter := (if u_middle u2 + 1 \<ge> DTL_SEPARATE_SIZE \<or> final then True else u_isAfter u2),
                 u_adds := [], u_deletes := []\<rparr>
         else u2)"

text \<open>The end of an iteration: \<open>rest\<close> starts with the current element.\<close>

definition hunk_emit :: "bool \<Rightarrow> bool \<Rightarrow> 'a sesElem list \<Rightarrow> 'a hunk_state \<Rightarrow> 'a hunk_state" where
  "hunk_emit sw final rest u =
     (if u_isAfter u \<and> u_change u \<noteq> []
      then (let cnt = int (length (filter (\<lambda>e. etype (snd e) = SES_COMMON) (take (nat DTL_SEPARATE_SIZE) rest)))
            in if cnt < DTL_SEPARATE_SIZE \<and> \<not> final then u\<lparr>u_middle := 0, u_isAfter := False\<rparr>
               else
                (let c0size = int (length (u_common0 u));
                     u1 = (if c0size \<ge> DTL_SEPARATE_SIZE
                           then u\<lparr>u_common0 := take (nat DTL_SEPARATE_SIZE)
                                    (rotate (nat (c0size - DTL_SEPARATE_SIZE)) (u_common0 u)),
                                  u_a := u_a u + (c0size - DTL_SEPARATE_SIZE),
                                  u_c := u_c u + (c0size - DTL_SEPARATE_SIZE)\<rparr>
                           else u);
                     a1 = (if u_a u1 = 0 then u_a u1 + 1 else u_a u1);
                     c1 = (if u_c u1 = 0 then u_c u1 + 1 else u_c u1)
                 in hunk_start (u_hunks u @
                      [\<lparr>h_a = (if sw then c1 else a1), h_b = u_b u1, h_c = (if sw then a1 else c1), h_d = u_d u1,
                        h_common0 = u_common0 u1, h_common1 = u_common1 u1, h_change = u_change u1,
                        h_inc_dec_count = u_inc u1\<rparr>])))
      else u)"

definition hunk_step :: "bool \<Rightarrow> bool \<Rightarrow> 'a sesElem list \<Rightarrow> 'a sesElem \<Rightarrow> 'a hunk_state \<Rightarrow> 'a hunk_state" where
  "hunk_step sw final rest e u =
     hunk_emit sw final rest
       (case etype (snd e) of
          SES_ADD \<Rightarrow> hunk_edit True final e u
        | SES_DELETE \<Rightarrow> hunk_edit False final e u
        | SES_COMMON \<Rightarrow> hunk_common sw final e u)"

fun hunk_loop :: "bool \<Rightarrow> nat \<Rightarrow> nat \<Rightarrow> 'a sesElem list \<Rightarrow> 'a hunk_state \<Rightarrow> 'a hunk_state" where
  "hunk_loop sw len l_cnt [] u = u"
| "hunk_loop sw len l_cnt (e # es) u = hunk_loop sw len (l_cnt + 1) es (hunk_step sw (l_cnt \<ge> len) (e # es) e u)"

definition composeUnifiedHunks :: "'a Diff \<Rightarrow> 'a Diff" where
  "composeUnifiedHunks d =
     d\<lparr>uniHunks := u_hunks (hunk_loop (swapped d) (length (ses_sequence (ses d))) 1 (ses_sequence (ses d))
                              (hunk_start (uniHunks d)))\<rparr>"

section \<open>Printing\<close>

definition SES_MARK :: "edit_t \<Rightarrow> string" where
  "SES_MARK t = (case t of SES_DELETE \<Rightarrow> ''-'' | SES_COMMON \<Rightarrow> '' '' | SES_ADD \<Rightarrow> ''+'')"

definition hunk_header :: "'a uniHunk \<Rightarrow> string" where
  "hunk_header h = ''@@ -'' @ show_int (h_a h) @ '','' @ show_int (h_b h) @ '' +'' @ show_int (h_c h) @ '','' @
     show_int (h_d h) @ '' @@'' @ [CHR 0x0A]"

definition commonPrinter :: "('a \<Rightarrow> string) \<Rightarrow> 'a sesElem \<Rightarrow> string" where
  "commonPrinter pr e = '' '' @ pr (fst e) @ [CHR 0x0A]"

definition changePrinter :: "('a \<Rightarrow> string) \<Rightarrow> 'a sesElem \<Rightarrow> string" where
  "changePrinter pr e = SES_MARK (etype (snd e)) @ pr (fst e) @ [CHR 0x0A]"

definition uniHunkPrinter :: "('a \<Rightarrow> string) \<Rightarrow> 'a uniHunk \<Rightarrow> string" where
  "uniHunkPrinter pr h =
     hunk_header h @ concat (map (commonPrinter pr) (h_common0 h)) @ concat (map (changePrinter pr) (h_change h)) @
     concat (map (commonPrinter pr) (h_common1 h))"

text \<open>The printer of libws_diff, which puts runs of the same kind on one line. Each \<open>for_each\<close> gets
  a copy of the functor, whose previous type is that of a common element.\<close>

fun customPrinter :: "('a \<Rightarrow> string) \<Rightarrow> edit_t \<Rightarrow> 'a sesElem list \<Rightarrow> string" where
  "customPrinter pr prevType [] = []"
| "customPrinter pr prevType (e # es) =
     (if prevType \<noteq> etype (snd e) then [CHR 0x0A] @ SES_MARK (etype (snd e)) @ pr (fst e) else pr (fst e)) @
     customPrinter pr (etype (snd e)) es"

definition customHunkPrinter :: "('a \<Rightarrow> string) \<Rightarrow> 'a uniHunk \<Rightarrow> string" where
  "customHunkPrinter pr h =
     hunk_header h @ customPrinter pr SES_COMMON (h_common0 h) @ customPrinter pr SES_COMMON (h_change h) @
     customPrinter pr SES_COMMON (h_common1 h)"

section \<open>Patching\<close>

fun uni_apply :: "'a sesElem list \<Rightarrow> 'a list \<times> 'a list \<Rightarrow> 'a list \<times> 'a list" where
  "uni_apply [] st = st"
| "uni_apply ((e, info) # es) (passed, rest) =
     (case etype info of
        SES_ADD \<Rightarrow> uni_apply es (passed @ [e], rest)
      | SES_DELETE \<Rightarrow> uni_apply es (passed, if rest \<noteq> [] then tl rest else rest)
      | SES_COMMON \<Rightarrow> uni_apply es (if rest \<noteq> [] then (passed @ [hd rest], tl rest) else (passed, rest)))"

text \<open>Moving the iterator past the end of the list is undefined: \<open>None\<close>. The loop adds what earlier
  hunks inserted to the first line of each hunk, in the hunk itself.\<close>

fun uni_loop ::
    "'a uniHunk list \<Rightarrow> int \<Rightarrow> int \<Rightarrow> 'a list \<times> 'a list \<Rightarrow> ('a uniHunk list \<times> 'a list \<times> 'a list) option" where
  "uni_loop [] inc_total gap st = Some ([], st)"
| "uni_loop (h # hs) inc_total gap (passed, rest) =
     (let shunk = joinSesVec (joinSesVec (joinSesVec [] (h_common0 h)) (h_change h)) (h_common1 h);
          a = h_a h + inc_total; n = nat (a - gap)
      in if n > length rest then None
         else map_option (\<lambda>(hs', st'). (h\<lparr>h_a := a\<rparr> # hs', st'))
                (uni_loop hs (inc_total + h_inc_dec_count h) (a + h_b h + h_inc_dec_count h)
                  (uni_apply shunk (passed @ take n rest, drop n rest))))"

definition uniPatch :: "'a Diff \<Rightarrow> 'a list \<Rightarrow> ('a list \<times> 'a Diff) option" where
  "uniPatch d seq =
     map_option (\<lambda>(hs, passed, rest). (passed @ rest, d\<lparr>uniHunks := hs\<rparr>)) (uni_loop (uniHunks d) 0 1 ([], seq))"

end
