(* ===== verification/Dtl_Unified.thy ===== *)
theory Dtl_Unified
  imports Dtl_Hunks
begin

text \<open>
  Correctness of unified hunks. An invariant of the loop of \<open>composeUnifiedHunks\<close> splits the part of the
  script it has passed into what the finished hunks cover, the common elements that left the context, the context
  and the changes gathered since. It follows that applying the hunks gives the second sequence, that their
  headers are accurate and that there are none exactly when the sequences are equal.
\<close>


section \<open>What the hunks stand for\<close>

definition all_common :: "'a sesElem list \<Rightarrow> bool" where
  "all_common es \<longleftrightarrow> (\<forall>e \<in> set es. etype (snd e) = SES_COMMON)"

lemma all_common_simps [simp]:
  "all_common []" "all_common (e # es) \<longleftrightarrow> etype (snd e) = SES_COMMON \<and> all_common es"
  "all_common (es @ fs) \<longleftrightarrow> all_common es \<and> all_common fs"
  by (auto simp: all_common_def)

lemma all_common_spelled: "all_common es \<Longrightarrow> olds es = map fst es \<and> news es = map fst es"
  by (induction es) (auto simp: olds_def news_def)

text \<open>Hunk \<open>h\<close> stands for the part \<open>S\<close> of the script after \<open>P\<close>.\<close>

definition stands_for :: "'a uniHunk \<Rightarrow> 'a sesElem list \<Rightarrow> 'a sesElem list \<Rightarrow> bool" where
  "stands_for h P S \<longleftrightarrow>
     h_a h = 1 + int (length (olds P)) \<and> h_b h = int (length (olds S)) \<and>
     h_c h = 1 + int (length (news P)) \<and> h_d h = int (length (news S)) \<and>
     h_inc_dec_count h = h_d h - h_b h \<and> h_common1 h = [] \<and>
     olds (h_common0 h @ h_change h) = olds S \<and> news (h_common0 h @ h_change h) = news S \<and> \<not> all_common S"

text \<open>The hunks cover a script: between them there are only common elements.\<close>

inductive covers :: "'a uniHunk list \<Rightarrow> 'a sesElem list \<Rightarrow> bool" where
  covers_Nil: "covers [] []"
| covers_snoc: "covers hs P \<Longrightarrow> all_common g \<Longrightarrow> stands_for h (P @ g) S \<Longrightarrow> covers (hs @ [h]) (P @ g @ S)"

text \<open>The elements after the context are in \<open>change\<close>, \<open>deletes\<close> and \<open>adds\<close>.\<close>

definition gathered :: "'a sesElem list \<Rightarrow> 'a hunk_state \<Rightarrow> bool" where
  "gathered S u \<longleftrightarrow>
     olds S = olds (u_change u) @ olds (u_deletes u) \<and> news S = news (u_change u) @ news (u_adds u) \<and>
     (\<forall>e \<in> set (u_deletes u). etype (snd e) = SES_DELETE) \<and> (\<forall>e \<in> set (u_adds u). etype (snd e) = SES_ADD) \<and>
     (S = [] \<longleftrightarrow> u_change u = [] \<and> u_deletes u = [] \<and> u_adds u = []) \<and>
     (u_isMiddle u \<longleftrightarrow> S \<noteq> []) \<and> (S \<noteq> [] \<longrightarrow> \<not> all_common S)"

definition placed :: "bool \<Rightarrow> 'a sesElem list \<Rightarrow> 'a sesElem list \<Rightarrow> 'a sesElem list \<Rightarrow> 'a hunk_state \<Rightarrow> bool" where
  "placed sw P g S u \<longleftrightarrow>
     covers (u_hunks u) P \<and> all_common g \<and> all_common (u_common0 u) \<and> u_common1 u = [] \<and>
     int (length (u_common0 u)) \<le> DTL_CONTEXT_SIZE \<and>
     u_b u = int (length (olds (u_common0 u @ S))) \<and> u_d u = int (length (news (u_common0 u @ S))) \<and>
     u_inc u = u_d u - u_b u \<and>
     (if u_common0 u = [] then u_a u = 0 \<and> u_c u = 0 \<and> g = [] \<and> (S \<noteq> [] \<longrightarrow> P = [])
      else (if sw then u_c u else u_a u) = 1 + int (length (olds (P @ g))) \<and>
           (if sw then u_a u else u_c u) = 1 + int (length (news (P @ g))))"

lemmas hunk_defs = gathered_def placed_def joinSesVec_def DTL_CONTEXT_SIZE_def DTL_SEPARATE_SIZE_def Let_def

lemma edit_gathered:
  assumes "gathered S u" and "etype (snd e) = (if isAdd then SES_ADD else SES_DELETE)"
  shows "gathered (S @ [e]) (hunk_edit isAdd False e u)"
  using assms by (auto simp: hunk_edit_def hunk_defs)

lemma edit_placed:
  assumes "placed sw P g S u" and "etype (snd e) = (if isAdd then SES_ADD else SES_DELETE)"
    and "u_common0 u = [] \<longrightarrow> P = []"
  shows "placed sw P g (S @ [e]) (hunk_edit isAdd False e u)"
  using assms by (auto simp: hunk_edit_def hunk_defs)

lemma edit_final:
  "hunk_edit isAdd True e u =
     (let u' = hunk_edit isAdd False e u
      in u'\<lparr>u_change := u_change u' @ u_deletes u' @ u_adds u', u_isAfter := True\<rparr>)"
  by (auto simp: hunk_edit_def hunk_defs)

lemma common_context:
  assumes "gathered [] u" and p: "placed sw P g [] u" and "etype (snd e) = SES_COMMON" and "\<not> u_isAfter u"
    and idx: "beforeIdx (snd e) = int (length (olds (P @ g @ u_common0 u))) + 1"
      "afterIdx (snd e) = int (length (news (P @ g @ u_common0 u))) + 1"
  shows "\<exists>g'. gathered [] (hunk_common sw final e u) \<and> placed sw P g' [] (hunk_common sw final e u) \<and>
    \<not> u_isAfter (hunk_common sw final e u) \<and> u_common0 (hunk_common sw final e u) \<noteq> [] \<and>
    g @ u_common0 u @ [e] = g' @ u_common0 (hunk_common sw final e u)"
proof (cases "int (length (u_common0 u)) < DTL_CONTEXT_SIZE")
  case True
  show ?thesis
  proof (cases "u_common0 u = []")
    case nil: True
    then show ?thesis
      using True assms by (intro exI [of _ g]; cases sw) (auto simp: hunk_common_def hunk_context_def hunk_defs)
  next
    case False
    then have "\<not> (u_a u = 0 \<and> u_c u = 0)" using p by (cases sw) (auto simp: placed_def)
    with False show ?thesis
      using True assms by (intro exI [of _ g]; cases sw) (auto simp: hunk_common_def hunk_context_def hunk_defs)
  qed
next
  case False
  then obtain c cs where c: "u_common0 u = c # cs" by (cases "u_common0 u") (auto simp: hunk_defs)
  then show ?thesis
    using False assms all_common_spelled [of "c # cs"] all_common_spelled [of cs]
    by (intro exI [of _ "g @ [c]"]) (auto simp: hunk_common_def hunk_context_def hunk_defs butlast_append)
qed

lemma common_in_change:
  assumes "gathered S u" and "S \<noteq> []" and "\<not> u_isAfter u"
  shows "hunk_common sw final e u =
    u\<lparr>u_b := u_b u + 1, u_d := u_d u + 1, u_middle := u_middle u + 1,
      u_change := u_change u @ u_deletes u @ u_adds u @ [e],
      u_isAfter := (u_middle u + 1 \<ge> DTL_SEPARATE_SIZE \<or> final), u_adds := [], u_deletes := []\<rparr>"
proof -
  have "\<not> (u_adds u = [] \<and> u_deletes u = [] \<and> u_change u = [])" "u_isMiddle u" using assms by (auto simp: gathered_def)
  then show ?thesis using assms(3) by (auto simp: hunk_common_def joinSesVec_def Let_def)
qed

lemma common_change:
  assumes "gathered S u" and "placed sw P g S u" and "S \<noteq> []" and "etype (snd e) = SES_COMMON" and "\<not> u_isAfter u"
  shows "gathered (S @ [e]) (hunk_common sw final e u)" "placed sw P g (S @ [e]) (hunk_common sw final e u)"
    "u_deletes (hunk_common sw final e u) = []" "u_adds (hunk_common sw final e u) = []"
    "u_change (hunk_common sw final e u) \<noteq> []"
    "u_common0 (hunk_common sw final e u) = u_common0 u"
    "final \<longrightarrow> u_isAfter (hunk_common sw final e u)"
proof -
  note eq = common_in_change [OF assms(1,3,5), of sw final e]
  have z: "news (u_deletes u) = []" "olds (u_adds u) = []"
    using assms(1) olds_news_const [of "u_adds u"] olds_news_const [of "u_deletes u"] by (auto simp: gathered_def)
  show "gathered (S @ [e]) (hunk_common sw final e u)"
    using assms(1,3,4) z unfolding eq by (auto simp: gathered_def)
  show "placed sw P g (S @ [e]) (hunk_common sw final e u)"
    using assms(2-4) unfolding eq by (auto simp: placed_def)
qed (simp_all add: common_in_change [OF assms(1,3,5)])

text \<open>Emitting a hunk: everything gathered is in \<open>change\<close>.\<close>

lemma emit_covers:
  assumes "placed sw P g S u" and "olds (u_change u) = olds S" "news (u_change u) = news S" "\<not> all_common S"
    and "u_isAfter u" "u_change u \<noteq> []"
    and "final \<or> int (length (filter (\<lambda>e. etype (snd e) = SES_COMMON) (take 3 rest))) \<ge> 3"
  shows "\<exists>hs. hunk_emit sw final rest u = hunk_start hs \<and> covers hs (P @ g @ u_common0 u @ S)"
proof -
  define h where "h = \<lparr>h_a = (if sw then (if u_c u = 0 then 1 else u_c u) else (if u_a u = 0 then 1 else u_a u)), h_b = u_b u,
     h_c = (if sw then (if u_a u = 0 then 1 else u_a u) else (if u_c u = 0 then 1 else u_c u)), h_d = u_d u,
     h_common0 = u_common0 u, h_common1 = u_common1 u, h_change = u_change u, h_inc_dec_count = u_inc u\<rparr>"
  have "length (u_common0 u) \<le> 3" using assms(1) by (simp add: placed_def DTL_CONTEXT_SIZE_def)
  then have "hunk_emit sw final rest u = hunk_start (u_hunks u @ [h])"
    using assms(5-7) by (auto simp: hunk_emit_def h_def DTL_SEPARATE_SIZE_def Let_def)
  moreover have "S \<noteq> []" using assms(4) by auto
  then have "stands_for h (P @ g) (u_common0 u @ S)"
    using assms(1-4) by (cases sw; cases "u_common0 u = []") (auto simp: stands_for_def h_def placed_def)
  then have "covers (u_hunks u @ [h]) (P @ g @ u_common0 u @ S)"
    using covers_snoc assms(1) by (auto simp: placed_def)
  ultimately show ?thesis by blast
qed


definition hunk_inv :: "bool \<Rightarrow> 'a sesElem list \<Rightarrow> 'a sesElem list \<Rightarrow> 'a hunk_state \<Rightarrow> bool" where
  "hunk_inv sw Q R u \<longleftrightarrow>
     (\<exists>P g S. Q = P @ g @ u_common0 u @ S \<and> gathered S u \<and> placed sw P g S u \<and> \<not> u_isAfter u \<and>
        (R = [] \<longrightarrow> S = []) \<and>
        (u_common0 u = [] \<and> S = [] \<and> P \<noteq> [] \<and> R \<noteq> [] \<longrightarrow> etype (snd (hd R)) = SES_COMMON))"

lemma hunk_invI:
  assumes "Q = P @ g @ u_common0 u @ S" and "gathered S u" and "placed sw P g S u" and "\<not> u_isAfter u"
    and "R = [] \<Longrightarrow> S = []"
    and "u_common0 u = [] \<Longrightarrow> S = [] \<Longrightarrow> P \<noteq> [] \<Longrightarrow> R \<noteq> [] \<Longrightarrow> etype (snd (hd R)) = SES_COMMON"
  shows "hunk_inv sw Q R u"
  unfolding hunk_inv_def using assms by blast

lemma placed_update [simp]:
  "placed sw P g S (u\<lparr>u_change := ch, u_isAfter := af\<rparr>) \<longleftrightarrow> placed sw P g S u"
  "placed sw P g S (u\<lparr>u_middle := m, u_isAfter := af\<rparr>) \<longleftrightarrow> placed sw P g S u"
  "gathered S (u\<lparr>u_middle := m, u_isAfter := af\<rparr>) \<longleftrightarrow> gathered S u"
  by (simp_all add: placed_def gathered_def)

lemma hunk_inv_start:
  "covers hs Q \<Longrightarrow> Q = [] \<or> R = [] \<or> etype (snd (hd R)) = SES_COMMON \<Longrightarrow> hunk_inv sw Q R (hunk_start hs)"
  by (rule hunk_invI [where P = Q and g = "[]" and S = "[]"])
     (auto simp: hunk_start_def gathered_def placed_def DTL_CONTEXT_SIZE_def)

lemma hunk_emit_idle: "\<not> u_isAfter u \<Longrightarrow> hunk_emit sw final rest u = u"
  by (simp add: hunk_emit_def)

text \<open>A hunk is only emitted before the end of the script when the next element is common.\<close>

lemma emit_lookahead:
  "3 \<le> int (length (filter P (take 3 (e # R)))) \<Longrightarrow> R \<noteq> [] \<and> P (hd R)"
  using length_filter_le [of P "take 1 (tl R)"] by (cases R) (auto split: if_splits)

lemma emit_step:
  assumes "placed sw P g S u" and "gathered S u" and "u_deletes u = []" "u_adds u = []" and "S \<noteq> []" and "u_isAfter u"
  shows "hunk_inv sw (P @ g @ u_common0 u @ S) R (hunk_emit sw (R = []) (e # R) u)"
proof (cases "R = [] \<or> int (length (filter (\<lambda>e. etype (snd e) = SES_COMMON) (take 3 (e # R)))) \<ge> 3")
  case True
  then obtain hs where "hunk_emit sw (R = []) (e # R) u = hunk_start hs" "covers hs (P @ g @ u_common0 u @ S)"
    using emit_covers [OF assms(1), of "R = []" "e # R"] assms(2-6) by (auto simp: gathered_def)
  moreover have "R = [] \<or> etype (snd (hd R)) = SES_COMMON" using True emit_lookahead [of "\<lambda>e. etype (snd e) = SES_COMMON" e R] by blast
  ultimately show ?thesis using hunk_inv_start by metis
next
  case False
  then have "hunk_emit sw (R = []) (e # R) u = u\<lparr>u_middle := 0, u_isAfter := False\<rparr>"
    using assms by (auto simp: hunk_emit_def gathered_def DTL_SEPARATE_SIZE_def Let_def)
  then show ?thesis using False assms(1,2,5) by (intro hunk_invI [where P = P and g = g and S = S]) auto
qed

lemma hunk_step_common:
  assumes inv: "hunk_inv sw Q (e # R) u" and e: "etype (snd e) = SES_COMMON"
    and idx: "beforeIdx (snd e) = int (length (olds Q)) + 1" "afterIdx (snd e) = int (length (news Q)) + 1"
  shows "hunk_inv sw (Q @ [e]) R (hunk_step sw (R = []) (e # R) e u)"
proof -
  obtain P g S where i: "Q = P @ g @ u_common0 u @ S" "gathered S u" "placed sw P g S u" "\<not> u_isAfter u"
    using inv by (auto simp: hunk_inv_def)
  let ?u = "hunk_common sw (R = []) e u"
  have step: "hunk_step sw (R = []) (e # R) e u = hunk_emit sw (R = []) (e # R) ?u" using e by (simp add: hunk_step_def)
  show ?thesis
  proof (cases "S = []")
    case True
    then obtain g' where "gathered [] ?u" "placed sw P g' [] ?u" "\<not> u_isAfter ?u" "u_common0 ?u \<noteq> []"
        "g @ u_common0 u @ [e] = g' @ u_common0 ?u"
      using common_context [of u sw P g e "R = []"] i e idx by auto
    then show ?thesis
      unfolding step using True i(1)
      by (intro hunk_invI [where P = P and g = g' and S = "[]"]) (simp_all add: hunk_emit_idle)
  next
    case False
    note c = common_change [OF i(2,3) False e i(4), of "R = []"]
    show ?thesis
    proof (cases "u_isAfter ?u")
      case True
      then show ?thesis using emit_step [OF c(2,1,3,4) _ True, of R e] i(1) c(6) unfolding step by simp
    next
      case after: False
      then show ?thesis
        unfolding step using c i(1) False
        by (intro hunk_invI [where P = P and g = g and S = "S @ [e]"]) (simp_all add: hunk_emit_idle)
    qed
  qed
qed

lemma hunk_step_edit:
  assumes inv: "hunk_inv sw Q (e # R) u" and e: "etype (snd e) = (if isAdd then SES_ADD else SES_DELETE)"
  shows "hunk_inv sw (Q @ [e]) R (hunk_step sw (R = []) (e # R) e u)"
proof -
  obtain P g S where i: "Q = P @ g @ u_common0 u @ S" "gathered S u" "placed sw P g S u" "\<not> u_isAfter u"
      "u_common0 u = [] \<and> S = [] \<and> P \<noteq> [] \<longrightarrow> etype (snd e) = SES_COMMON"
    using inv by (auto simp: hunk_inv_def)
  have P: "u_common0 u = [] \<longrightarrow> P = []" using i(3,5) e by (auto simp: placed_def split: if_splits)
  let ?u = "hunk_edit isAdd False e u"
  note g = edit_gathered [OF i(2) e] and p = edit_placed [OF i(3) e P]
  have u: "\<not> u_isAfter ?u" "u_common0 ?u = u_common0 u" using i(4) by (auto simp: hunk_edit_def Let_def)
  have step: "hunk_step sw (R = []) (e # R) e u = hunk_emit sw (R = []) (e # R) (hunk_edit isAdd (R = []) e u)"
    using e by (cases isAdd) (simp_all add: hunk_step_def)
  show ?thesis
  proof (cases "R = []")
    case False
    then show ?thesis
      unfolding step using g p u i(1)
      by (intro hunk_invI [where P = P and g = g and S = "S @ [e]"]) (simp_all add: hunk_emit_idle)
  next
    case True
    let ?v = "hunk_edit isAdd True e u"
    have v: "?v = ?u\<lparr>u_change := u_change ?u @ u_deletes ?u @ u_adds ?u, u_isAfter := True\<rparr>"
      by (simp add: edit_final Let_def)
    have z: "news (u_deletes ?u) = []" "olds (u_adds ?u) = []"
      using g olds_news_const [of "u_adds ?u"] olds_news_const [of "u_deletes ?u"] by (auto simp: gathered_def)
    have pv: "placed sw P g (S @ [e]) ?v" using p by (simp add: v)
    obtain hs where "hunk_emit sw True (e # R) ?v = hunk_start hs" "covers hs (P @ g @ u_common0 ?v @ S @ [e])"
      using emit_covers [OF pv, of True "e # R"] g z by (auto simp: v gathered_def)
    then show ?thesis using True i(1) u hunk_inv_start [of hs "Q @ [e]" R sw] unfolding step by (simp add: v)
  qed
qed

lemma hunk_loop_inv:
  assumes "hunk_inv sw Q R u" and "indexed (Q @ R)"
  shows "hunk_inv sw (Q @ R) [] (hunk_loop sw (length Q + length R) (length Q + 1) R u)"
  using assms
proof (induction R arbitrary: Q u)
  case (Cons e R)
  have "indexed ((Q @ [e]) @ R)" using Cons.prems(2) by simp
  moreover have "beforeIdx (snd e) = int (length (olds Q)) + 1 \<and> afterIdx (snd e) = int (length (news Q)) + 1"
    if "etype (snd e) = SES_COMMON"
    using Cons.prems(2) that unfolding indexed_def by (force dest: spec [of _ "length Q"])
  then have "hunk_inv sw (Q @ [e]) R (hunk_step sw (R = []) (e # R) e u)"
    using hunk_step_common [OF Cons.prems(1)] hunk_step_edit [OF Cons.prems(1), of True]
      hunk_step_edit [OF Cons.prems(1), of False]
    by (cases "etype (snd e)") auto
  moreover have "length Q + 1 \<ge> length Q + length (e # R) \<longleftrightarrow> R = []" by (cases R) auto
  ultimately show ?case using Cons.IH [of "Q @ [e]"] by simp
qed simp

lemma hunk_inv_covers:
  "hunk_inv sw es [] u \<Longrightarrow> \<exists>P g. es = P @ g \<and> covers (u_hunks u) P \<and> all_common g"
proof -
  assume "hunk_inv sw es [] u"
  then obtain P g where "es = P @ g @ u_common0 u" "placed sw P g [] u" by (auto simp: hunk_inv_def)
  then show ?thesis by (intro exI [of _ P] exI [of _ "g @ u_common0 u"]) (simp add: placed_def)
qed

lemma composeUnifiedHunks_covers:
  assumes "indexed (ses_sequence (ses d))" and "uniHunks d = []"
  shows "\<exists>P g. ses_sequence (ses d) = P @ g \<and> covers (uniHunks (composeUnifiedHunks d)) P \<and> all_common g"
  using hunk_inv_covers [OF hunk_loop_inv [OF hunk_inv_start [OF covers_Nil], of "ses_sequence (ses d)" "swapped d"]] assms
  by (simp add: composeUnifiedHunks_def)


section \<open>Patching with the hunks\<close>

inductive covered :: "'a sesElem list \<Rightarrow> 'a uniHunk list \<Rightarrow> 'a sesElem list \<Rightarrow> bool" where
  covered_Nil: "covered P [] []"
| covered_Cons: "all_common g \<Longrightarrow> stands_for h (P @ g) S \<Longrightarrow> covered (P @ g @ S) hs Q \<Longrightarrow> covered P (h # hs) (g @ S @ Q)"

lemma covered_snoc:
  "covered P hs Q \<Longrightarrow> all_common g \<Longrightarrow> stands_for h (P @ Q @ g) S \<Longrightarrow> covered P (hs @ [h]) (Q @ g @ S)"
proof (induction rule: covered.induct)
  case (covered_Nil P)
  then show ?case using covered_Cons [of g h P S "[]" "[]"] by (simp add: covered.covered_Nil)
next
  case (covered_Cons g' h' P S' hs Q)
  then show ?case using covered.covered_Cons [of g' h' P S' "hs @ [h]" "Q @ g @ S"] by simp
qed

lemma covers_covered: "covers hs P \<Longrightarrow> covered [] hs P"
  by (induction rule: covers.induct) (auto intro: covered_Nil covered_snoc)

lemma joinSesVec_append: "joinSesVec s1 s2 = s1 @ s2"
  by (simp add: joinSesVec_def)

lemma uni_apply_script: "uni_apply es (passed, olds es @ rest) = (passed @ news es, rest)"
proof (induction es arbitrary: passed)
  case (Cons e es)
  then show ?case by (cases e; cases "etype (snd e)") (auto simp: olds_def news_def)
qed simp

lemma uni_loop_covered:
  "covered P hs Q \<Longrightarrow>
     \<exists>hs'. uni_loop hs (int (length (news P)) - int (length (olds P))) (1 + int (length (news P))) (passed, olds Q @ rest) =
       Some (hs', passed @ news Q, rest)"
proof (induction arbitrary: passed rule: covered.induct)
  case (covered_Cons g h P S hs Q)
  let ?shunk = "h_common0 h @ h_change h"
  have h: "olds ?shunk = olds S" "news ?shunk = news S" "h_common1 h = []"
      "h_a h = 1 + int (length (olds P)) + int (length g)" "h_b h = int (length (olds S))"
      "h_inc_dec_count h = int (length (news S)) - int (length (olds S))"
    using covered_Cons.hyps(1,2) all_common_spelled [of g] by (auto simp: stands_for_def)
  have g: "olds g = map fst g" "news g = map fst g" using all_common_spelled [OF covered_Cons.hyps(1)] by auto
  have "uni_apply ?shunk (passed @ map fst g, olds S @ olds Q @ rest) = ((passed @ map fst g) @ news S, olds Q @ rest)"
    using uni_apply_script [of ?shunk "passed @ map fst g" "olds Q @ rest"] unfolding h(1,2) .
  moreover have n: "h_a h + (int (length (news P)) - int (length (olds P))) - (1 + int (length (news P))) = int (length g)"
    and T: "int (length (news P)) - int (length (olds P)) + h_inc_dec_count h =
      int (length (news (P @ g @ S))) - int (length (olds (P @ g @ S)))"
    and G: "h_a h + (int (length (news P)) - int (length (olds P))) + h_b h + h_inc_dec_count h =
      1 + int (length (news (P @ g @ S)))"
    using h g by simp_all
  ultimately show ?case
    using covered_Cons.IH [of "passed @ map fst g @ news S"] g h(3)
    unfolding uni_loop.simps Let_def joinSesVec_append n T G by auto
qed simp

section \<open>Equal sequences\<close>

lemma slide_equal: "x \<le> length A \<Longrightarrow> slide A A (int x) (int x) = (int (length A), int (length A))"
proof (induction "length A - x" arbitrary: x)
  case 0
  then show ?case by (subst slide.simps) simp
next
  case (Suc n)
  then have "slide A A (int (Suc x)) (int (Suc x)) = (int (length A), int (length A))"
    using Suc.hyps(1) [of "Suc x"] by linarith
  with Suc show ?case by (subst slide.simps) (simp add: add.commute)
qed

lemma onp_round_equal:
  assumes "fresh A A d"
  shows "front (onp_round 0 d) 0 = int (length A)" "pathCordinates (onp_round 0 d) = [(int (length A), int (length A), -1)]"
    "arr_get (epath (onp_round 0 d)) (offs (onp_round 0 d)) 0 = 0"
  using assms slide_equal [of 0 A]
  by (auto simp: onp_round_def fresh_def shape_def fp_step_def snake_def front_def arr_get_def arr_set_def Let_def
      nat_add_distrib split: prod.splits)

lemma record_diagonal:
  assumes "vx - px = vy - py" and "record_to (vx, vy) (px, py, d) = (qx, qy, d')"
    and "all_common (ses_sequence (ses d))" and "\<not> deletesFirst (ses d)"
  shows "all_common (ses_sequence (ses d'))"
  using assms
proof (induction "(vx, vy)" "(px, py, d)" arbitrary: px py d rule: record_to.induct)
  case (1 px py d)
  show ?case
  proof (cases "px < vx \<or> py < vy")
    case True
    let ?d = "add_common px py d"
    have "record_to (vx, vy) (px + 1, py + 1, ?d) = (qx, qy, d')"
      using "1.prems"(1,2) True by (subst (asm) record_to.simps) (simp split: if_splits)
    moreover have "all_common (ses_sequence (ses ?d))" "\<not> deletesFirst (ses ?d)"
      using "1.prems"(3,4) by (auto simp: add_common_def)
    ultimately show ?thesis using "1.hyps"(3) True "1.prems"(1) by simp
  next
    case False
    then show ?thesis using "1.prems"(2,3) by (subst (asm) record_to.simps) simp
  qed
qed


lemma same_but_script_sel: "same_but_script d d' \<Longrightarrow> dM d' = dM d \<and> dN d' = dN d"
  unfolding same_but_script_def by (cases d; cases d') auto

lemma compose_equal:
  assumes "compose (onUnserious (Diff_new a a)) = Some d"
  shows "all_common (ses_sequence (ses d))"
proof -
  let ?n = "int (length a)" and ?d = "onUnserious (Diff_new a a)"
  let ?start = "?d\<lparr>fp := replicate (dM ?d + dN ?d + 3) (-1), epath := replicate (dM ?d + dN ?d + 3) (-1)\<rparr>"
  have f: "fresh a a ?start" by (auto simp: fresh_def shape_def onUnserious_def Diff_new_def Ses_new_def Let_def)
  let ?r = "onp_round 0 ?start"
  note r = onp_round_equal [OF f] and s = onp_round_search [OF fresh_searching [OF f]]
  have sh: "dM ?r = length a" "dN ?r = length a" "delta ?r = 0" "\<not> editDistanceOnly ?r"
    using s by (auto simp: search_inv_def shape_def)
  have loop: "onp_loop (-1) ?start = Some (0, ?r)"
    using r(1) sh by (subst onp_loop.simps) (simp add: front_def Let_def)
  have path: "follow_path (pathCordinates ?r) 0 [] = Some [(?n, ?n)]"
    using r(2) by (simp add: follow_path.simps)
  let ?e = "?r\<lparr>editDistance := editDistance ?r\<rparr>"
  obtain px py d1 where rec: "record_to (?n, ?n) (0, 0, ?e) = (px, py, d1)" by (cases "record_to (?n, ?n) (0, 0, ?e)")
  have "recorded a a (0, 0, ?e)"
    using f s untouched_sel [of ?start ?r]
    by (auto simp: fresh_def search_inv_def shape_def recorded_def side_A_def side_B_def)
  moreover have "diag_run a a (0, 0) (?n, ?n)" using slide_run [of a a 0 0] slide_equal [of 0 a] by simp
  ultimately obtain d' where "record_to (?n, ?n) (0, 0, ?e) = (?n, ?n, d')" "same_but_script ?e d'"
    using record_run [of a a 0 0 "(?n, ?n)" ?e] by auto
  then have p: "px = ?n" "py = ?n" "dM d1 = length a" "dN d1 = length a"
    using rec sh same_but_script_sel [of ?e d'] by simp_all
  have "all_common (ses_sequence (ses d1))"
    using record_diagonal [OF _ rec] f s untouched_sel [of ?start ?r] by (auto simp: fresh_def)
  moreover have "compose ?d = Some (d1\<lparr>fp := []\<rparr>)"
    unfolding compose_def
    using loop path rec r(3) sh p by (subst compose_loop.simps) (simp add: recordSequence_def Let_def)
  ultimately show ?thesis using assms by simp
qed


section \<open>The library as a whole\<close>

lemma covers_Nil_iff: "covers [] P \<longleftrightarrow> P = []"
  by (auto elim: covers.cases intro: covers_Nil)

lemma covers_change: "covers hs P \<Longrightarrow> hs \<noteq> [] \<Longrightarrow> \<not> all_common P"
  by (induction rule: covers.induct) (auto simp: stands_for_def)

lemma covers_member: "covers hs P \<Longrightarrow> h \<in> set hs \<Longrightarrow> \<exists>P' S R. P = P' @ S @ R \<and> stands_for h P' S"
proof (induction rule: covers.induct)
  case (covers_snoc hs P g h' S)
  show ?case
  proof (cases "h = h'")
    case True
    with covers_snoc.hyps(3) show ?thesis by (intro exI [of _ "P @ g"] exI [of _ S] exI [of _ "[]"]) simp
  next
    case False
    with covers_snoc obtain P' S' R where "P = P' @ S' @ R" "stands_for h P' S'" by auto
    then show ?thesis by (intro exI [of _ P'] exI [of _ S'] exI [of _ "R @ g @ S"]) simp
  qed
qed simp

lemma compose_hunks:
  obtains d P g where "compose (onUnserious (Diff_new a b)) = Some d" "olds (P @ g) = a" "news (P @ g) = b"
    "ses_sequence (ses d) = P @ g" "covers (uniHunks (composeUnifiedHunks d)) P" "all_common g"
proof -
  obtain d where d: "compose (onUnserious (Diff_new a b)) = Some d" "olds (ses_sequence (ses d)) = a"
      "news (ses_sequence (ses d)) = b" "indexed (ses_sequence (ses d))" "uniHunks d = []"
    using compose_script by blast
  then show thesis using that composeUnifiedHunks_covers [OF d(4,5)] by metis
qed

lemma hunks_empty_iff:
  "\<exists>d. compose (onUnserious (Diff_new a b)) = Some d \<and> (uniHunks (composeUnifiedHunks d) = [] \<longleftrightarrow> a = b)"
proof -
  obtain d P g where d: "compose (onUnserious (Diff_new a b)) = Some d" "olds (P @ g) = a" "news (P @ g) = b"
    "ses_sequence (ses d) = P @ g" "covers (uniHunks (composeUnifiedHunks d)) P" "all_common g"
    by (rule compose_hunks)
  have "a = b" if "uniHunks (composeUnifiedHunks d) = []"
    using d that all_common_spelled [of g] by (auto simp: covers_Nil_iff)
  moreover have "uniHunks (composeUnifiedHunks d) = []" if "a = b"
    using d that compose_equal [of a d] covers_change [OF d(5)] by auto
  ultimately show ?thesis using d(1) by auto
qed


text \<open>Every unified hunk is accurate: the header \<open>@@ -a,b +c,d @@\<close> names exactly the lines of
  the first and of the second sequence that the body of the hunk shows, and the body shows a change.\<close>

theorem dtl_hunks_accurate:
  assumes "compose (onUnserious (Diff_new a b)) = Some d" and "h \<in> set (uniHunks (composeUnifiedHunks d))"
  shows "1 \<le> h_a h \<and> 1 \<le> h_c h \<and> 0 \<le> h_b h \<and> 0 \<le> h_d h \<and>
    take (nat (h_b h)) (drop (nat (h_a h - 1)) a) = olds (h_common0 h @ h_change h @ h_common1 h) \<and>
    take (nat (h_d h)) (drop (nat (h_c h - 1)) b) = news (h_common0 h @ h_change h @ h_common1 h) \<and>
    length (olds (h_common0 h @ h_change h @ h_common1 h)) = nat (h_b h) \<and>
    length (news (h_common0 h @ h_change h @ h_common1 h)) = nat (h_d h)"
proof -
  obtain P g where d: "olds (P @ g) = a" "news (P @ g) = b" "covers (uniHunks (composeUnifiedHunks d)) P"
    using compose_hunks [of a b] assms(1) by (metis option.inject)
  then obtain P' S R where "P = P' @ S @ R" "stands_for h P' S" using covers_member assms(2) by blast
  then show ?thesis using d(1,2) by (auto simp: stands_for_def)
qed

theorem dtl_hunks_accurate_witness:
  "(let d = the (compose (onUnserious (Diff_new ''axc'' ''ayc''))); h = hd (uniHunks (composeUnifiedHunks d))
    in compose (onUnserious (Diff_new ''axc'' ''ayc'')) = Some d \<and> h \<in> set (uniHunks (composeUnifiedHunks d)) \<and>
       h_a h = 1 \<and> h_b h = 3 \<and> take (nat (h_b h)) (drop (nat (h_a h - 1)) ''axc'') = olds (h_common0 h @ h_change h @ h_common1 h))"
proof -
  let ?d = "the (compose (onUnserious (Diff_new ''axc'' ''ayc'')))"
  let ?h = "hd (uniHunks (composeUnifiedHunks ?d))"
  have c: "compose (onUnserious (Diff_new ''axc'' ''ayc'')) = Some ?d" by code_simp
  have h: "?h \<in> set (uniHunks (composeUnifiedHunks ?d))" by code_simp
  have "h_a ?h = 1 \<and> h_b ?h = 3" by code_simp
  with c h dtl_hunks_accurate [OF c h] show ?thesis by simp
qed


text \<open>\<open>uniPatch\<close> may be called once only: it adds the shifts to the first lines kept in the object, so a
  second call on the same object and the same sequence can leave the sequence, here because the lines of the
  second hunk are counted twice.\<close>

theorem uniPatch_not_repeatable:
  "let a = ''abcdefghijklmn''; b = ''XXabcdefghijklmY'' in
   \<exists>d d'. compose (onUnserious (Diff_new a b)) = Some d \<and> uniPatch (composeUnifiedHunks d) a = Some (b, d') \<and>
     (\<forall>r. uniPatch d' a \<noteq> Some (b, r))"
proof -
  let ?a = "''abcdefghijklmn''" and ?b = "''XXabcdefghijklmY''"
  let ?d = "the (compose (onUnserious (Diff_new ?a ?b)))"
  let ?e = "snd (the (uniPatch (composeUnifiedHunks ?d) ?a))"
  have "compose (onUnserious (Diff_new ?a ?b)) = Some ?d" by code_simp
  moreover have "uniPatch (composeUnifiedHunks ?d) ?a = Some (?b, ?e)" by code_simp
  moreover have "map_option fst (uniPatch ?e ?a) \<noteq> Some ?b" by code_simp
  then have "\<forall>r. uniPatch ?e ?a \<noteq> Some (?b, r)" by auto
  ultimately show ?thesis unfolding Let_def by blast
qed

end
