(* ===== verification/Dtl_Shortest.thy ===== *)
theory Dtl_Shortest
  imports Dtl_Unified "HOL-Library.Sublist"
begin

text \<open>
  What the name of the vendored library promises: the script \<open>Diff::compose\<close> records is a shortest edit
  script and the sequence it collects is a longest common subsequence, as long as the search stays below its
  limit of points. The proof follows the idea of the O(NP) algorithm: the cost of a point is the number of
  elements of the shorter sequence left out on the way, and after round \<open>p\<close> the front of every diagonal is at
  least as far as any point of cost \<open>p\<close> (less beyond \<open>delta\<close>) on it, while the recorded way to the
  front costs no more.
\<close>

section \<open>How much the search records\<close>

lemma fp_step_count:
  "\<not> editDistanceOnly d \<Longrightarrow>
     length (pathCordinates (fp_step k d)) = Suc (length (pathCordinates d)) \<and> \<not> editDistanceOnly (fp_step k d)"
  by (simp add: fp_step_def snake_def Let_def split: prod.splits)

lemma fold_count:
  "\<not> editDistanceOnly d \<Longrightarrow>
     length (pathCordinates (fold fp_step ks d)) = length ks + length (pathCordinates d) \<and>
     \<not> editDistanceOnly (fold fp_step ks d)"
  by (induction ks arbitrary: d) (simp_all add: fp_step_count)

lemma fp_step_delta: "delta (fp_step k d) = delta d"
  by (simp add: fp_step_def snake_def Let_def split: prod.splits)

lemma onp_round_count:
  assumes "\<not> editDistanceOnly d" and "0 \<le> p"
  shows "int (length (pathCordinates (onp_round p d))) = int (length (pathCordinates d)) + int (delta d) + 2 * p + 1"
  using assms fold_count [of d "[- p..int (delta d) - 1]"]
    fold_count [of "fold fp_step [- p..int (delta d) - 1] d" "rev [int (delta d) + 1..int (delta d) + p]"]
  by (simp add: onp_round_def Let_def fp_step_count)

text \<open>After the rounds up to \<open>p\<close> there are \<open>(p + 1) (delta + p + 1)\<close> points. The loop stops at the end of the
  longer sequence or at the limit of points.\<close>

definition recorded_points :: "int \<Rightarrow> 'a Diff \<Rightarrow> bool" where
  "recorded_points p d \<longleftrightarrow> int (length (pathCordinates d)) = (p + 1) * (int (delta d) + p + 1)"

section \<open>Points of the edit graph and their cost\<close>

inductive reach :: "'a list \<Rightarrow> 'a list \<Rightarrow> int \<Rightarrow> int \<Rightarrow> int \<Rightarrow> bool" for A B where
  reach_start: "reach A B 0 0 0"
| reach_common: "reach A B v x y \<Longrightarrow> x < int (length A) \<Longrightarrow> y < int (length B) \<Longrightarrow> A ! nat x = B ! nat y \<Longrightarrow>
    reach A B v (x + 1) (y + 1)"
| reach_insert: "reach A B v x y \<Longrightarrow> y < int (length B) \<Longrightarrow> reach A B v x (y + 1)"
| reach_delete: "reach A B v x y \<Longrightarrow> x < int (length A) \<Longrightarrow> reach A B (v + 1) (x + 1) y"

lemma reach_bounds: "reach A B v x y \<Longrightarrow> 0 \<le> v \<and> 0 \<le> x \<and> 0 \<le> y \<and> x - y \<le> v \<and> x \<le> int (length A) \<and> y \<le> int (length B)"
  by (induction rule: reach.induct) auto

text \<open>A snake ends where the next elements differ.\<close>

lemma slide_stuck:
  "slide A B x y = (x', y') \<Longrightarrow> 0 \<le> x \<Longrightarrow> 0 \<le> y \<Longrightarrow> x' < int (length A) \<Longrightarrow> y' < int (length B) \<Longrightarrow>
     A ! nat x' \<noteq> B ! nat y'"
proof (induction A B x y rule: slide.induct)
  case (1 A B x y)
  show ?case
  proof (cases "0 \<le> x \<and> x < int (length A) \<and> 0 \<le> y \<and> y < int (length B) \<and> A ! nat x = B ! nat y")
    case True
    then have "slide A B (x + 1) (y + 1) = (x', y')" using "1.prems"(1) by (subst (asm) slide.simps) simp
    with 1 True show ?thesis by simp
  next
    case False
    then have "x' = x" "y' = y" using "1.prems"(1) by (subst (asm) slide.simps, simp)+
    with 1 False show ?thesis by auto
  qed
qed

lemma fp_step_stuck:
  assumes inv: "search_inv A B d" and k: "- int (length A) \<le> k" "k \<le> int (length B)"
    and seen: "k = 0 \<or> 0 \<le> front d (k - 1) \<or> 0 \<le> front d (k + 1)"
    and y: "y = front (fp_step k d) k" "y - k < int (length A)" "y < int (length B)"
  shows "A ! nat (y - k) \<noteq> B ! nat y"
proof -
  let ?y0 = "max (front d (k - 1) + 1) (front d (k + 1))"
  obtain x' y' where s: "slide A B (?y0 - k) ?y0 = (x', y')" by fastforce
  have run: "diag_run A B (?y0 - k, ?y0) (x', y')" using slide_run [of A B "?y0 - k" ?y0] s by simp
  have "max 0 k \<le> ?y0" using fp_step_point [OF inv k seen run] by simp
  moreover have "front (fp_step k d) k = y'"
    using inv k s by (auto simp: front_def fp_step_def snake_def search_inv_def shape_def arr_get_set Let_def split: prod.splits)
  moreover have "x' = y' - k" using diag_run_facts [OF run] by auto
  ultimately show ?thesis using slide_stuck [OF s] y by auto
qed

section \<open>The recorded way to a point\<close>

inductive chain :: "(int \<times> int \<times> int) list \<Rightarrow> nat \<Rightarrow> int \<Rightarrow> bool" for cs where
  chain_root: "cs ! i = (x, x, -1) \<Longrightarrow> chain cs i 0"
| chain_insert: "cs ! i = (x, y, int j) \<Longrightarrow> j < i \<Longrightarrow> cs ! j = (x', y', r) \<Longrightarrow> y - x = y' - x' + 1 \<Longrightarrow>
    chain cs j v \<Longrightarrow> chain cs i v"
| chain_delete: "cs ! i = (x, y, int j) \<Longrightarrow> j < i \<Longrightarrow> cs ! j = (x', y', r) \<Longrightarrow> y - x = y' - x' - 1 \<Longrightarrow>
    chain cs j v \<Longrightarrow> chain cs i (v + 1)"

lemma chain_append: "chain cs i v \<Longrightarrow> i < length cs \<Longrightarrow> chain (cs @ [c]) i v"
proof (induction rule: chain.induct)
  case (chain_root i x)
  then show ?case by (intro chain.chain_root [of _ _ x]) (simp add: nth_append)
next
  case (chain_insert i x y j x' y' r v)
  then show ?case by (intro chain.chain_insert [of _ i x y j x' y' r]) (simp_all add: nth_append)
next
  case (chain_delete i x y j x' y' r v)
  then show ?case by (intro chain.chain_delete [of _ i x y j x' y' r]) (simp_all add: nth_append)
qed

section \<open>Levels\<close>

text \<open>Diagonal \<open>k\<close> is at level \<open>c\<close>: no point of cost up to \<open>c\<close> is beyond its front, and the way recorded to
  the front costs at most \<open>c\<close>.\<close>

definition at_level :: "'a list \<Rightarrow> 'a list \<Rightarrow> 'a Diff \<Rightarrow> int \<Rightarrow> int \<Rightarrow> bool" where
  "at_level A B d k c \<longleftrightarrow>
     (\<forall>v x y. reach A B v x y \<longrightarrow> y - x = k \<longrightarrow> v \<le> c \<longrightarrow> y \<le> front d k) \<and>
     (0 \<le> front d k \<longrightarrow> (\<exists>v \<le> c. chain (pathCordinates d) (nat (arr_get (epath d) (offs d) k)) v))"

lemma at_level_unset: "front d k = -1 \<Longrightarrow> c < 0 \<or> c < - k \<Longrightarrow> at_level A B d k c"
  unfolding at_level_def using reach_bounds by force

lemma step_covers:
  assumes below_: "\<And>v x y. reach A B v x y \<Longrightarrow> y - x = k - 1 \<Longrightarrow> v \<le> e \<Longrightarrow> y \<le> fl"
    and above_: "\<And>v x y. reach A B v x y \<Longrightarrow> y - x = k + 1 \<Longrightarrow> v \<le> e - 1 \<Longrightarrow> y \<le> fh"
    and z: "max (fl + 1) fh \<le> z" "0 \<le> z"
    and stuck: "z - k < int (length A) \<Longrightarrow> z < int (length B) \<Longrightarrow> A ! nat (z - k) \<noteq> B ! nat z"
    and r: "reach A B v x y" "y - x = k" "v \<le> e"
  shows "y \<le> z"
  using r
proof (induction rule: reach.induct)
  case (reach_common v x y)
  then have "y \<le> z" "x = y - k" by auto
  moreover have "y \<noteq> z" using reach_common stuck \<open>x = y - k\<close> by auto
  ultimately show ?case by simp
next
  case (reach_insert v x y)
  then have "y \<le> fl" using below_ [OF reach_insert.hyps(1)] by simp
  then show ?case using z by simp
next
  case (reach_delete v x y)
  then have "y \<le> fh" using above_ [OF reach_delete.hyps(1)] by simp
  then show ?case using z by simp
qed (use z in simp)

lemma at_level_other:
  assumes inv: "search_inv A B d" and k: "- int (length A) \<le> k" "k \<le> int (length B)"
    and j: "inside A B j" "j \<noteq> k" and l: "at_level A B d j c"
  shows "at_level A B (fp_step k d) j c"
proof -
  obtain y where fr: "front (fp_step k d) j = front d j"
    and ep: "epath (fp_step k d) = arr_set (epath d) (offs d) k (int (length (pathCordinates d)))"
    and pc: "\<exists>c. pathCordinates (fp_step k d) = pathCordinates d @ [c]"
    and sh: "shape A B (fp_step k d)"
    using fp_step_front [OF inv k] j by auto
  have shd: "shape A B d" using inv by (simp add: search_inv_def)
  have "arr_get (epath (fp_step k d)) (offs (fp_step k d)) j = arr_get (epath d) (offs d) j"
    using j k sh shd unfolding ep by (simp add: shape_def inside_def arr_get_set)
  moreover have "nat (arr_get (epath d) (offs d) j) < length (pathCordinates d)" if "0 \<le> front d j"
    using inv j(1) that by (cases rule: entry_unset_or_point) auto
  ultimately show ?thesis
    using l pc fr chain_append unfolding at_level_def by metis
qed

lemma step_chain:
  assumes inv: "search_inv A B d" and k: "- int (length A) \<le> k" "k \<le> int (length B)"
    and seen: "k = 0 \<or> 0 \<le> front d (k - 1) \<or> 0 \<le> front d (k + 1)"
    and lv: "at_level A B d (k - 1) e" "at_level A B d (k + 1) (e - 1)" and e: "0 \<le> e"
  shows "\<exists>v \<le> e. chain (pathCordinates d @
        [(y - k, y, if front d (k - 1) + 1 > front d (k + 1) then arr_get (epath d) (offs d) (k - 1)
                    else arr_get (epath d) (offs d) (k + 1))]) (length (pathCordinates d)) v"
    (is "\<exists>v \<le> e. chain (?cs @ [?c]) ?n v")
proof -
  have i: "inside A B (k - 1)" "inside A B (k + 1)" using k by (auto simp: inside_def)
  show ?thesis
  proof (cases "front d (k - 1) + 1 > front d (k + 1)")
    case True
    show ?thesis
      using inv i(1)
    proof (cases rule: entry_unset_or_point)
      case 1
      moreover from this True have "front d (k + 1) = -1" using entry_unset_or_point [OF inv i(2)] by fastforce
      ultimately have "?c = (y, y, -1)" using True seen by auto
      then show ?thesis using e chain_root [of "?cs @ [?c]" ?n y] by auto
    next
      case (2 j r)
      then obtain v where v: "v \<le> e" "chain ?cs j v" using lv(1) by (auto simp: at_level_def)
      have "chain (?cs @ [?c]) ?n v"
        by (rule chain_insert [where x = "y - k" and y = y and j = j and r = r]) (use 2 v True chain_append in \<open>auto simp: nth_append\<close>)
      with v(1) show ?thesis by blast
    qed
  next
    case False
    show ?thesis
      using inv i(2)
    proof (cases rule: entry_unset_or_point)
      case 1
      with False show ?thesis using entry_unset_or_point [OF inv i(1)] by fastforce
    next
      case (2 j r)
      then obtain v where v: "v \<le> e - 1" "chain ?cs j v" using lv(2) by (auto simp: at_level_def)
      have "chain (?cs @ [?c]) ?n (v + 1)"
        by (rule chain_delete [where x = "y - k" and y = y and j = j and r = r]) (use 2 v False chain_append in \<open>auto simp: nth_append\<close>)
      with v(1) show ?thesis by (intro exI [of _ "v + 1"]) simp
    qed
  qed
qed

lemma at_level_step:
  assumes inv: "search_inv A B d" and k: "- int (length A) \<le> k" "k \<le> int (length B)"
    and seen: "k = 0 \<or> 0 \<le> front d (k - 1) \<or> 0 \<le> front d (k + 1)"
    and lv: "at_level A B d (k - 1) e" "at_level A B d (k + 1) (e - 1)" and e: "0 \<le> e"
  shows "at_level A B (fp_step k d) k e"
proof -
  let ?r = "if front d (k - 1) + 1 > front d (k + 1) then arr_get (epath d) (offs d) (k - 1)
            else arr_get (epath d) (offs d) (k + 1)"
  let ?y = "front (fp_step k d) k"
  have ik: "inside A B k" using k by (simp add: inside_def)
  have y: "max (front d (k - 1) + 1) (front d (k + 1)) \<le> ?y" "0 \<le> ?y"
    using fp_step_inv [OF inv k seen] ik by metis+
  have pc: "pathCordinates (fp_step k d) = pathCordinates d @ [(?y - k, ?y, ?r)]"
    and ep: "epath (fp_step k d) = arr_set (epath d) (offs d) k (int (length (pathCordinates d)))"
    and sh: "shape A B (fp_step k d)"
    using fp_step_front [OF inv k] ik by auto
  have shd: "shape A B d" using inv by (simp add: search_inv_def)
  have "arr_get (epath (fp_step k d)) (offs (fp_step k d)) k = int (length (pathCordinates d))"
    using k sh shd unfolding ep by (simp add: shape_def arr_get_set)
  then have "\<exists>v \<le> e. chain (pathCordinates (fp_step k d)) (nat (arr_get (epath (fp_step k d)) (offs (fp_step k d)) k)) v"
    using step_chain [OF inv k seen lv e, of ?y] pc by simp
  moreover have "y' \<le> ?y" if "reach A B v x y'" "y' - x = k" "v \<le> e" for v x y'
    by (rule step_covers [where fl = "front d (k - 1)" and fh = "front d (k + 1)" and e = e, OF _ _ y _ that])
       (use lv fp_step_stuck [OF inv k seen refl] in \<open>auto simp: at_level_def\<close>)
  ultimately show ?thesis unfolding at_level_def by blast
qed


section \<open>Rounds raise the level\<close>

definition level :: "'a list \<Rightarrow> 'a list \<Rightarrow> int \<Rightarrow> int \<Rightarrow> int" where
  "level A B p k = p - max 0 (k - (int (length B) - int (length A)))"

definition levels :: "'a list \<Rightarrow> 'a list \<Rightarrow> int \<Rightarrow> 'a Diff \<Rightarrow> bool" where
  "levels A B p d \<longleftrightarrow> (\<forall>k. inside A B k \<longrightarrow> at_level A B d k (level A B p k))"

definition lower_levels :: "'a list \<Rightarrow> 'a list \<Rightarrow> int \<Rightarrow> 'a Diff \<Rightarrow> int \<Rightarrow> 'a Diff \<Rightarrow> bool" where
  "lower_levels A B p d0 j d \<longleftrightarrow>
     lower_done A B p d0 j d \<and>
     (\<forall>k. inside A B k \<longrightarrow> at_level A B d k (level A B (if k \<le> j then p else p - 1) k))"

definition upper_levels :: "'a list \<Rightarrow> 'a list \<Rightarrow> int \<Rightarrow> 'a Diff \<Rightarrow> int \<Rightarrow> 'a Diff \<Rightarrow> bool" where
  "upper_levels A B p d1 j d \<longleftrightarrow>
     upper_done A B p d1 j d \<and>
     (\<forall>k. inside A B k \<longrightarrow>
        at_level A B d k (level A B (if k < int (length B) - int (length A) \<or> j \<le> k then p else p - 1) k))"

lemma searching_facts:
  assumes "searching A B p d"
  shows "search_inv A B d" "0 \<le> p" "p \<le> int (length A)" "length A \<le> length B"
    "\<And>k. inside A B k \<Longrightarrow> - p < k \<Longrightarrow> k < int (length B) - int (length A) + p \<Longrightarrow> 0 < p \<Longrightarrow> 0 \<le> front d k"
  using assms searching_rounds [OF assms] by (auto simp: searching_def search_inv_def shape_def Let_def)

lemma lower_levels_step:
  assumes s: "searching A B p d0" and l: "lower_levels A B p d0 (j - 1) d"
    and j: "- p \<le> j" "j < int (length B) - int (length A)"
  shows "lower_levels A B p d0 j (fp_step j d)"
proof -
  note f = searching_facts [OF s]
  have ld: "lower_done A B p d0 (j - 1) d"
    and lv: "\<And>k. inside A B k \<Longrightarrow> at_level A B d k (level A B (if k \<le> j - 1 then p else p - 1) k)"
    using l by (auto simp: lower_levels_def)
  have inv: "search_inv A B d" using ld by (simp add: lower_done_def)
  have jr: "- int (length A) \<le> j" "j \<le> int (length B)" using j f by auto
  have i: "inside A B (j - 1)" "inside A B (j + 1)" using jr by (auto simp: inside_def)
  have seen: "j = 0 \<or> 0 \<le> front d (j - 1) \<or> 0 \<le> front d (j + 1)"
  proof (cases "p = 0")
    case True
    then show ?thesis using ld j by (auto simp: lower_done_def)
  next
    case False
    then have "0 \<le> front d0 (j + 1)" using f(5) [OF i(2)] f(2) j by simp
    then show ?thesis using ld i(2) by (auto simp: lower_done_def)
  qed
  have "at_level A B (fp_step j d) j p"
    by (rule at_level_step [OF inv jr seen _ _ f(2)]) (use lv [OF i(1)] lv [OF i(2)] j in \<open>auto simp: level_def\<close>)
  then have "at_level A B (fp_step j d) k (level A B (if k \<le> j then p else p - 1) k)" if "inside A B k" for k
    using that j lv [OF that] at_level_other [OF inv jr that] by (cases "k = j") (auto simp: level_def)
  then show ?thesis using lower_step [OF s ld j] by (simp add: lower_levels_def)
qed

lemma upper_levels_step:
  assumes s: "searching A B p d0" and l: "upper_levels A B p d1 (j + 1) d"
    and eq: "\<And>k. inside A B k \<Longrightarrow> int (length B) - int (length A) \<le> k \<Longrightarrow> front d1 k = front d0 k"
    and j: "int (length B) - int (length A) < j" "j \<le> int (length B) - int (length A) + p"
  shows "upper_levels A B p d1 j (fp_step j d)"
proof -
  let ?dl = "int (length B) - int (length A)"
  note f = searching_facts [OF s]
  have ud: "upper_done A B p d1 (j + 1) d"
    and lv: "\<And>k. inside A B k \<Longrightarrow> at_level A B d k (level A B (if k < ?dl \<or> j + 1 \<le> k then p else p - 1) k)"
    using l by (auto simp: upper_levels_def)
  have inv: "search_inv A B d" using ud by (simp add: upper_done_def Let_def)
  have jr: "- int (length A) \<le> j" "j \<le> int (length B)" using j f by auto
  have i: "inside A B (j - 1)" "inside A B (j + 1)" using jr by (auto simp: inside_def)
  have "0 \<le> front d0 (j - 1)" using f(5) [OF i(1)] f(4) j by simp
  then have "0 \<le> front d (j - 1)" using ud i(1) eq [OF i(1)] j by (auto simp: upper_done_def Let_def)
  then have seen: "j = 0 \<or> 0 \<le> front d (j - 1) \<or> 0 \<le> front d (j + 1)" by simp
  have "at_level A B (fp_step j d) j (level A B p j)"
    by (rule at_level_step [OF inv jr seen])
       (use lv [OF i(1)] lv [OF i(2)] j in \<open>auto simp: level_def algebra_simps\<close>)
  then have "at_level A B (fp_step j d) k (level A B (if k < ?dl \<or> j \<le> k then p else p - 1) k)" if "inside A B k" for k
    using that j lv [OF that] at_level_other [OF inv jr that] by (cases "k = j") auto
  then show ?thesis using upper_step [OF s ud eq j] by (simp add: upper_levels_def)
qed

lemma round_levels:
  assumes s: "searching A B p d" and lv: "levels A B (p - 1) d"
  shows "levels A B p (onp_round p d)"
proof -
  let ?dl = "int (length B) - int (length A)"
  let ?d1 = "fold fp_step [- p..?dl - 1] d"
  let ?d2 = "fold fp_step (rev [?dl + 1..?dl + p]) ?d1"
  note f = searching_facts [OF s]
  have "at_level A B d k (level A B p k)" if k: "inside A B k" "k \<le> - p - 1" for k
    by (rule at_level_unset [OF searching_unset [OF s k(1)]]) (use k f(2) in \<open>auto simp: level_def\<close>)
  then have l0: "lower_levels A B p d (- p - 1) d"
    using f(1) lv by (auto simp: lower_levels_def lower_done_def levels_def)
  have lo: "lower_levels A B p d (?dl - 1) ?d1"
    using l0 by (rule fold_upto_inv [where P = "lower_levels A B p d"]) (use lower_levels_step [OF s] f in auto)
  have ld: "lower_done A B p d (?dl - 1) ?d1"
    and llv: "\<And>k. inside A B k \<Longrightarrow> at_level A B ?d1 k (level A B (if k \<le> ?dl - 1 then p else p - 1) k)"
    using lo by (auto simp: lower_levels_def)
  have eq: "front ?d1 k = front d k" if "inside A B k" "?dl \<le> k" for k
    using ld that by (auto simp: lower_done_def)
  have "at_level A B ?d1 k (level A B (if k < ?dl \<or> ?dl + p + 1 \<le> k then p else p - 1) k)" if k: "inside A B k" for k
  proof (cases "?dl + p + 1 \<le> k")
    case True
    then have "front ?d1 k = -1" using searching_unset [OF s k] eq [OF k] f(2) by simp
    then have "at_level A B ?d1 k (level A B p k)"
      by (rule at_level_unset) (use True f(2) in \<open>simp add: level_def\<close>)
    with True show ?thesis by simp
  next
    case False
    with llv [OF k] show ?thesis by simp
  qed
  moreover have "upper_done A B p ?d1 (?dl + p + 1) ?d1" using ld by (auto simp: upper_done_def lower_done_def Let_def)
  ultimately have u0: "upper_levels A B p ?d1 (?dl + p + 1) ?d1" by (simp add: upper_levels_def)
  have up: "upper_levels A B p ?d1 (?dl + 1) ?d2"
    using u0 by (rule fold_downto_inv [where P = "upper_levels A B p ?d1"]) (use upper_levels_step [OF s _ eq] f in auto)
  have ud: "upper_done A B p ?d1 (?dl + 1) ?d2"
    and ulv: "\<And>k. inside A B k \<Longrightarrow> at_level A B ?d2 k (level A B (if k < ?dl \<or> ?dl + 1 \<le> k then p else p - 1) k)"
    using up by (auto simp: upper_levels_def)
  have inv: "search_inv A B ?d2" using ud by (simp add: upper_done_def Let_def)
  have r: "- int (length A) \<le> ?dl" "?dl \<le> int (length B)" using f(4) by auto
  have i: "inside A B (?dl - 1)" "inside A B (?dl + 1)" "inside A B ?dl" using r by (auto simp: inside_def)
  have seen: "?dl = 0 \<or> 0 \<le> front ?d2 (?dl - 1) \<or> 0 \<le> front ?d2 (?dl + 1)"
  proof (cases "p = 0")
    case True
    then show ?thesis using ld ud i(1) f(4) by (auto simp: lower_done_def upper_done_def Let_def)
  next
    case False
    then show ?thesis using ud f(2) by (auto simp: upper_done_def Let_def)
  qed
  have "at_level A B (fp_step ?dl ?d2) ?dl p"
    by (rule at_level_step [OF inv r seen _ _ f(2)]) (use ulv [OF i(1)] ulv [OF i(2)] in \<open>auto simp: level_def\<close>)
  then have "at_level A B (fp_step ?dl ?d2) k (level A B p k)" if k: "inside A B k" for k
  proof (cases "k = ?dl")
    case False
    then have "k < ?dl \<or> ?dl + 1 \<le> k" by linarith
    then show ?thesis using ulv [OF k] at_level_other [OF inv r k False] by simp
  qed (simp add: level_def)
  moreover have "onp_round p d = fp_step ?dl ?d2"
    using f(1,4) by (simp add: onp_round_def search_inv_def shape_def Let_def of_nat_diff)
  ultimately show ?thesis by (simp add: levels_def)
qed

lemma few_points:
  assumes "recorded_points p d" and "p \<le> int (length A)" "0 \<le> p" and "int (delta d) = int (length B) - int (length A)"
    and "(length A + 1) * (length B + 1) < 2000000"
  shows "int (length (pathCordinates d)) < MAX_CORDINATES_SIZE"
proof -
  have "(p + 1) * (int (delta d) + p + 1) \<le> (int (length A) + 1) * (int (length B) + 1)"
    using assms(2-4) by (intro mult_mono) auto
  also have "\<dots> = int ((length A + 1) * (length B + 1))" by (simp add: algebra_simps)
  also have "\<dots> < 2000000" using assms(5) by linarith
  finally show ?thesis using assms(1) by (simp add: recorded_points_def MAX_CORDINATES_SIZE_def)
qed

text \<open>Before a round the end of the graph has not been reached, so it costs more than the rounds before.\<close>

lemma no_cheaper:
  assumes s: "searching A B (p + 1) d" and lv: "levels A B p d"
    and r: "reach A B v (int (length A)) (int (length B))"
  shows "p + 1 \<le> v"
proof (rule ccontr)
  let ?dl = "int (length B) - int (length A)"
  assume n: "\<not> p + 1 \<le> v"
  then have p: "0 < p + 1" using reach_bounds [OF r] by simp
  have i: "inside A B ?dl" using searching_facts(4) [OF s] by (simp add: inside_def)
  then have "at_level A B d ?dl p" using lv by (force simp: levels_def level_def)
  then have "int (length B) \<le> front d ?dl" using r n unfolding at_level_def by (metis zle_add1_eq_le not_le)
  moreover have "front d ?dl < int (length B)"
    using s i p searching_facts(5) [OF s i] searching_facts(4) [OF s] by (auto simp: searching_def Let_def)
  ultimately show False by simp
qed

lemma onp_loop_exit:
  assumes "searching A B (p + 1) d" and "recorded_points p d" and "levels A B p d"
    and "onp_loop p d = Some (p', d')"
  shows "recorded_points p' d' \<and> levels A B p' d' \<and>
    (\<forall>v. reach A B v (int (length A)) (int (length B)) \<longrightarrow> p' \<le> v) \<and> p < p' \<and> p' \<le> int (length A) \<and>
    (front d' (int (length B) - int (length A)) = int (length B) \<or>
     MAX_CORDINATES_SIZE \<le> int (length (pathCordinates d')))"
  using assms
proof (induction "nat (int (length A) - p)" arbitrary: p d)
  case 0
  then show ?case using searching_rounds [OF "0.prems"(1)] by simp
next
  case (Suc n)
  let ?d = "onp_round (p + 1) d"
  note r = onp_round_search [OF Suc.prems(1)]
  have dl: "int (delta ?d) = int (length B) - int (length A)" "dN ?d = length B" "delta ?d = delta d"
    using r untouched_sel [of d ?d] by (auto simp: search_inv_def shape_def)
  have p: "0 \<le> p + 1" "p + 1 \<le> int (length A)" "\<not> editDistanceOnly d"
    using Suc.prems(1) searching_rounds [OF Suc.prems(1)]
    by (auto simp: searching_def search_inv_def shape_def Let_def)
  have pts: "recorded_points (p + 1) ?d"
    using onp_round_count [OF p(3,1)] Suc.prems(2) dl(3) by (simp add: recorded_points_def algebra_simps)
  have lv: "levels A B (p + 1) ?d" using round_levels [OF Suc.prems(1)] Suc.prems(3) by simp
  show ?case
  proof (cases "front ?d (int (delta ?d)) \<noteq> int (dN ?d) \<and> int (length (pathCordinates ?d)) < MAX_CORDINATES_SIZE")
    case True
    then have "searching A B (p + 1 + 1) ?d" using r dl by simp
    moreover have "onp_loop (p + 1) ?d = Some (p', d')"
      using Suc.prems(4) True by (subst (asm) onp_loop.simps) (simp add: front_def Let_def)
    moreover have "n = nat (int (length A) - (p + 1))" using Suc.hyps(2) by simp
    ultimately show ?thesis using Suc.hyps(1) [of "p + 1" ?d] pts lv by simp
  next
    case False
    then have "p' = p + 1" "d' = ?d"
      using Suc.prems(4) by (subst (asm) onp_loop.simps, simp add: front_def Let_def split: if_splits)+
    then show ?thesis using False pts lv p dl no_cheaper [OF Suc.prems(1,3)] by auto
  qed
qed



section \<open>What is recorded\<close>

text \<open>The elements of the shorter sequence a walk leaves out.\<close>

fun left_out :: "int \<times> int \<Rightarrow> (int \<times> int) list \<Rightarrow> int" where
  "left_out u [] = 0"
| "left_out u (v # vs) = max 0 ((snd u - fst u) - (snd v - fst v)) + left_out v vs"

lemma left_out_snoc:
  "left_out u (vs @ [v]) = left_out u vs +
     max 0 ((snd (last (u # vs)) - fst (last (u # vs))) - (snd v - fst v))"
  by (induction vs arbitrary: u) auto

lemma chain_path:
  "chain cs r v \<Longrightarrow> \<exists>epc. follow_path cs (int r) acc = Some (acc @ epc) \<and> epc \<noteq> [] \<and>
     hd epc = (fst (cs ! r), fst (snd (cs ! r))) \<and> left_out (0, 0) (rev epc) = v"
proof (induction arbitrary: acc rule: chain.induct)
  case (chain_root i x)
  then show ?case
    by (intro exI [of _ "[(x, x)]"]) (simp add: follow_path.simps [of _ "int i"] follow_path.simps [of _ "-1"])
next
  case (chain_insert i x y j x' y' r v)
  then obtain epc where e: "follow_path cs (int j) (acc @ [(x, y)]) = Some ((acc @ [(x, y)]) @ epc)" "epc \<noteq> []"
      "hd epc = (x', y')" "left_out (0, 0) (rev epc) = v"
    by (metis fst_conv snd_conv)
  then have "last ((0, 0) # rev epc) = (x', y')" by (simp add: last_rev)
  with chain_insert e show ?case
    by (intro exI [of _ "(x, y) # epc"]) (simp add: follow_path.simps [of _ "int i"] left_out_snoc)
next
  case (chain_delete i x y j x' y' r v)
  then obtain epc where e: "follow_path cs (int j) (acc @ [(x, y)]) = Some ((acc @ [(x, y)]) @ epc)" "epc \<noteq> []"
      "hd epc = (x', y')" "left_out (0, 0) (rev epc) = v"
    by (metis fst_conv snd_conv)
  then have "last ((0, 0) # rev epc) = (x', y')" by (simp add: last_rev)
  with chain_delete e show ?case
    by (intro exI [of _ "(x, y) # epc"]) (simp add: follow_path.simps [of _ "int i"] left_out_snoc)
qed

definition edits_of :: "edit_t \<Rightarrow> 'a sesElem list \<Rightarrow> 'a sesElem list" where
  "edits_of t es = filter (\<lambda>e. etype (snd e) = t) es"

lemma edits_of_simps [simp]:
  "edits_of t [] = []" "edits_of t (es @ fs) = edits_of t es @ edits_of t fs"
  "edits_of t [(x, i)] = (if etype i = t then [(x, i)] else [])"
  by (simp_all add: edits_of_def)

definition A_only :: "'a Diff \<Rightarrow> int" where
  "A_only d = int (length (edits_of (if swapped d then SES_ADD else SES_DELETE) (ses_sequence (ses d))))"

definition lcs_recorded :: "'a Diff \<Rightarrow> bool" where
  "lcs_recorded d \<longleftrightarrow> \<not> deletesFirst (ses d) \<and> lcs d = map fst (edits_of SES_COMMON (ses_sequence (ses d)))"

lemma record_adds:
  assumes "lcs_recorded d"
  shows "A_only (add_x px py d) = A_only d + 1" "A_only (add_y px py d) = A_only d" "A_only (add_common px py d) = A_only d"
    and "lcs_recorded (add_x px py d)" "lcs_recorded (add_y px py d)" "lcs_recorded (add_common px py d)"
  using assms by (auto simp: lcs_recorded_def A_only_def add_x_def add_y_def add_common_def)

lemma record_to_count:
  "px \<le> vx \<Longrightarrow> py \<le> vy \<Longrightarrow> lcs_recorded d \<Longrightarrow> record_to (vx, vy) (px, py, d) = (qx, qy, d') \<Longrightarrow>
     qx = vx \<and> qy = vy \<and> lcs_recorded d' \<and> A_only d' = A_only d + max 0 ((py - px) - (vy - vx))"
proof (induction "(vx, vy)" "(px, py, d)" arbitrary: px py d rule: record_to.induct)
  case (1 px py d)
  note r = record_adds [OF "1.prems"(3)]
  show ?case
  proof (cases "px < vx \<or> py < vy")
    case True
    consider "vy - vx > py - px" | "vy - vx < py - px" | "vy - vx = py - px" by linarith
    then show ?thesis
    proof cases
      case a: 1
      then have "record_to (vx, vy) (px, py + 1, add_y px py d) = (qx, qy, d')"
        using "1.prems"(4) True by (subst (asm) record_to.simps) simp
      with "1.hyps"(1) True a r "1.prems" show ?thesis by auto
    next
      case a: 2
      then have "record_to (vx, vy) (px + 1, py, add_x px py d) = (qx, qy, d')"
        using "1.prems"(4) True by (subst (asm) record_to.simps) simp
      with "1.hyps"(2) True a r "1.prems" show ?thesis by auto
    next
      case a: 3
      then have "record_to (vx, vy) (px + 1, py + 1, add_common px py d) = (qx, qy, d')"
        using "1.prems"(4) True by (subst (asm) record_to.simps) simp
      with "1.hyps"(3) True a r "1.prems" show ?thesis by auto
    qed
  next
    case False
    then show ?thesis using "1.prems" by (subst (asm) record_to.simps) auto
  qed
qed

lemma record_walk_count:
  "walk A B u vs \<Longrightarrow> lcs_recorded d \<Longrightarrow> fold record_to vs (fst u, snd u, d) = (qx, qy, d') \<Longrightarrow>
     lcs_recorded d' \<and> A_only d' = A_only d + left_out u vs"
proof (induction vs arbitrary: u d)
  case (Cons v vs)
  obtain x y d1 where r: "record_to v (fst u, snd u, d) = (x, y, d1)" by (cases "record_to v (fst u, snd u, d)")
  have "fst u \<le> fst v" "snd u \<le> snd v" using segment_mono [of A B u v] Cons.prems(1) by auto
  then have s: "x = fst v" "y = snd v" "lcs_recorded d1"
      "A_only d1 = A_only d + max 0 ((snd u - fst u) - (snd v - fst v))"
    using record_to_count [of "fst u" "fst v" "snd u" "snd v" d x y d1] r Cons.prems(2) by simp_all
  then show ?case using Cons.IH [of v d1] Cons.prems r by simp
qed simp


section \<open>The script of short sequences\<close>

lemma compose_loop_shortest:
  assumes f: "fresh A B d" and small: "(length A + 1) * (length B + 1) < 2000000"
    and d0: "editDistance d = 0" "lcs d = []"
  obtains d' p where "compose_loop d = Some d'" "spells A B d'" "swapped d' = swapped d" "lcs_recorded d'"
    "editDistance d' = int (length B) - int (length A) + 2 * p" "A_only d' \<le> p"
    "\<And>v. reach A B v (int (length A)) (int (length B)) \<Longrightarrow> p \<le> v"
proof -
  let ?dl = "int (length B) - int (length A)"
  note s = fresh_searching [OF f]
  obtain p d1 where l: "onp_loop (-1) d = Some (p, d1)" "search_inv A B d1" "untouched d d1" "0 \<le> front d1 ?dl"
    using onp_loop_returns [of A B "-1" d] s by auto
  have sh: "shape A B d1" "int (delta d1) = ?dl" "inside A B ?dl" using l(2) by (auto simp: search_inv_def shape_def inside_def)
  have "recorded_points (-1) d" using f by (simp add: recorded_points_def fresh_def)
  moreover have "levels A B (-1) d"
    using searching_unset [OF s] at_level_unset unfolding levels_def level_def by fastforce
  ultimately have x: "recorded_points p d1" "levels A B p d1" "p \<le> int (length A)" "-1 < p"
      "front d1 ?dl = int (length B) \<or> MAX_CORDINATES_SIZE \<le> int (length (pathCordinates d1))"
      "\<And>v. reach A B v (int (length A)) (int (length B)) \<Longrightarrow> p \<le> v"
    using onp_loop_exit [of A B "-1" d p d1] s l(1) by auto
  then have N: "front d1 ?dl = int (length B)" using few_points [OF x(1,3) _ sh(2) small] by auto
  obtain epc where e: "follow_path (pathCordinates d1) (arr_get (epath d1) (offs d1) ?dl) [] = Some epc" "epc \<noteq> []"
      "walk A B (0, 0) (rev epc)" "hd epc = (front d1 ?dl - ?dl, front d1 ?dl)"
    using search_inv_path [OF l(2) sh(3) l(4)] by blast
  obtain i where i: "arr_get (epath d1) (offs d1) ?dl = int i"
    using l(2) sh(3) l(4) by (cases rule: entry_unset_or_point) auto
  obtain v where "v \<le> p" "chain (pathCordinates d1) i v"
    using x(2) sh(3) l(4) i by (force simp: levels_def at_level_def level_def)
  then have v: "left_out (0, 0) (rev epc) \<le> p"
    using chain_path [of "pathCordinates d1" i v "[]"] e(1) i by auto
  let ?d2 = "d1\<lparr>editDistance := editDistance d1 + int (delta d1) + 2 * p\<rparr>"
  have rec: "recorded A B (0, 0, ?d2)"
    using f sh(1) untouched_sel [OF l(3)]
    by (auto simp: fresh_def shape_def recorded_def side_A_def side_B_def olds_def news_def)
  then obtain d3 where r: "recordSequence epc ?d2 = Some (True, d3)" "spells A B d3" "swapped d3 = swapped d1"
      "editDistance d3 = int (delta d1) + 2 * p"
    using recordSequence_spells [OF e(3,2,4), of ?d2] sh(1) N untouched_sel [OF l(3)] d0(1) by (auto simp: shape_def)
  have "last ((0, 0) # rev epc) = (int (length A), int (length B))" using e(2,4) N by (simp add: last_rev)
  then obtain dd where dd: "fold record_to (rev epc) (0, 0, ?d2) = (int (length A), int (length B), dd)"
      "recorded A B (int (length A), int (length B), dd)" "same_but_script ?d2 dd"
    using record_walk [OF e(3), of ?d2] rec by auto
  have "dM dd = length A" "dN dd = length B" using same_but_script_sel [OF dd(3)] sh(1) by (simp_all add: shape_def)
  then have "recordSequence epc ?d2 = Some (True, dd)" using dd(1) e(2) by (simp add: recordSequence_def)
  with r(1) have d3: "d3 = dd" by simp
  have "lcs_recorded ?d2" "A_only ?d2 = 0"
    using f d0(2) untouched_sel [OF l(3)] by (auto simp: lcs_recorded_def A_only_def fresh_def)
  then have cnt: "lcs_recorded d3" "A_only d3 \<le> p"
    using record_walk_count [OF e(3), of ?d2] dd(1) v d3 by auto
  have "compose_loop d = Some (d3\<lparr>fp := []\<rparr>)"
    using l(1) e(1) r(1) sh(1,2) by (subst compose_loop.simps) (simp add: Let_def shape_def)
  then show thesis
    using that [of "d3\<lparr>fp := []\<rparr>" p] r cnt x(6) sh(2) untouched_sel [OF l(3)]
    by (auto simp: spells_def side_A_def side_B_def lcs_recorded_def A_only_def)
qed

section \<open>Every script is a way through the graph\<close>

lemma reach_extend: "reach A B v x y \<Longrightarrow> reach (A @ A') (B @ B') v x y"
proof (induction rule: reach.induct)
  case (reach_common v x y)
  have "0 \<le> x" "0 \<le> y" using reach_bounds [OF reach_common.hyps(1)] by auto
  with reach_common show ?case by (intro reach.reach_common) (simp_all add: nth_append nat_less_iff)
next
  case (reach_insert v x y)
  then show ?case by (intro reach.reach_insert) simp_all
next
  case (reach_delete v x y)
  then show ?case by (intro reach.reach_delete) simp_all
qed (rule reach_start)

lemma script_reach:
  "reach (olds es) (news es) (int (length (edits_of SES_DELETE es))) (int (length (olds es))) (int (length (news es)))"
proof (induction es rule: rev_induct)
  case Nil
  show ?case using reach_start [of "[]" "[]"] by simp
next
  case (snoc e es)
  obtain x i where e: "e = (x, i)" by (cases e)
  show ?case
  proof (cases "etype i")
    case SES_DELETE
    have "reach (olds es @ [x]) (news es) (int (length (edits_of SES_DELETE es)) + 1) (int (length (olds es)) + 1) (int (length (news es)))"
      by (rule reach_delete) (use reach_extend [OF snoc.IH, of "[x]" "[]"] in simp_all)
    with SES_DELETE show ?thesis by (simp add: e add.commute)
  next
    case SES_COMMON
    have "reach (olds es @ [x]) (news es @ [x]) (int (length (edits_of SES_DELETE es))) (int (length (olds es)) + 1) (int (length (news es)) + 1)"
      by (rule reach_common) (use reach_extend [OF snoc.IH, of "[x]" "[x]"] in simp_all)
    with SES_COMMON show ?thesis by (simp add: e add.commute)
  next
    case SES_ADD
    have "reach (olds es) (news es @ [x]) (int (length (edits_of SES_DELETE es))) (int (length (olds es))) (int (length (news es)) + 1)"
      by (rule reach_insert) (use reach_extend [OF snoc.IH, of "[]" "[x]"] in simp_all)
    with SES_ADD show ?thesis by (simp add: e add.commute)
  qed
qed

lemma script_lengths:
  "length (olds es) = length (edits_of SES_COMMON es) + length (edits_of SES_DELETE es)"
  "length (news es) = length (edits_of SES_COMMON es) + length (edits_of SES_ADD es)"
  by (induction es) (auto simp: olds_def news_def edits_of_def intro: edit_t.exhaust)

text \<open>A script read backwards.\<close>

fun opposite :: "edit_t \<Rightarrow> edit_t" where
  "opposite SES_DELETE = SES_ADD"
| "opposite SES_COMMON = SES_COMMON"
| "opposite SES_ADD = SES_DELETE"

definition reversed :: "'a sesElem list \<Rightarrow> 'a sesElem list" where
  "reversed es = map (\<lambda>e. (fst e, (snd e)\<lparr>etype := opposite (etype (snd e))\<rparr>)) es"

lemma opposite_eq [simp]:
  "opposite t = SES_ADD \<longleftrightarrow> t = SES_DELETE" "opposite t = SES_DELETE \<longleftrightarrow> t = SES_ADD"
  by (cases t; simp)+

lemma reversed_sides:
  "olds (reversed es) = news es" "news (reversed es) = olds es"
  "length (edits_of SES_DELETE (reversed es)) = length (edits_of SES_ADD es)"
  by (induction es) (auto simp: reversed_def olds_def news_def edits_of_def)

definition edit_count :: "'a sesElem list \<Rightarrow> nat" where
  "edit_count es = length (edits_of SES_DELETE es) + length (edits_of SES_ADD es)"

lemma edit_count_common:
  "edit_count es + 2 * length (edits_of SES_COMMON es) = length (olds es) + length (news es)"
  using script_lengths [of es] by (simp add: edit_count_def)

lemma compose_shortest:
  assumes small: "(length a + 1) * (length b + 1) < 2000000"
  obtains d es where "compose ((Diff_new a b)\<lparr>trivial := t\<rparr>) = Some d" "es = ses_sequence (ses d)"
    "olds es = a" "news es = b" "lcs d = map fst (edits_of SES_COMMON es)" "editDistance d = int (edit_count es)"
    "\<And>fs. olds fs = a \<Longrightarrow> news fs = b \<Longrightarrow> edit_count es \<le> edit_count fs"
proof -
  let ?A = "if length a < length b then a else b" and ?B = "if length a < length b then b else a"
  let ?d = "(Diff_new a b)\<lparr>trivial := t\<rparr>"
  let ?start = "?d\<lparr>fp := replicate (dM ?d + dN ?d + 3) (-1), epath := replicate (dM ?d + dN ?d + 3) (-1)\<rparr>"
  have f: "fresh ?A ?B ?start" "editDistance ?start = 0" "lcs ?start = []"
    by (auto simp: fresh_def shape_def Diff_new_def Ses_new_def Let_def)
  have sw: "swapped ?start \<longleftrightarrow> \<not> length a < length b" by (simp add: Diff_new_def Let_def)
  have small': "(length ?A + 1) * (length ?B + 1) < 2000000" using small by (simp add: mult.commute)
  obtain d p where d: "compose ?d = Some d" "spells ?A ?B d" "swapped d \<longleftrightarrow> \<not> length a < length b" "lcs_recorded d"
      "editDistance d = int (length ?B) - int (length ?A) + 2 * p" "A_only d \<le> p"
      "\<And>v. reach ?A ?B v (int (length ?A)) (int (length ?B)) \<Longrightarrow> p \<le> v"
    using compose_loop_shortest [OF f(1) small' f(2,3)] sw unfolding compose_def by metis
  let ?es = "ses_sequence (ses d)"
  have es: "olds ?es = a" "news ?es = b" using d(2,3) by (auto simp: spells_def side_A_def side_B_def split: if_splits)
  have low: "p \<le> int (length (edits_of (if length a < length b then SES_DELETE else SES_ADD) fs))"
    if "olds fs = a" "news fs = b" for fs
    using d(7) script_reach [of fs] script_reach [of "reversed fs"] that by (simp add: reversed_sides split: if_splits)
  have own: "p = int (length (edits_of (if length a < length b then SES_DELETE else SES_ADD) ?es))"
    using low [OF es] d(3,6) by (auto simp: A_only_def split: if_splits)
  have "editDistance d = int (edit_count ?es)"
    using own d(5) script_lengths [of ?es] es by (auto simp: edit_count_def split: if_splits)
  moreover have "edit_count ?es \<le> edit_count fs" if "olds fs = a" "news fs = b" for fs
    using own low [OF that] script_lengths [of ?es] script_lengths [of fs] es that
    by (auto simp: edit_count_def split: if_splits)
  ultimately show thesis using that d(1,4) es by (auto simp: lcs_recorded_def)
qed

text \<open>Common subsequences and scripts.\<close>

definition script_item :: "edit_t \<Rightarrow> 'a \<Rightarrow> 'a sesElem" where
  "script_item t x = (x, \<lparr>beforeIdx = 0, afterIdx = 0, etype = t\<rparr>)"

lemma script_items:
  "olds (map (script_item SES_DELETE) xs) = xs" "news (map (script_item SES_DELETE) xs) = []"
  "olds (map (script_item SES_ADD) xs) = []" "news (map (script_item SES_ADD) xs) = xs"
  "edits_of SES_COMMON (map (script_item SES_DELETE) xs) = []" "edits_of SES_COMMON (map (script_item SES_ADD) xs) = []"
  by (induction xs) (simp_all add: olds_def news_def edits_of_def script_item_def)

lemma script_item_common:
  "olds (script_item SES_COMMON z # es) = z # olds es" "news (script_item SES_COMMON z # es) = z # news es"
  "length (edits_of SES_COMMON (script_item SES_COMMON z # es)) = Suc (length (edits_of SES_COMMON es))"
  by (simp_all add: olds_def news_def edits_of_def script_item_def)

lemma subseq_script:
  "subseq zs a \<Longrightarrow> subseq zs b \<Longrightarrow>
     \<exists>es. olds es = a \<and> news es = b \<and> length (edits_of SES_COMMON es) = length zs"
proof (induction zs arbitrary: a b)
  case Nil
  show ?case
    by (intro exI [of _ "map (script_item SES_DELETE) a @ map (script_item SES_ADD) b"]) (simp add: script_items)
next
  case (Cons z zs)
  obtain a1 a2 where a: "a = a1 @ z # a2" "subseq zs a2" using list_emb_ConsD [OF Cons.prems(1)] by auto
  obtain b1 b2 where b: "b = b1 @ z # b2" "subseq zs b2" using list_emb_ConsD [OF Cons.prems(2)] by auto
  obtain es where es: "olds es = a2" "news es = b2" "length (edits_of SES_COMMON es) = length zs"
    using Cons.IH a(2) b(2) by blast
  let ?es = "map (script_item SES_DELETE) a1 @ map (script_item SES_ADD) b1 @ script_item SES_COMMON z # es"
  have "olds ?es = a \<and> news ?es = b \<and> length (edits_of SES_COMMON ?es) = length (z # zs)"
    using a b es by (simp add: script_items script_item_common)
  then show ?case by blast
qed

lemma commons_subseq:
  "subseq (map fst (edits_of SES_COMMON es)) (olds es)" "subseq (map fst (edits_of SES_COMMON es)) (news es)"
  by (induction es) (auto simp: edits_of_def olds_def news_def)

text \<open>C9: \<open>Diff::compose\<close> records a shortest edit script: for all sequences short enough for the limit of two
  million points, the script turns the first sequence into the second, the edit distance it reports is the
  number of its insertions and deletions, and no script between the two sequences has fewer. The sequence it
  collects on the way is a longest common subsequence. This does not depend on the flag \<open>trivial\<close>.\<close>

theorem dtl_shortest_script:
  assumes "(length a + 1) * (length b + 1) < 2000000"
  shows "\<exists>d. compose ((Diff_new a b)\<lparr>trivial := t\<rparr>) = Some d \<and>
     (let es = ses_sequence (ses d) in
      olds es = a \<and> news es = b \<and> editDistance d = int (edit_count es) \<and>
      (\<forall>fs. olds fs = a \<longrightarrow> news fs = b \<longrightarrow> edit_count es \<le> edit_count fs)) \<and>
     subseq (lcs d) a \<and> subseq (lcs d) b \<and>
     (\<forall>zs. subseq zs a \<longrightarrow> subseq zs b \<longrightarrow> length zs \<le> length (lcs d))"
proof -
  obtain d es where d: "compose ((Diff_new a b)\<lparr>trivial := t\<rparr>) = Some d" "es = ses_sequence (ses d)"
    "olds es = a" "news es = b" "lcs d = map fst (edits_of SES_COMMON es)" "editDistance d = int (edit_count es)"
    "\<And>fs. olds fs = a \<Longrightarrow> news fs = b \<Longrightarrow> edit_count es \<le> edit_count fs"
    using compose_shortest [OF assms, of t] by metis
  have "length zs \<le> length (lcs d)" if z: "subseq zs a" "subseq zs b" for zs
  proof -
    obtain fs where fs: "olds fs = a" "news fs = b" "length (edits_of SES_COMMON fs) = length zs"
      using subseq_script [OF z] by blast
    then show ?thesis
      using d(7) [OF fs(1,2)] edit_count_common [of es] edit_count_common [of fs] d(3-5) by simp
  qed
  then show ?thesis using d commons_subseq [of es] unfolding Let_def by (intro exI [of _ d]) auto
qed

theorem dtl_shortest_script_witness:
  "\<exists>d. compose ((Diff_new ''axc'' ''ayc'')\<lparr>trivial := False\<rparr>) = Some d \<and>
     editDistance d = int (edit_count (ses_sequence (ses d))) \<and> subseq (lcs d) ''axc''"
  using dtl_shortest_script [of "''axc''" "''ayc''" False] unfolding Let_def by auto


end
