(* ===== verification/Dtl_Merge.thy ===== *)
theory Dtl_Merge
  imports Dtl_Shortest
begin

text \<open>
  The three-way merge of the vendored diff library (extern/dtl-cpp/dtl/Diff3.hpp): the changes from \<open>B\<close> to
  \<open>A\<close> and from \<open>B\<close> to \<open>C\<close> are walked in step. An iterator into a script is the rest of the script. No
  branch of the loop moves when both scripts stand on common elements that differ, so the loop is a partial
  function. The separators \<open>csepabegin\<close>, \<open>csepa\<close> and \<open>csepaend\<close> are never read and have no field here.
\<close>

section \<open>The class\<close>

record 'a Diff3 =
  d3_A :: "'a list"
  d3_B :: "'a list"
  d3_C :: "'a list"
  d3_S :: "'a list"
  diff_ba :: "'a Diff"
  diff_bc :: "'a Diff"
  conflict :: bool

definition Diff3_new :: "'a list \<Rightarrow> 'a list \<Rightarrow> 'a list \<Rightarrow> 'a Diff3" where
  "Diff3_new a b c =
     \<lparr>d3_A = a, d3_B = b, d3_C = c, d3_S = [], diff_ba = Diff_new b a, diff_bc = Diff_new b c, conflict = False\<rparr>"

definition isConflict :: "'a Diff3 \<Rightarrow> bool" where
  "isConflict D = conflict D"

definition getMergedSequence :: "'a Diff3 \<Rightarrow> 'a list" where
  "getMergedSequence D = d3_S D"

definition isEnd :: "'a list \<Rightarrow> bool" where
  "isEnd it \<longleftrightarrow> it = []"

definition forwardUntilEnd :: "'a list \<Rightarrow> 'a list" where
  "forwardUntilEnd it = (if \<not> isEnd it then tl it else it)"

fun addDecentSequence :: "'a sesElem list \<Rightarrow> 'a list \<Rightarrow> 'a list" where
  "addDecentSequence [] seq = seq"
| "addDecentSequence (e # it) seq =
     addDecentSequence it (if etype (snd e) = SES_ADD then seq @ [fst e] else seq)"

fun joinElemVec :: "'a list \<Rightarrow> 'a list \<Rightarrow> 'a list" where
  "joinElemVec s1 [] = s1"
| "joinElemVec s1 (x # s2) = joinElemVec (s1 @ [x]) s2"

text \<open>The inner loop passes equal common elements.\<close>

fun pass_common ::
  "'a sesElem list \<Rightarrow> 'a sesElem list \<Rightarrow> 'a list \<Rightarrow> 'a sesElem list \<times> 'a sesElem list \<times> 'a list" where
  "pass_common (e # ba_it) (f # bc_it) seq =
     (if fst e = fst f \<and> etype (snd e) = SES_COMMON \<and> etype (snd f) = SES_COMMON
      then pass_common ba_it bc_it (seq @ [fst e])
      else (e # ba_it, f # bc_it, seq))"
| "pass_common ba_it bc_it seq = (ba_it, bc_it, seq)"

datatype 'a merge_exit = Conflict | Left_loop "'a sesElem list" "'a sesElem list" "'a list"

partial_function (option) merge_loop ::
  "'a sesElem list \<Rightarrow> 'a sesElem list \<Rightarrow> 'a list \<Rightarrow> 'a merge_exit option" where
  "merge_loop ba_it bc_it seq =
     (if isEnd ba_it \<and> isEnd bc_it then Some (Left_loop ba_it bc_it seq)
      else (case pass_common ba_it bc_it seq of (ba1, bc1, seq1) \<Rightarrow>
        if isEnd ba1 \<or> isEnd bc1 then Some (Left_loop ba1 bc1 seq1)
        else (case (etype (snd (hd ba1)), etype (snd (hd bc1))) of
            (SES_COMMON, SES_DELETE) \<Rightarrow> merge_loop (forwardUntilEnd ba1) (forwardUntilEnd bc1) seq1
          | (SES_COMMON, SES_ADD) \<Rightarrow> merge_loop ba1 (forwardUntilEnd bc1) (seq1 @ [fst (hd bc1)])
          | (SES_DELETE, SES_COMMON) \<Rightarrow> merge_loop (forwardUntilEnd ba1) (forwardUntilEnd bc1) seq1
          | (SES_DELETE, SES_DELETE) \<Rightarrow>
              (if fst (hd ba1) = fst (hd bc1)
               then merge_loop (forwardUntilEnd ba1) (forwardUntilEnd bc1) seq1 else Some Conflict)
          | (SES_DELETE, SES_ADD) \<Rightarrow> Some Conflict
          | (SES_ADD, SES_COMMON) \<Rightarrow> merge_loop (forwardUntilEnd ba1) bc1 (seq1 @ [fst (hd ba1)])
          | (SES_ADD, SES_DELETE) \<Rightarrow> Some Conflict
          | (SES_ADD, SES_ADD) \<Rightarrow>
              (if fst (hd ba1) = fst (hd bc1)
               then merge_loop (forwardUntilEnd ba1) (forwardUntilEnd bc1) (seq1 @ [fst (hd ba1)])
               else Some Conflict)
          | (SES_COMMON, SES_COMMON) \<Rightarrow> merge_loop ba1 bc1 seq1)))"

declare merge_loop.simps [code]

definition merge_impl :: "'a Diff3 \<Rightarrow> ('a list \<times> 'a Diff3) option" where
  "merge_impl D =
     (case merge_loop (ses_sequence (ses (diff_ba D))) (ses_sequence (ses (diff_bc D))) [] of
        None \<Rightarrow> None
      | Some Conflict \<Rightarrow> Some (d3_B D, D\<lparr>conflict := True\<rparr>)
      | Some (Left_loop ba_it bc_it seq) \<Rightarrow>
          Some (if isEnd ba_it then addDecentSequence bc_it seq
                else if isEnd bc_it then addDecentSequence ba_it seq
                else seq, D))"

definition merge :: "'a Diff3 \<Rightarrow> (bool \<times> 'a Diff3) option" where
  "merge D =
     (if editDistance (diff_ba D) = 0
      then (if editDistance (diff_bc D) = 0 then Some (True, D\<lparr>d3_S := d3_B D\<rparr>)
            else Some (True, D\<lparr>d3_S := d3_C D\<rparr>))
      else
       (if editDistance (diff_bc D) = 0 then Some (True, D\<lparr>d3_S := d3_A D\<rparr>)
        else (case merge_impl D of
                None \<Rightarrow> None
              | Some (S, D1) \<Rightarrow>
                  (let D2 = D1\<lparr>d3_S := S\<rparr> in if isConflict D2 then Some (False, D2) else Some (True, D2)))))"

definition compose3 :: "'a Diff3 \<Rightarrow> 'a Diff3 option" where
  "compose3 D =
     (case compose (diff_ba D) of
        None \<Rightarrow> None
      | Some ba \<Rightarrow>
          (case compose (diff_bc D) of
             None \<Rightarrow> None
           | Some bc \<Rightarrow> Some (D\<lparr>diff_ba := ba, diff_bc := bc\<rparr>)))"

section \<open>The reference: insertions between the elements of the common ancestor\<close>

text \<open>A script against \<open>B\<close> as gaps: for each element of \<open>B\<close> what is inserted before it and whether it is kept,
  and what is inserted at the end.\<close>

type_synonym 'a gaps = "('a list \<times> 'a \<times> bool) list \<times> 'a list"

fun gaps_of :: "'a sesElem list \<Rightarrow> 'a gaps" where
  "gaps_of [] = ([], [])"
| "gaps_of (e # es) =
     (case gaps_of es of (gs, l) \<Rightarrow>
        (case etype (snd e) of
           SES_ADD \<Rightarrow>
             (case gs of
                [] \<Rightarrow> ([], fst e # l)
              | (xs, f, k) # gs' \<Rightarrow> ((fst e # xs, f, k) # gs', l))
         | SES_COMMON \<Rightarrow> (([], fst e, True) # gs, l)
         | SES_DELETE \<Rightarrow> (([], fst e, False) # gs, l)))"

text \<open>Insertions into the same gap are merged when one continues the other, and only if the other side has not
  deleted the element that follows.\<close>

fun merge_ins :: "'a list \<Rightarrow> 'a list \<Rightarrow> bool \<Rightarrow> bool \<Rightarrow> 'a list option" where
  "merge_ins [] [] ka kc = Some []"
| "merge_ins (x # xs) [] ka kc = (if kc then Some (x # xs) else None)"
| "merge_ins [] (y # ys) ka kc = (if ka then Some (y # ys) else None)"
| "merge_ins (x # xs) (y # ys) ka kc = (if x = y then map_option (Cons x) (merge_ins xs ys ka kc) else None)"

fun merge_gaps :: "'a gaps \<Rightarrow> 'a gaps \<Rightarrow> 'a list option" where
  "merge_gaps ([], la) ([], lc) = merge_ins la lc True True"
| "merge_gaps ((xs, e, ka) # ga, la) ((ys, f, kc) # gc, lc) =
     (case merge_ins xs ys ka kc of
        None \<Rightarrow> None
      | Some zs \<Rightarrow>
          (case merge_gaps (ga, la) (gc, lc) of
             None \<Rightarrow> None
           | Some r \<Rightarrow> Some (zs @ (if ka \<and> kc then [e] else []) @ r)))"
| "merge_gaps _ _ = None"

section \<open>The loop computes the reference\<close>

lemma merge_loop_end:
  "merge_loop [] bc seq = Some (Left_loop [] bc seq)" "merge_loop ba [] seq = Some (Left_loop ba [] seq)"
  by (cases bc; subst merge_loop.simps; simp add: isEnd_def) (cases ba; subst merge_loop.simps; simp add: isEnd_def)

lemma merge_loop_common:
  assumes "fst e = fst f" "etype (snd e) = SES_COMMON" "etype (snd f) = SES_COMMON"
  shows "merge_loop (e # ba) (f # bc) seq = merge_loop ba bc (seq @ [fst e])"
  using assms
  by (subst (1 2) merge_loop.simps) (cases "isEnd ba \<and> isEnd bc"; simp add: isEnd_def split: prod.splits)

lemma merge_loop_step:
  assumes "etype (snd e) \<noteq> SES_COMMON \<or> etype (snd f) \<noteq> SES_COMMON"
  shows "merge_loop (e # ba) (f # bc) seq =
    (case (etype (snd e), etype (snd f)) of
        (SES_COMMON, SES_DELETE) \<Rightarrow> merge_loop ba bc seq
      | (SES_COMMON, SES_ADD) \<Rightarrow> merge_loop (e # ba) bc (seq @ [fst f])
      | (SES_DELETE, SES_COMMON) \<Rightarrow> merge_loop ba bc seq
      | (SES_DELETE, SES_DELETE) \<Rightarrow> if fst e = fst f then merge_loop ba bc seq else Some Conflict
      | (SES_ADD, SES_COMMON) \<Rightarrow> merge_loop ba (f # bc) (seq @ [fst e])
      | (SES_ADD, SES_ADD) \<Rightarrow> if fst e = fst f then merge_loop ba bc (seq @ [fst e]) else Some Conflict
      | _ \<Rightarrow> Some Conflict)"
  using assms
  by (subst merge_loop.simps) (auto simp: isEnd_def forwardUntilEnd_def split: edit_t.splits)

definition merge_result :: "'a merge_exit \<Rightarrow> 'a list option" where
  "merge_result x =
     (case x of
        Conflict \<Rightarrow> None
      | Left_loop ba bc seq \<Rightarrow>
          Some (if isEnd ba then addDecentSequence bc seq
                else if isEnd bc then addDecentSequence ba seq else seq))"

lemma only_additions:
  "olds es = [] \<Longrightarrow> addDecentSequence es seq = seq @ map fst es \<and> gaps_of es = ([], map fst es)"
  by (induction es arbitrary: seq) (auto simp: spelled_Cons(1) split: if_splits)

lemma merge_ins_Nil [simp]: "merge_ins xs [] ka True = Some xs" "merge_ins [] ys True kc = Some ys"
  by (cases xs; simp) (cases ys; simp)

lemma gaps_of_ADD:
  "etype (snd e) = SES_ADD \<Longrightarrow> gaps_of (e # es) =
     (case gaps_of es of ([], l) \<Rightarrow> ([], fst e # l) | ((xs, f, k) # gs, l) \<Rightarrow> ((fst e # xs, f, k) # gs, l))"
  by (simp split: prod.splits list.splits)

lemma gaps_olds: "map (fst \<circ> snd) (fst (gaps_of es)) = olds es"
  by (induction es) (auto simp: spelled_Cons(1) split: prod.splits edit_t.splits list.splits)

lemma merge_gaps_ADD_ADD:
  assumes "etype (snd e) = SES_ADD" "etype (snd f) = SES_ADD" "olds ba = olds bc"
  shows "merge_gaps (gaps_of (e # ba)) (gaps_of (f # bc)) =
    (if fst e = fst f then map_option (Cons (fst e)) (merge_gaps (gaps_of ba) (gaps_of bc)) else None)"
  using assms gaps_olds [of ba] gaps_olds [of bc]
  by (auto simp: gaps_of_ADD option.map_comp comp_def split: prod.splits list.splits option.splits simp del: gaps_of.simps)


lemma merge_gaps_ADD:
  assumes "etype (snd e) = SES_ADD" "etype (snd f) \<noteq> SES_ADD" "olds ba = olds (f # bc)"
  shows "merge_gaps (gaps_of (e # ba)) (gaps_of (f # bc)) =
      (if etype (snd f) = SES_COMMON
       then map_option (Cons (fst e)) (merge_gaps (gaps_of ba) (gaps_of (f # bc))) else None)"
    and "merge_gaps (gaps_of (f # bc)) (gaps_of (e # ba)) =
      (if etype (snd f) = SES_COMMON
       then map_option (Cons (fst e)) (merge_gaps (gaps_of (f # bc)) (gaps_of ba)) else None)"
  using assms gaps_olds [of ba]
  by (auto simp: gaps_of_ADD option.map_comp comp_def spelled_Cons(1) simp del: gaps_of.simps(2)
      simp: gaps_of.simps(2) [of f] split: prod.splits list.splits option.splits edit_t.splits)

lemma merge_gaps_old:
  assumes "etype (snd e) \<noteq> SES_ADD" "etype (snd f) \<noteq> SES_ADD"
  shows "merge_gaps (gaps_of (e # ba)) (gaps_of (f # bc)) =
    map_option (\<lambda>r. if etype (snd e) = SES_COMMON \<and> etype (snd f) = SES_COMMON then fst e # r else r)
      (merge_gaps (gaps_of ba) (gaps_of bc))"
  using assms by (auto split: prod.splits option.splits edit_t.splits)

lemma merge_loop_gaps:
  "olds ba = olds bc \<Longrightarrow>
     \<exists>x. merge_loop ba bc seq = Some x \<and>
         merge_result x = (case merge_gaps (gaps_of ba) (gaps_of bc) of None \<Rightarrow> None | Some r \<Rightarrow> Some (seq @ r))"
proof (induction "length ba + length bc" arbitrary: ba bc seq rule: less_induct)
  case less
  show ?case
  proof (cases ba)
    case Nil
    then show ?thesis
      using less.prems only_additions [of bc seq] by (simp add: merge_loop_end merge_result_def isEnd_def)
  next
    case ba: (Cons e es)
    show ?thesis
    proof (cases bc)
      case Nil
      then show ?thesis
        using less.prems only_additions [of ba seq] ba by (simp add: merge_loop_end merge_result_def isEnd_def)
    next
      case bc: (Cons f fs)
      have con: "merge_result Conflict = None" by (simp add: merge_result_def)
      note IH = less.hyps [of es fs seq] less.hyps [of es fs "seq @ [fst e]"] less.hyps [of es bc "seq @ [fst e]"]
        less.hyps [of ba fs "seq @ [fst f]"]
      show ?thesis
      proof (cases "etype (snd e)"; cases "etype (snd f)")
      qed (use less.prems IH in \<open>auto simp: ba bc spelled_Cons(1) merge_loop_common merge_loop_step merge_gaps_ADD_ADD
             merge_gaps_ADD merge_gaps_old con simp del: gaps_of.simps(2) split: option.splits\<close>)
    qed
  qed
qed


section \<open>Laws of the merge\<close>

lemma merge_ins_sym: "merge_ins xs ys ka kc = merge_ins ys xs kc ka"
  by (induction xs ys ka kc rule: merge_ins.induct) auto

lemma merge_gaps_sym:
  "map (fst \<circ> snd) (fst g) = map (fst \<circ> snd) (fst h) \<Longrightarrow> merge_gaps g h = merge_gaps h g"
proof (induction g h rule: merge_gaps.induct)
  case (2 xs e ka ga la ys f kc gc lc)
  then show ?case using merge_ins_sym [of xs ys ka kc] by (auto split: option.splits)
qed (auto simp: merge_ins_sym)

lemma merge_gaps_scripts_sym:
  "olds es = olds fs \<Longrightarrow> merge_gaps (gaps_of es) (gaps_of fs) = merge_gaps (gaps_of fs) (gaps_of es)"
  by (rule merge_gaps_sym) (simp add: gaps_olds)

lemma merge_gaps_same: "merge_gaps (gaps_of es) (gaps_of es) = Some (news es)"
proof (induction es)
  case (Cons e es)
  then show ?case
    by (cases "etype (snd e)")
       (simp_all add: merge_gaps_ADD_ADD merge_gaps_old news_def del: gaps_of.simps(2))
qed simp

lemma merge_impl_gaps:
  assumes "olds (ses_sequence (ses (diff_ba D))) = olds (ses_sequence (ses (diff_bc D)))"
  shows "merge_impl D =
    (case merge_gaps (gaps_of (ses_sequence (ses (diff_ba D)))) (gaps_of (ses_sequence (ses (diff_bc D)))) of
       None \<Rightarrow> Some (d3_B D, D\<lparr>conflict := True\<rparr>)
     | Some r \<Rightarrow> Some (r, D))"
proof -
  let ?ba = "ses_sequence (ses (diff_ba D))" and ?bc = "ses_sequence (ses (diff_bc D))"
  obtain x where "merge_loop ?ba ?bc [] = Some x" "merge_result x = merge_gaps (gaps_of ?ba) (gaps_of ?bc)"
    using merge_loop_gaps [OF assms, of "[]"] by (auto split: option.splits)
  then show ?thesis
    by (cases x) (auto simp: merge_impl_def merge_result_def split: option.splits)
qed

definition merge_of :: "'a list \<Rightarrow> 'a list \<Rightarrow> 'a list \<Rightarrow> 'a sesElem list \<Rightarrow> 'a sesElem list \<Rightarrow> 'a list option" where
  "merge_of a b c es fs =
     (if a = b then Some c else if c = b then Some a else merge_gaps (gaps_of es) (gaps_of fs))"

text \<open>The scripts of short sequences.\<close>

lemma compose_plain:
  assumes "(length a + 1) * (length b + 1) < 2000000"
  obtains d where "compose (Diff_new a b) = Some d" "olds (ses_sequence (ses d)) = a"
    "news (ses_sequence (ses d)) = b" "editDistance d = 0 \<longleftrightarrow> a = b"
proof -
  obtain d es where d: "compose ((Diff_new a b)\<lparr>trivial := False\<rparr>) = Some d" "es = ses_sequence (ses d)"
    "olds es = a" "news es = b" "editDistance d = int (edit_count es)"
    "\<And>fs. olds fs = a \<Longrightarrow> news fs = b \<Longrightarrow> edit_count es \<le> edit_count fs"
    using compose_shortest [OF assms] by metis
  have c: "compose (Diff_new a b) = Some d" using d(1) by (simp add: Diff_new_def Let_def)
  have "a = b" if "edit_count es = 0"
  proof -
    have "all_common es" using that by (auto simp: edit_count_def edits_of_def all_common_def filter_empty_conv intro: edit_t.exhaust)
    then show ?thesis using all_common_spelled d(3,4) by fastforce
  qed
  moreover have "edit_count es = 0" if eq: "a = b"
  proof -
    obtain fs where fs: "olds fs = a" "news fs = b" "length (edits_of SES_COMMON fs) = length a"
      using subseq_script [of a a b] eq by auto
    then have "edit_count fs = 0" using edit_count_common [of fs] eq by simp
    then show ?thesis using d(6) [OF fs(1,2)] by simp
  qed
  ultimately have "editDistance d = 0 \<longleftrightarrow> a = b" using d(5) by auto
  then show thesis using that c d(2-4) by blast
qed

lemma merge_runs:
  assumes "olds (ses_sequence (ses (diff_ba D))) = olds (ses_sequence (ses (diff_bc D)))" "conflict D = False"
    and "editDistance (diff_ba D) = 0 \<longleftrightarrow> d3_B D = d3_A D" "editDistance (diff_bc D) = 0 \<longleftrightarrow> d3_B D = d3_C D"
  shows "merge D =
    (case merge_of (d3_A D) (d3_B D) (d3_C D) (ses_sequence (ses (diff_ba D))) (ses_sequence (ses (diff_bc D))) of
       None \<Rightarrow> Some (False, D\<lparr>conflict := True, d3_S := d3_B D\<rparr>)
     | Some r \<Rightarrow> Some (True, D\<lparr>d3_S := r\<rparr>))"
  using assms(2-4) merge_impl_gaps [OF assms(1)]
  by (auto simp: merge_def merge_of_def isConflict_def Let_def split: option.splits)

lemma diff3_runs:
  assumes "compose (Diff_new b a) = Some ba" "compose (Diff_new b c) = Some bc"
    and ba: "olds (ses_sequence (ses ba)) = b" "editDistance ba = 0 \<longleftrightarrow> b = a"
    and bc: "olds (ses_sequence (ses bc)) = b" "editDistance bc = 0 \<longleftrightarrow> b = c"
  obtains D where "compose3 (Diff3_new a b c) = Some D" "conflict D = False"
    "merge D = (case merge_of a b c (ses_sequence (ses ba)) (ses_sequence (ses bc)) of
       None \<Rightarrow> Some (False, D\<lparr>conflict := True, d3_S := b\<rparr>)
     | Some r \<Rightarrow> Some (True, D\<lparr>d3_S := r\<rparr>))"
proof -
  let ?D = "(Diff3_new a b c)\<lparr>diff_ba := ba, diff_bc := bc\<rparr>"
  have D: "diff_ba ?D = ba" "diff_bc ?D = bc" "d3_A ?D = a" "d3_B ?D = b" "d3_C ?D = c" "conflict ?D = False"
    by (simp_all add: Diff3_new_def)
  have "compose3 (Diff3_new a b c) = Some ?D" using assms(1,2) by (simp add: compose3_def Diff3_new_def)
  moreover have "merge ?D = (case merge_of a b c (ses_sequence (ses ba)) (ses_sequence (ses bc)) of
       None \<Rightarrow> Some (False, ?D\<lparr>conflict := True, d3_S := b\<rparr>)
     | Some r \<Rightarrow> Some (True, ?D\<lparr>d3_S := r\<rparr>))"
    using merge_runs [of ?D] ba bc unfolding D by simp
  ultimately show thesis using that D(6) by blast
qed

text \<open>C34: The three-way merge. For sequences below the limit of the search the merge always returns. If only
  one side has changed the ancestor, or both in the same way, the result is that change, without conflict.
  Otherwise the result is the reference merge of the two scripts, gap by gap; where that has none there is
  a conflict, and the ancestor is returned. Exchanging the two sides changes neither result nor verdict.\<close>

theorem diff3_merge_meaning:
  assumes "(length b + 1) * (length a + 1) < 2000000" and "(length b + 1) * (length c + 1) < 2000000"
  shows "\<exists>ba bc D ok M. compose (Diff_new b a) = Some ba \<and> compose (Diff_new b c) = Some bc \<and>
     compose3 (Diff3_new a b c) = Some D \<and> merge D = Some (ok, M) \<and>
     (a = b \<longrightarrow> ok \<and> getMergedSequence M = c) \<and>
     (c = b \<longrightarrow> ok \<and> getMergedSequence M = a) \<and>
     (a = c \<longrightarrow> ok \<and> getMergedSequence M = a) \<and>
     (a \<noteq> b \<longrightarrow> c \<noteq> b \<longrightarrow>
        (case merge_gaps (gaps_of (ses_sequence (ses ba))) (gaps_of (ses_sequence (ses bc))) of
           None \<Rightarrow> \<not> ok
         | Some r \<Rightarrow> ok \<and> getMergedSequence M = r)) \<and>
     (isConflict M \<longleftrightarrow> \<not> ok) \<and> (\<not> ok \<longrightarrow> getMergedSequence M = b) \<and>
     (\<exists>D' M'. compose3 (Diff3_new c b a) = Some D' \<and> merge D' = Some (ok, M') \<and>
        getMergedSequence M' = getMergedSequence M)"
proof -
  obtain ba where ba: "compose (Diff_new b a) = Some ba" "olds (ses_sequence (ses ba)) = b"
      "news (ses_sequence (ses ba)) = a" "editDistance ba = 0 \<longleftrightarrow> b = a" by (rule compose_plain [OF assms(1)])
  obtain bc where bc: "compose (Diff_new b c) = Some bc" "olds (ses_sequence (ses bc)) = b"
      "news (ses_sequence (ses bc)) = c" "editDistance bc = 0 \<longleftrightarrow> b = c" by (rule compose_plain [OF assms(2)])
  let ?es = "ses_sequence (ses ba)" and ?fs = "ses_sequence (ses bc)"
  obtain D where D: "compose3 (Diff3_new a b c) = Some D" "conflict D = False"
      "merge D = (case merge_of a b c ?es ?fs of
         None \<Rightarrow> Some (False, D\<lparr>conflict := True, d3_S := b\<rparr>)
       | Some r \<Rightarrow> Some (True, D\<lparr>d3_S := r\<rparr>))"
    by (rule diff3_runs [OF ba(1) bc(1) ba(2,4) bc(2,4)])
  obtain D' where D': "compose3 (Diff3_new c b a) = Some D'"
      "merge D' = (case merge_of c b a ?fs ?es of
         None \<Rightarrow> Some (False, D'\<lparr>conflict := True, d3_S := b\<rparr>)
       | Some r \<Rightarrow> Some (True, D'\<lparr>d3_S := r\<rparr>))"
    by (rule diff3_runs [OF bc(1) ba(1) bc(2,4) ba(2,4)])
  have sym: "merge_of c b a ?fs ?es = merge_of a b c ?es ?fs"
    using merge_gaps_scripts_sym [of ?es ?fs] ba(2) bc(2) by (auto simp: merge_of_def)
  have same: "merge_of a b a ?es ?es = Some a" using merge_gaps_same [of ?es] ba(3) by (simp add: merge_of_def)
  show ?thesis
  proof (cases "merge_of a b c ?es ?fs")
    case None
    then have "a \<noteq> c" using same ba(1) bc(1) by auto
    with None D D' sym show ?thesis
      using ba(1) bc(1) by (auto simp: getMergedSequence_def isConflict_def merge_of_def split: if_splits)
  next
    case (Some r)
    moreover have "r = a" if "a = c" using same Some that ba(1) bc(1) by auto
    ultimately show ?thesis
      using D D' sym ba(1) bc(1) by (auto simp: getMergedSequence_def isConflict_def merge_of_def split: if_splits)
  qed
qed

text \<open>Changes of different elements are both made.\<close>

theorem diff3_merge_meaning_witness:
  "\<exists>D M. compose3 (Diff3_new ''xbcd'' ''abcd'' ''abcz'') = Some D \<and> merge D = Some (True, M) \<and>
     getMergedSequence M = ''xbcz'' \<and> \<not> isConflict M \<and>
     (\<exists>D' M'. compose3 (Diff3_new ''abcz'' ''abcd'' ''xbcd'') = Some D' \<and> merge D' = Some (True, M') \<and>
        getMergedSequence M' = ''xbcz'')"
proof -
  let ?D = "the (compose3 (Diff3_new ''xbcd'' ''abcd'' ''abcz''))"
  have c: "compose3 (Diff3_new ''xbcd'' ''abcd'' ''abcz'') = Some ?D" by code_simp
  have m: "map_option (\<lambda>(ok, M). (ok, getMergedSequence M)) (merge ?D) = Some (True, ''xbcz'')" by code_simp
  then obtain M where M: "merge ?D = Some (True, M)" "getMergedSequence M = ''xbcz''" by auto
  have small: "(length ''abcd'' + 1) * (length ''xbcd'' + 1) < 2000000"
    "(length ''abcd'' + 1) * (length ''abcz'' + 1) < 2000000" by simp_all
  show ?thesis using diff3_merge_meaning [OF small] c M by auto
qed


end
