(* ===== verification/Dtl_Script.thy ===== *)
theory Dtl_Script
  imports Dtl_Shortest
begin

text \<open>
  The rest of the interface of the vendored diff library: what an edit script says about itself
  (extern/dtl-cpp/dtl/Ses.hpp), the switches and accessors of \<open>Diff\<close>, and the text form of a script,
  written by \<open>printSES\<close> and read by \<open>composeSesFromStream\<close> (Diff.hpp). Elements of a printed script are
  lines of text. Reading past the first character of an empty line, which the reader does, is \<open>None\<close>.
\<close>

section \<open>Scripts (Ses.hpp)\<close>

definition isOnlyAdd :: "'a Ses \<Rightarrow> bool" where
  "isOnlyAdd s = onlyAdd s"

definition isOnlyDelete :: "'a Ses \<Rightarrow> bool" where
  "isOnlyDelete s = onlyDelete s"

definition isOnlyCopy :: "'a Ses \<Rightarrow> bool" where
  "isOnlyCopy s = onlyCopy s"

definition isOnlyOneOperation :: "'a Ses \<Rightarrow> bool" where
  "isOnlyOneOperation s \<longleftrightarrow> isOnlyAdd s \<or> isOnlyDelete s \<or> isOnlyCopy s"

definition isChange :: "'a Ses \<Rightarrow> bool" where
  "isChange s \<longleftrightarrow> \<not> onlyCopy s"

section \<open>Accessors and switches (Diff.hpp)\<close>

definition Diff_deletesFirst :: "'a list \<Rightarrow> 'a list \<Rightarrow> bool \<Rightarrow> 'a Diff" where
  "Diff_deletesFirst a b df = (Diff_new a b)\<lparr>ses := Ses_new df\<rparr>"

definition getEditDistance :: "'a Diff \<Rightarrow> int" where
  "getEditDistance d = editDistance d"

definition getLcsVec :: "'a Diff \<Rightarrow> 'a list" where
  "getLcsVec d = lcs d"

definition getSes :: "'a Diff \<Rightarrow> 'a Ses" where
  "getSes d = ses d"

definition getUniHunks :: "'a Diff \<Rightarrow> 'a uniHunk list" where
  "getUniHunks d = uniHunks d"

definition isHuge :: "'a Diff \<Rightarrow> bool" where
  "isHuge d = huge d"

definition onHuge :: "'a Diff \<Rightarrow> 'a Diff" where
  "onHuge d = d\<lparr>huge := True\<rparr>"

definition offHuge :: "'a Diff \<Rightarrow> 'a Diff" where
  "offHuge d = d\<lparr>huge := False\<rparr>"

definition isUnserious :: "'a Diff \<Rightarrow> bool" where
  "isUnserious d = trivial d"

definition offUnserious :: "'a Diff \<Rightarrow> 'a Diff" where
  "offUnserious d = d\<lparr>trivial := False\<rparr>"

definition onOnlyEditDistance :: "'a Diff \<Rightarrow> 'a Diff" where
  "onOnlyEditDistance d = d\<lparr>editDistanceOnly := True\<rparr>"

text \<open>The newer names of the switches; \<open>enableTrivial\<close> is declared \<open>const\<close> and assigns a member, so it does not
  compile once it is used, and has no definition here.\<close>

definition hugeEnabled :: "'a Diff \<Rightarrow> bool" where
  "hugeEnabled d = huge d"

definition enableHuge :: "'a Diff \<Rightarrow> 'a Diff" where
  "enableHuge d = d\<lparr>huge := True\<rparr>"

definition disableHuge :: "'a Diff \<Rightarrow> 'a Diff" where
  "disableHuge d = d\<lparr>huge := False\<rparr>"

definition trivialEnabled :: "'a Diff \<Rightarrow> bool" where
  "trivialEnabled d = trivial d"

definition disableTrivial :: "'a Diff \<Rightarrow> 'a Diff" where
  "disableTrivial d = d\<lparr>trivial := False\<rparr>"

definition editDistanceOnlyEnabled :: "'a Diff \<Rightarrow> 'a Diff" where
  "editDistanceOnlyEnabled d = d\<lparr>editDistanceOnly := True\<rparr>"

definition wasSwapped :: "'a Diff \<Rightarrow> bool" where
  "wasSwapped d = swapped d"

section \<open>Printing and reading scripts (Diff.hpp)\<close>

definition printSES_of :: "string Ses \<Rightarrow> string \<Rightarrow> string" where
  "printSES_of s out = (let ses_v = ses_sequence s in out @ concat (map (changePrinter id) ses_v))"

definition printSES :: "string Diff \<Rightarrow> string \<Rightarrow> string" where
  "printSES d out = (let ses_v = ses_sequence (getSes d) in out @ concat (map (changePrinter id) ses_v))"

definition printUnifiedFormat :: "string Diff \<Rightarrow> string \<Rightarrow> string" where
  "printUnifiedFormat d out = out @ concat (map (uniHunkPrinter id) (uniHunks d))"

definition printUnifiedFormat_of :: "string uniHunk list \<Rightarrow> string \<Rightarrow> string" where
  "printUnifiedFormat_of hunks out = out @ concat (map (uniHunkPrinter id) hunks)"

fun compose_lines :: "string list \<Rightarrow> int \<Rightarrow> int \<Rightarrow> string Ses \<Rightarrow> string Ses option" where
  "compose_lines [] x_idx y_idx ret = Some ret"
| "compose_lines (line # st) x_idx y_idx ret =
     (if line = [] then None
      else (let mark = take 1 line; e = drop 1 line in
        if mark = SES_MARK SES_DELETE
        then compose_lines st (x_idx + 1) y_idx (ses_addSequence e x_idx 0 SES_DELETE ret)
        else if mark = SES_MARK SES_ADD
        then compose_lines st x_idx (y_idx + 1) (ses_addSequence e y_idx 0 SES_ADD ret)
        else if mark = SES_MARK SES_COMMON
        then compose_lines st (x_idx + 1) (y_idx + 1) (ses_addSequence e x_idx y_idx SES_COMMON ret)
        else compose_lines st x_idx y_idx ret))"

definition composeSesFromStream :: "string \<Rightarrow> string Ses option" where
  "composeSesFromStream st = compose_lines (lines_of st) 1 1 (Ses_new False)"

section \<open>The flags of a script and its order\<close>

text \<open>Any script comes about by a sequence of \<open>addSequence\<close> calls.\<close>

type_synonym 'a ses_call = "'a \<times> int \<times> int \<times> edit_t"

definition call_item :: "'a ses_call \<Rightarrow> 'a sesElem" where
  "call_item c = (case c of (e, b, a, t) \<Rightarrow> (e, \<lparr>beforeIdx = b, afterIdx = a, etype = t\<rparr>))"

definition call_type :: "'a ses_call \<Rightarrow> edit_t" where
  "call_type c = etype (snd (call_item c))"

definition add_call :: "'a ses_call \<Rightarrow> 'a Ses \<Rightarrow> 'a Ses" where
  "add_call c s = (case c of (e, b, a, t) \<Rightarrow> ses_addSequence e b a t s)"

definition add_calls :: "'a ses_call list \<Rightarrow> 'a Ses \<Rightarrow> 'a Ses" where
  "add_calls cs s = fold add_call cs s"

lemma add_calls_simps [simp]: "add_calls [] s = s" "add_calls (cs @ [c]) s = add_call c (add_calls cs s)"
  by (simp_all add: add_calls_def)

lemma add_call_flags:
  "onlyAdd (add_call c s) \<longleftrightarrow> onlyAdd s \<and> call_type c = SES_ADD"
  "onlyDelete (add_call c s) \<longleftrightarrow> onlyDelete s \<and> call_type c = SES_DELETE"
  "onlyCopy (add_call c s) \<longleftrightarrow> onlyCopy s \<and> call_type c = SES_COMMON"
  "deletesFirst (add_call c s) = deletesFirst s"
  by (cases c; cases "call_type c"; simp add: add_call_def call_type_def call_item_def ses_addSequence_def Let_def)+

lemma add_calls_flags:
  "onlyAdd (add_calls cs s) \<longleftrightarrow> onlyAdd s \<and> list_all (\<lambda>c. call_type c = SES_ADD) cs"
  "onlyDelete (add_calls cs s) \<longleftrightarrow> onlyDelete s \<and> list_all (\<lambda>c. call_type c = SES_DELETE) cs"
  "onlyCopy (add_calls cs s) \<longleftrightarrow> onlyCopy s \<and> list_all (\<lambda>c. call_type c = SES_COMMON) cs"
  "deletesFirst (add_calls cs s) = deletesFirst s"
  by (induction cs rule: rev_induct) (auto simp: add_call_flags)

lemma add_calls_in_order:
  "\<not> deletesFirst s \<Longrightarrow> ses_sequence (add_calls cs s) = ses_sequence s @ map call_item cs"
  by (induction cs rule: rev_induct)
     (auto simp: add_call_def call_item_def add_calls_flags split: prod.splits)

text \<open>With \<open>deletesFirst\<close> the deletions since the last common element stand before the insertions.\<close>

definition all_of :: "edit_t \<Rightarrow> 'a sesElem list \<Rightarrow> bool" where
  "all_of t es \<longleftrightarrow> (\<forall>e \<in> set es. etype (snd e) = t)"

definition tidy :: "'a sesElem list \<Rightarrow> bool" where
  "tidy es = successively (\<lambda>e f. \<not> (etype (snd e) = SES_ADD \<and> etype (snd f) = SES_DELETE)) es"

definition tidy_parts :: "'a Ses \<Rightarrow> 'a sesElem list \<Rightarrow> 'a sesElem list \<Rightarrow> 'a sesElem list \<Rightarrow> bool" where
  "tidy_parts s P Ds As \<longleftrightarrow>
     ses_sequence s = P @ Ds @ As \<and> nextDeleteIdx s = length (P @ Ds) \<and> all_of SES_DELETE Ds \<and> all_of SES_ADD As \<and>
     tidy P \<and> (P \<noteq> [] \<longrightarrow> etype (snd (last P)) = SES_COMMON)"

lemma all_of_tidy: "all_of SES_ADD es \<or> all_of SES_DELETE es \<Longrightarrow> tidy es"
  unfolding tidy_def by (induction es rule: induct_list012) (auto simp: all_of_def)

lemma tidy_parts_tidy: "tidy_parts s P Ds As \<Longrightarrow> tidy (ses_sequence s)"
  using all_of_tidy [of Ds] all_of_tidy [of As]
  by (auto simp: tidy_parts_def tidy_def successively_append_iff all_of_def)

lemma all_of_sides:
  "all_of SES_DELETE Ds \<Longrightarrow> olds Ds = map fst Ds \<and> news Ds = []"
  "all_of SES_ADD As \<Longrightarrow> olds As = [] \<and> news As = map fst As"
  using olds_news_const [of Ds] olds_news_const [of As] by (auto simp: all_of_def)

definition ordered :: "'a Ses \<Rightarrow> bool" where
  "ordered s \<longleftrightarrow> (\<exists>P Ds As. tidy_parts s P Ds As)"

lemma add_call_tidy:
  assumes "ordered s" and d: "deletesFirst s"
  shows "ordered (add_call c s) \<and>
    olds (ses_sequence (add_call c s)) = olds (ses_sequence s) @ olds [call_item c] \<and>
    news (ses_sequence (add_call c s)) = news (ses_sequence s) @ news [call_item c]"
proof -
  obtain P Ds As where p: "tidy_parts s P Ds As" using assms(1) by (auto simp: ordered_def)
  obtain e b a t where c: "c = (e, b, a, t)" by (cases c)
  let ?x = "(e, \<lparr>beforeIdx = b, afterIdx = a, etype = t\<rparr>)"
  have x: "call_item c = ?x" by (simp add: call_item_def c)
  have seq: "ses_sequence s = P @ Ds @ As" and parts: "nextDeleteIdx s = length (P @ Ds)" "all_of SES_DELETE Ds"
      "all_of SES_ADD As" "tidy P" "P \<noteq> [] \<Longrightarrow> etype (snd (last P)) = SES_COMMON"
    using p by (auto simp: tidy_parts_def)
  note sides = all_of_sides(1) [OF parts(2)] all_of_sides(2) [OF parts(3)]
  show ?thesis
  proof (cases t)
    case SES_DELETE
    then have s: "ses_sequence (add_call c s) = P @ (Ds @ [?x]) @ As" "nextDeleteIdx (add_call c s) = length (P @ Ds @ [?x])"
      using parts(1) seq d by (simp_all add: add_call_def c ses_addSequence_def insert_at_def)
    then have "tidy_parts (add_call c s) P (Ds @ [?x]) As"
      using parts SES_DELETE by (simp add: tidy_parts_def all_of_def)
    moreover have "olds (P @ (Ds @ [?x]) @ As) = olds (P @ Ds @ As) @ olds [?x]"
        "news (P @ (Ds @ [?x]) @ As) = news (P @ Ds @ As) @ news [?x]"
      using SES_DELETE sides by (simp_all add: spelled_Cons)
    ultimately show ?thesis unfolding s(1) seq x ordered_def by blast
  next
    case SES_ADD
    then have s: "ses_sequence (add_call c s) = P @ Ds @ (As @ [?x])" "nextDeleteIdx (add_call c s) = length (P @ Ds)"
      using parts(1) seq d by (simp_all add: add_call_def c ses_addSequence_def)
    then have "tidy_parts (add_call c s) P Ds (As @ [?x])"
      using parts SES_ADD by (simp add: tidy_parts_def all_of_def)
    moreover have "olds (P @ Ds @ As @ [?x]) = olds (P @ Ds @ As) @ olds [?x]"
        "news (P @ Ds @ As @ [?x]) = news (P @ Ds @ As) @ news [?x]" by simp_all
    ultimately show ?thesis unfolding s(1) seq x ordered_def by blast
  next
    case SES_COMMON
    then have s: "ses_sequence (add_call c s) = ses_sequence s @ [?x]"
        "nextDeleteIdx (add_call c s) = length (ses_sequence s @ [?x])"
      using d by (simp_all add: add_call_def c ses_addSequence_def)
    have "tidy (ses_sequence s @ [?x])"
      using tidy_parts_tidy [OF p] SES_COMMON by (simp add: tidy_def successively_append_iff)
    then have "tidy_parts (add_call c s) (ses_sequence s @ [?x]) [] []"
      using s SES_COMMON by (simp add: tidy_parts_def all_of_def)
    then have "ordered (add_call c s)" unfolding ordered_def by blast
    then show ?thesis using s x by simp
  qed
qed

lemma add_calls_tidy:
  "ordered (add_calls cs (Ses_new True)) \<and>
    olds (ses_sequence (add_calls cs (Ses_new True))) = olds (map call_item cs) \<and>
    news (ses_sequence (add_calls cs (Ses_new True))) = news (map call_item cs)"
proof (induction cs rule: rev_induct)
  case Nil
  have "tidy_parts (Ses_new True) [] [] []" by (simp add: tidy_parts_def Ses_new_def all_of_def tidy_def)
  then have "ordered (Ses_new True)" unfolding ordered_def by blast
  then show ?case by (simp add: Ses_new_def)
next
  case (snoc c cs)
  have "deletesFirst (add_calls cs (Ses_new True))" by (simp add: add_calls_flags Ses_new_def)
  then show ?case using snoc add_call_tidy [of "add_calls cs (Ses_new True)" c] by simp
qed

section \<open>What is printed is read\<close>

lemma compose_lines_script:
  "\<not> deletesFirst ret \<Longrightarrow>
     \<exists>s. compose_lines (map (\<lambda>e. SES_MARK (etype (snd e)) @ fst e) es) x y ret = Some s \<and>
         map (\<lambda>e. (fst e, etype (snd e))) (ses_sequence s) =
           map (\<lambda>e. (fst e, etype (snd e))) (ses_sequence ret @ es)"
proof (induction es arbitrary: x y ret)
  case (Cons e es)
  let ?ls = "map (\<lambda>e. SES_MARK (etype (snd e)) @ fst e) es"
  let ?kinds = "map (\<lambda>e. (fst e, etype (snd e)))"
  obtain x' y' b a where step: "compose_lines (map (\<lambda>e. SES_MARK (etype (snd e)) @ fst e) (e # es)) x y ret =
      compose_lines ?ls x' y' (ses_addSequence (fst e) b a (etype (snd e)) ret)"
    by (cases "etype (snd e)") (simp_all add: SES_MARK_def)
  obtain s where "compose_lines ?ls x' y' (ses_addSequence (fst e) b a (etype (snd e)) ret) = Some s"
      "?kinds (ses_sequence s) = ?kinds (ses_sequence (ses_addSequence (fst e) b a (etype (snd e)) ret) @ es)"
    using Cons.IH [of "ses_addSequence (fst e) b a (etype (snd e)) ret" x' y'] Cons.prems by auto
  with step Cons.prems show ?case by auto
qed simp

lemma printed_lines:
  "(\<And>e. e \<in> set es \<Longrightarrow> NL \<notin> set (fst e)) \<Longrightarrow>
     lines_of (concat (map (changePrinter id) es)) = map (\<lambda>e. SES_MARK (etype (snd e)) @ fst e) es"
proof (induction es)
  case (Cons e es)
  have "NL \<notin> set (SES_MARK (etype (snd e)) @ fst e)"
    using Cons.prems [of e] by (cases "etype (snd e)") (simp_all add: SES_MARK_def)
  then have "lines_of ((SES_MARK (etype (snd e)) @ fst e) @ NL # concat (map (changePrinter id) es)) =
      (SES_MARK (etype (snd e)) @ fst e) # lines_of (concat (map (changePrinter id) es))"
    by (subst getlines_line) simp_all
  moreover have "lines_of (concat (map (changePrinter id) es)) = map (\<lambda>e. SES_MARK (etype (snd e)) @ fst e) es"
    by (rule Cons.IH) (use Cons.prems in simp)
  moreover have "concat (map (changePrinter id) (e # es)) =
      (SES_MARK (etype (snd e)) @ fst e) @ NL # concat (map (changePrinter id) es)" by (simp add: changePrinter_def [of id e])
  ultimately show ?case by (simp only: list.map)
qed simp

text \<open>An edit script keeps what it is told. Built by any sequence of \<open>addSequence\<close> calls, its flags say
  whether all its elements are insertions, all deletions or all common; without \<open>deletesFirst\<close> the elements
  stand in the order of the calls, and with it no insertion stands before a deletion while the two sequences
  the script speaks of are the same. A printed script of texts without newlines is read back with the same
  elements and kinds.\<close>

theorem ses_script_faithful:
  "(isOnlyAdd (add_calls cs (Ses_new df)) \<longleftrightarrow> list_all (\<lambda>c. call_type c = SES_ADD) cs) \<and>
   (isOnlyDelete (add_calls cs (Ses_new df)) \<longleftrightarrow> list_all (\<lambda>c. call_type c = SES_DELETE) cs) \<and>
   (isChange (add_calls cs (Ses_new df)) \<longleftrightarrow> \<not> list_all (\<lambda>c. call_type c = SES_COMMON) cs) \<and>
   ses_sequence (add_calls cs (Ses_new False)) = map call_item cs \<and>
   tidy (ses_sequence (add_calls cs (Ses_new True))) \<and>
   olds (ses_sequence (add_calls cs (Ses_new df))) = olds (map call_item cs) \<and>
   news (ses_sequence (add_calls cs (Ses_new df))) = news (map call_item cs) \<and>
   ((\<forall>e \<in> set (ses_sequence s). NL \<notin> set (fst e)) \<longrightarrow>
      (\<exists>s'. composeSesFromStream (printSES_of s []) = Some s' \<and>
        map (\<lambda>e. (fst e, etype (snd e))) (ses_sequence s') = map (\<lambda>e. (fst e, etype (snd e))) (ses_sequence s)))"
proof -
  have ord: "ses_sequence (add_calls cs (Ses_new False)) = map call_item cs"
    by (simp add: add_calls_in_order Ses_new_def)
  have t: "ordered (add_calls cs (Ses_new True))"
      "olds (ses_sequence (add_calls cs (Ses_new True))) = olds (map call_item cs)"
      "news (ses_sequence (add_calls cs (Ses_new True))) = news (map call_item cs)"
    using add_calls_tidy by blast+
  have "olds (ses_sequence (add_calls cs (Ses_new df))) = olds (map call_item cs) \<and>
      news (ses_sequence (add_calls cs (Ses_new df))) = news (map call_item cs)"
    using ord t(2,3) by (cases df) simp_all
  moreover have "\<exists>s'. composeSesFromStream (printSES_of s []) = Some s' \<and>
        map (\<lambda>e. (fst e, etype (snd e))) (ses_sequence s') = map (\<lambda>e. (fst e, etype (snd e))) (ses_sequence s)"
    if "\<forall>e \<in> set (ses_sequence s). NL \<notin> set (fst e)"
    using compose_lines_script [of "Ses_new False" "ses_sequence s" 1 1] printed_lines [of "ses_sequence s"] that
    by (simp add: composeSesFromStream_def printSES_of_def Ses_new_def)
  ultimately show ?thesis
    using ord t(1) tidy_parts_tidy unfolding ordered_def
    by (auto simp add: isOnlyAdd_def isOnlyDelete_def isChange_def add_calls_flags Ses_new_def)
qed

theorem ses_script_faithful_witness:
  "\<exists>s'. composeSesFromStream (printSES_of (add_calls [(''x'', 1, 0, SES_DELETE), (''y'', 0, 1, SES_ADD)] (Ses_new False)) []) = Some s' \<and>
     map (\<lambda>e. (fst e, etype (snd e))) (ses_sequence s') = [(''x'', SES_DELETE), (''y'', SES_ADD)]"
proof -
  let ?s = "add_calls [(''x'', 1, 0, SES_DELETE), (''y'', 0, 1, SES_ADD)] (Ses_new False)"
  have s: "ses_sequence ?s = map call_item [(''x'', 1, 0, SES_DELETE), (''y'', 0, 1, SES_ADD)]"
    using ses_script_faithful [of "[(''x'', 1, 0, SES_DELETE), (''y'', 0, 1, SES_ADD)]" False ?s] by blast
  then have "\<forall>e \<in> set (ses_sequence ?s). NL \<notin> set (fst e)" by (simp add: call_item_def)
  then show ?thesis
    using ses_script_faithful [of "[]" False ?s] s by (auto simp: call_item_def)
qed

end
