(* ===== verification/String_Compare.thy ===== *)
theory String_Compare
  imports Diff_Printer Dup_Commands Dtl_Unified
begin

text \<open>
  The comparison of texts (libws_diff/stringCompare.cc): a text that a stop expression matches is not
  compared; what the ignore expressions match is removed; what remains is compared character by character,
  line by line (\<open>StringCompareHeader\<close>) or line by line with a break between any two tags
  (\<open>StringCompareBody\<close>). The result is \<open>None\<close> only if the diff library does not return,
  which it always does.
\<close>

record StringCompare =
  sc_mStopRegex :: "string list"
  sc_mIgnoreRegex :: "string list"

definition StringCompare_empty :: StringCompare where
  "StringCompare_empty = \<lparr>sc_mStopRegex = [], sc_mIgnoreRegex = []\<rparr>"

definition sc_addIgnoreRegex :: "ext_lib \<Rightarrow> string \<Rightarrow> StringCompare \<Rightarrow> dup_exception + StringCompare" where
  "sc_addIgnoreRegex E re c =
     (if \<not> regex_ok E re then Inl BadExpression
      else Inr (c\<lparr>sc_mIgnoreRegex := sc_mIgnoreRegex c @ [re]\<rparr>))"

definition sc_addStopRegex :: "ext_lib \<Rightarrow> string \<Rightarrow> StringCompare \<Rightarrow> dup_exception + StringCompare" where
  "sc_addStopRegex E re c =
     (if \<not> regex_ok E re then Inl BadExpression
      else Inr (c\<lparr>sc_mStopRegex := sc_mStopRegex c @ [re]\<rparr>))"

fun add_all :: "(string \<Rightarrow> StringCompare \<Rightarrow> dup_exception + StringCompare) \<Rightarrow> string list \<Rightarrow> StringCompare \<Rightarrow>
    dup_exception + StringCompare" where
  "add_all add [] c = Inr c"
| "add_all add (re # res) c = (case add re c of Inl e \<Rightarrow> Inl e | Inr c' \<Rightarrow> add_all add res c')"

definition StringCompare_new :: "ext_lib \<Rightarrow> string list \<Rightarrow> string list \<Rightarrow> dup_exception + StringCompare" where
  "StringCompare_new E stopRegex ignoreRegex =
     (case add_all (sc_addStopRegex E) stopRegex StringCompare_empty of
        Inl e \<Rightarrow> Inl e
      | Inr c \<Rightarrow> add_all (sc_addIgnoreRegex E) ignoreRegex c)"

definition sc_merge :: "StringCompare \<Rightarrow> StringCompare \<Rightarrow> StringCompare" where
  "sc_merge sc c = c\<lparr>sc_mStopRegex := sc_mStopRegex c @ sc_mStopRegex sc,
                     sc_mIgnoreRegex := sc_mIgnoreRegex c @ sc_mIgnoreRegex sc\<rparr>"

definition ignoreCases :: "ext_lib \<Rightarrow> StringCompare \<Rightarrow> string \<Rightarrow> string" where
  "ignoreCases E c str = foldl (\<lambda>s re. regex_replace E s re []) str (sc_mIgnoreRegex c)"

fun stop_loop :: "ext_lib \<Rightarrow> string list \<Rightarrow> string \<Rightarrow> bool" where
  "stop_loop E [] str \<longleftrightarrow> False"
| "stop_loop E (re # res) str \<longleftrightarrow> (if regex_search E str re \<noteq> None then True else stop_loop E res str)"

definition checkStopRegex :: "ext_lib \<Rightarrow> StringCompare \<Rightarrow> string \<Rightarrow> bool" where
  "checkStopRegex E c str = stop_loop E (sc_mStopRegex c) str"

section \<open>Comparing\<close>

definition vectDiff :: "string list \<Rightarrow> string list \<Rightarrow> (bool \<times> string) option" where
  "vectDiff src dst =
     (case compose (onUnserious (Diff_new src dst)) of
        None \<Rightarrow> None
      | Some d \<Rightarrow>
          (let output = concat (map (uniHunkPrinter id) (uniHunks (composeUnifiedHunks d)))
           in if output = [] then Some (False, output) else Some (True, output)))"

definition sc_retrieveDiff ::
    "ext_lib \<Rightarrow> StringCompare \<Rightarrow> string \<Rightarrow> string \<Rightarrow> string \<Rightarrow> (bool \<times> string) option" where
  "sc_retrieveDiff E c src dst output =
     (if checkStopRegex E c src \<or> checkStopRegex E c dst then Some (False, output)
      else
       (case compose (onUnserious (Diff_new (ignoreCases E c src) (ignoreCases E c dst))) of
          None \<Rightarrow> None
        | Some d \<Rightarrow>
            Some (True, concat (map (customHunkPrinter (\<lambda>ch. [ch])) (uniHunks (composeUnifiedHunks d))))))"

definition header_retrieveDiff ::
    "ext_lib \<Rightarrow> StringCompare \<Rightarrow> string \<Rightarrow> string \<Rightarrow> string \<Rightarrow> (bool \<times> string) option" where
  "header_retrieveDiff E c src dst output =
     (if checkStopRegex E c src \<or> checkStopRegex E c dst then Some (False, output)
      else
       (let linesSrc = split_any_of E (ignoreCases E c src) NL True;
            linesDst = split_any_of E (ignoreCases E c dst) NL True
        in vectDiff linesSrc linesDst))"

text \<open>The end of the overloads with a printer.\<close>

definition print_result :: "ext_lib \<Rightarrow> 'j diff_lib \<Rightarrow> 'j diffPrinter \<Rightarrow> bool \<times> string \<Rightarrow> bool \<times> 'j diffPrinter" where
  "print_result E D printer r =
     (case r of (res, out) \<Rightarrow> (res, if out \<noteq> [] then dp_addFullDiff E D out printer else printer))"

definition header_retrieveDiff_printer ::
    "ext_lib \<Rightarrow> 'j diff_lib \<Rightarrow> StringCompare \<Rightarrow> string \<Rightarrow> string \<Rightarrow> 'j diffPrinter \<Rightarrow> (bool \<times> 'j diffPrinter) option" where
  "header_retrieveDiff_printer E D c src dst printer =
     map_option (print_result E D printer)
       (header_retrieveDiff E c src dst [])"

definition body_retrieveDiff ::
    "ext_lib \<Rightarrow> StringCompare \<Rightarrow> string \<Rightarrow> string \<Rightarrow> string \<Rightarrow> (bool \<times> string) option" where
  "body_retrieveDiff E c src dst output =
     (if checkStopRegex E c src \<or> checkStopRegex E c dst then Some (False, output)
      else
       (let linesSrc = split_any_of E (replace_all E (ignoreCases E c src) ''><'' (''>'' @ [NL] @ ''<'')) NL True;
            linesDst = split_any_of E (replace_all E (ignoreCases E c dst) ''><'' (''>'' @ [NL] @ ''<'')) NL True
        in vectDiff linesSrc linesDst))"

text \<open>The loop over a copied vector: \<open>None\<close> when a stop expression matches an element.\<close>

fun clean_vector :: "ext_lib \<Rightarrow> StringCompare \<Rightarrow> string list \<Rightarrow> string list option" where
  "clean_vector E c [] = Some []"
| "clean_vector E c (s # ss) =
     (if checkStopRegex E c s then None else map_option ((#) (ignoreCases E c s)) (clean_vector E c ss))"

definition body_retrieveDiff_vector ::
    "ext_lib \<Rightarrow> StringCompare \<Rightarrow> string list \<Rightarrow> string list \<Rightarrow> string \<Rightarrow> (bool \<times> string) option" where
  "body_retrieveDiff_vector E c src dst output =
     (case clean_vector E c src of
        None \<Rightarrow> Some (False, output)
      | Some srcCopy \<Rightarrow>
          (case clean_vector E c dst of
             None \<Rightarrow> Some (False, output)
           | Some dstCopy \<Rightarrow> vectDiff srcCopy dstCopy))"

definition body_retrieveDiff_vector_printer ::
    "ext_lib \<Rightarrow> 'j diff_lib \<Rightarrow> StringCompare \<Rightarrow> string list \<Rightarrow> string list \<Rightarrow> 'j diffPrinter \<Rightarrow>
     (bool \<times> 'j diffPrinter) option" where
  "body_retrieveDiff_vector_printer E D c src dst printer =
     map_option (print_result E D printer)
       (body_retrieveDiff_vector E c src dst [])"

definition body_retrieveDiff_printer ::
    "ext_lib \<Rightarrow> 'j diff_lib \<Rightarrow> StringCompare \<Rightarrow> string \<Rightarrow> string \<Rightarrow> 'j diffPrinter \<Rightarrow> (bool \<times> 'j diffPrinter) option" where
  "body_retrieveDiff_printer E D c src dst printer =
     map_option (print_result E D printer)
       (body_retrieveDiff E c src dst [])"

section \<open>What a comparison reports\<close>

lemma printed_empty: "concat (map (uniHunkPrinter pr) hs) = [] \<longleftrightarrow> hs = []"
  by (cases hs) (auto simp: uniHunkPrinter_def hunk_header_def)

lemma custom_printed_empty: "concat (map (customHunkPrinter pr) hs) = [] \<longleftrightarrow> hs = []"
  by (cases hs) (auto simp: customHunkPrinter_def hunk_header_def)

lemma printed_at: "hs \<noteq> [] \<Longrightarrow> CHR ''@'' \<in> set (concat (map (uniHunkPrinter pr) hs))"
  by (cases hs) (auto simp: uniHunkPrinter_def hunk_header_def)

lemma vectDiff_meaning:
  "\<exists>out. vectDiff src dst = Some (src \<noteq> dst, out) \<and> (out = [] \<longleftrightarrow> src = dst) \<and> (src \<noteq> dst \<longrightarrow> CHR ''@'' \<in> set out)"
proof -
  obtain d where "compose (onUnserious (Diff_new src dst)) = Some d" "uniHunks (composeUnifiedHunks d) = [] \<longleftrightarrow> src = dst"
    using hunks_empty_iff by blast
  then show ?thesis using printed_at [of "uniHunks (composeUnifiedHunks d)" id]
    by (simp add: vectDiff_def printed_empty Let_def del: concat_eq_Nil_conv set_concat)
qed

lemma print_result_Nil [simp]: "print_result E D p (b, []) = (b, p)"
  by (simp add: print_result_def)

lemma vectDiff_printed:
  obtains out where "CHR ''@'' \<in> set out"
    "map_option (print_result E D p) (vectDiff a b) =
       (if a = b then Some (False, p) else Some (True, dp_addFullDiff E D out p))"
proof -
  obtain out where "vectDiff a b = Some (a \<noteq> b, out)" "out = [] \<longleftrightarrow> a = b" "a \<noteq> b \<longrightarrow> CHR ''@'' \<in> set out"
    using vectDiff_meaning by blast
  then show thesis using that [of out] that [of "''@''"] by (cases "a = b") (auto simp: print_result_def)
qed

text \<open>The lines that are compared.\<close>

definition cleaned_lines :: "ext_lib \<Rightarrow> StringCompare \<Rightarrow> string \<Rightarrow> string list" where
  "cleaned_lines E c s = split_any_of E (ignoreCases E c s) NL True"

definition body_lines :: "ext_lib \<Rightarrow> StringCompare \<Rightarrow> string \<Rightarrow> string list" where
  "body_lines E c s = split_any_of E (replace_all E (ignoreCases E c s) ''><'' (''>'' @ [NL] @ ''<'')) NL True"

definition stopped :: "ext_lib \<Rightarrow> StringCompare \<Rightarrow> string \<Rightarrow> bool" where
  "stopped E c s \<longleftrightarrow> (\<exists>re \<in> set (sc_mStopRegex c). regex_search E s re \<noteq> None)"

lemma checkStopRegex_stopped: "checkStopRegex E c s \<longleftrightarrow> stopped E c s"
proof -
  have "stop_loop E res s \<longleftrightarrow> (\<exists>re \<in> set res. regex_search E s re \<noteq> None)" for res by (induction res) auto
  then show ?thesis by (simp add: checkStopRegex_def stopped_def)
qed

lemma clean_vector_eq:
  "clean_vector E c ss = (if \<exists>s \<in> set ss. stopped E c s then None else Some (map (ignoreCases E c) ss))"
  by (induction ss) (auto simp: checkStopRegex_stopped)


end
