(* ===== verification/Mod_Compare.thy ===== *)
theory Mod_Compare
  imports Map_Compare String_Compare Apache_Api
begin

text \<open>
  The compare module without its filters: the configuration of a location and the directives of
  mod_compare.cc, the life cycle of the log file, and the writers of response_diff.cc and
  CassandraDiff. What goes out is part of the state: the text of the log file and the messages sent to
  syslog. Whether a file can be opened and whether the mutex in shared memory can be had are arguments.
\<close>

section \<open>Configuration\<close>

record CompareConf =
  mCompBody :: StringCompare
  mCompHeader :: MapCompare
  mLogType :: diffTypeAvailable
  mCompareDisabled :: bool
  mIsActive :: bool
  cc_mDirName :: string

definition CompareConf_new :: "string \<Rightarrow> CompareConf" where
  "CompareConf_new dir =
     \<lparr>mCompBody = StringCompare_empty, mCompHeader = MapCompare_new, mLogType = UTF8JSON,
      mCompareDisabled = False, mIsActive = False, cc_mDirName = dir\<rparr>"

definition cc_merge :: "CompareConf \<Rightarrow> CompareConf \<Rightarrow> CompareConf" where
  "cc_merge cc c =
     (if mIsActive c \<or> mIsActive cc
      then c\<lparr>mCompBody := sc_merge (mCompBody cc) (mCompBody c),
             mCompHeader := mc_merge (mCompHeader cc) (mCompHeader c),
             mLogType := mLogType cc, mCompareDisabled := mCompareDisabled cc,
             mIsActive := mIsActive cc, cc_mDirName := cc_mDirName cc\<rparr>
      else c)"

definition compare_createDirConfig :: "string option \<Rightarrow> CompareConf" where
  "compare_createDirConfig pDirName =
     (case pDirName of None \<Rightarrow> CompareConf_new ''GLOBAL_ROOT'' | Some d \<Rightarrow> CompareConf_new d)"

definition mergeDirConfig :: "CompareConf option \<Rightarrow> CompareConf option \<Rightarrow> CompareConf option" where
  "mergeDirConfig pBase pAdd =
     (case (pBase, pAdd) of (Some lBase, Some lAdd) \<Rightarrow> Some (cc_merge lAdd lBase) | _ \<Rightarrow> None)"

text \<open>A C string argument is \<open>None\<close> for the null pointer. A bad expression raises out of the
  handler: the result is then \<open>Inl\<close>.\<close>

definition strcasecmp_eq :: "string \<Rightarrow> string \<Rightarrow> bool" where
  "strcasecmp_eq a b \<longleftrightarrow> map tolower a = map tolower b"

definition missing :: "string option \<Rightarrow> bool" where
  "missing v \<longleftrightarrow> v = None \<or> v = Some []"

definition setBodyList ::
    "ext_lib \<Rightarrow> string option \<Rightarrow> string option \<Rightarrow> CompareConf \<Rightarrow> dup_exception + (string option \<times> CompareConf)" where
  "setBodyList E pListType pValue c =
     (if missing pValue then Inr (Some ''Missing reg_ex value for the body'', c)
      else if missing pListType then Inr (Some ''Missing the type of list'', c)
      else if strcasecmp_eq ''STOP'' (the pListType)
      then (case sc_addStopRegex E (the pValue) (mCompBody c) of
              Inl e \<Rightarrow> Inl e | Inr b \<Rightarrow> Inr (None, c\<lparr>mCompBody := b\<rparr>))
      else if strcasecmp_eq ''IGNORE'' (the pListType)
      then (case sc_addIgnoreRegex E (the pValue) (mCompBody c) of
              Inl e \<Rightarrow> Inl e | Inr b \<Rightarrow> Inr (None, c\<lparr>mCompBody := b\<rparr>))
      else Inr (Some ''Invalid value for the list type'', c))"

definition setHeaderList ::
    "ext_lib \<Rightarrow> string option \<Rightarrow> string option \<Rightarrow> string option \<Rightarrow> CompareConf \<Rightarrow>
     dup_exception + (string option \<times> CompareConf)" where
  "setHeaderList E pListType pAffectedKey pValue c =
     (if missing pValue then Inr (Some ''Missing reg_ex value for the header'', c)
      else if missing pAffectedKey then Inr (Some ''Missing header value'', c)
      else if missing pListType then Inr (Some ''Missing the type list'', c)
      else if strcasecmp_eq ''STOP'' (the pListType)
      then (case mc_addStopRegex E (the pAffectedKey) (the pValue) (mCompHeader c) of
              Inl e \<Rightarrow> Inl e | Inr h \<Rightarrow> Inr (None, c\<lparr>mCompHeader := h\<rparr>))
      else if strcasecmp_eq ''IGNORE'' (the pListType)
      then (case mc_addIgnoreRegex E (the pAffectedKey) (the pValue) (mCompHeader c) of
              Inl e \<Rightarrow> Inl e | Inr h \<Rightarrow> Inr (None, c\<lparr>mCompHeader := h\<rparr>))
      else Inr (Some ''Invalid value for the list type'', c))"

definition setDisableLibwsdiff :: "string \<Rightarrow> CompareConf \<Rightarrow> string option \<times> CompareConf" where
  "setDisableLibwsdiff pValue c = (None, c\<lparr>mCompareDisabled := (pValue = ''1'' \<or> pValue = ''true'')\<rparr>)"

definition setDiffLogType :: "string \<Rightarrow> CompareConf \<Rightarrow> string option \<times> CompareConf" where
  "setDiffLogType pValue c =
     (let c1 = c\<lparr>mCompareDisabled := False\<rparr> in
      if strcasecmp_eq pValue ''archive'' then (None, c1\<lparr>mCompareDisabled := True\<rparr>)
      else if strcasecmp_eq pValue ''multiline'' then (None, c1\<lparr>mLogType := MULTILINE\<rparr>)
      else if strcasecmp_eq pValue ''simplejson'' then (None, c1\<lparr>mLogType := JSON\<rparr>)
      else if strcasecmp_eq pValue ''utf8json'' then (None, c1\<lparr>mLogType := UTF8JSON\<rparr>)
      else (Some ''Wrong DiffLogType, must be simplejson|utf8json|multiline'', c1))"

text \<open>\<open>rewrite\<close>: whether mod_rewrite is linked.\<close>

definition setCompare :: "bool \<Rightarrow> string option \<Rightarrow> CompareConf \<Rightarrow> string option \<times> CompareConf" where
  "setCompare rewrite pValue c =
     (let c1 = (if pValue \<noteq> None \<and> strcasecmp_eq (the pValue) ''off'' then c\<lparr>mIsActive := False\<rparr>
                else c\<lparr>mIsActive := True\<rparr>)
      in if \<not> rewrite
         then (Some ([CHR 0x27] @ ''mod_rewrite'' @ [CHR 0x27] @ '' is not loaded, Enable mod_rewrite to use mod_compare''), c1)
         else (None, c1))"

text \<open>Whether the output filters are added to a request; \<open>None\<close> is the failed assertion.\<close>

definition insertOutputFilter :: "CompareConf option \<Rightarrow> bool option" where
  "insertOutputFilter conf = map_option mIsActive conf"

definition insertOutputFilter2 :: "CompareConf option \<Rightarrow> bool option" where
  "insertOutputFilter2 conf = map_option mIsActive conf"

section \<open>Global state and the log file\<close>

record FieldInfo =
  mName :: string
  mMultivalueKey :: string
  mDBValue :: string
  mReqValue :: string

record compare_state =
  gWriteInFile :: bool
  gFilePath :: string
  gLogFacility :: string
  gFile_open :: bool
  gFile :: string
    \<comment> \<open>what has been written to the file\<close>
  syslog :: "(nat \<times> string) list"
    \<comment> \<open>the messages logged with the level error, oldest first\<close>
  differences :: "(string \<times> FieldInfo) list"
    \<comment> \<open>the multimap of \<open>CassandraDiff::Differences\<close>, entries of one key in the order of insertion\<close>

definition compare_globals :: compare_state where
  "compare_globals = \<lparr>gWriteInFile = True, gFilePath = ''/var/log/apache2/compare_diff.log'', gLogFacility = [],
     gFile_open = False, gFile = [], syslog = [], differences = []\<rparr>"

definition log_error :: "nat \<Rightarrow> string \<Rightarrow> compare_state \<Rightarrow> compare_state" where
  "log_error code msg s = s\<lparr>syslog := syslog s @ [(code, msg)]\<rparr>"

text \<open>The value is dereferenced before it is tested: a null value is undefined, here \<open>Inl\<close>.\<close>

definition setCompareLog ::
    "string option \<Rightarrow> string option \<Rightarrow> compare_state \<Rightarrow> unit + (string option \<times> compare_state)" where
  "setCompareLog pType pValue s =
     (if pType = None then Inr (Some ''Missing log type'', s)
      else (case pValue of
        None \<Rightarrow> Inl ()
      | Some v \<Rightarrow>
          if v = [] then Inr (Some ''Missing log type'', s)
          else if strcasecmp_eq ''FILE'' (the pType) then Inr (None, s\<lparr>gWriteInFile := True, gFilePath := v\<rparr>)
          else if strcasecmp_eq ''SYSLOG'' (the pType) then Inr (None, s\<lparr>gLogFacility := v, gWriteInFile := False\<rparr>)
          else Inr (Some ''Invalid value for the log type'', s)))"

definition closeLogFile :: "compare_state \<Rightarrow> apr_status \<times> compare_state" where
  "closeLogFile s = (APR_SUCCESS, s\<lparr>gFile_open := False\<rparr>)"

text \<open>\<open>opens\<close>: whether opening succeeds; \<open>chown_ok\<close>: whether changing the owner does,
  which is only logged, here without the arguments of the message. A file that is open already stays open; the
  failure flags of the stream are not part of the state.\<close>

definition openLogFile :: "bool \<Rightarrow> bool \<Rightarrow> compare_state \<Rightarrow> apr_status \<times> compare_state" where
  "openLogFile opens chown_ok s =
     (if \<not> (gFile_open s \<or> opens) then (400, log_error 43 ''[COMPARE] Couldn't open correctly the file'' s)
      else (let s1 = (if \<not> chown_ok then log_error 528 ''[COMPARE] Failed to change ownership'' s else s)
            in (APR_SUCCESS, s1\<lparr>gFile_open := False\<rparr>)))"

definition compare_postConfig :: "bool \<Rightarrow> bool \<Rightarrow> compare_state \<Rightarrow> apr_status \<times> compare_state" where
  "compare_postConfig opens chown_ok s =
     (if \<not> gWriteInFile s then (APR_SUCCESS, s) else openLogFile opens chown_ok s)"

definition compare_childInit :: "bool \<Rightarrow> compare_state \<Rightarrow> compare_state" where
  "compare_childInit opens s =
     (if gWriteInFile s
      then (if gFile_open s \<or> opens then s\<lparr>gFile_open := True\<rparr>
            else log_error 43 ''[COMPARE] Couldn't open correctly the file'' s)
      else s)"


section \<open>Writing\<close>

definition LOGMAXSIZE :: int where
  "LOGMAXSIZE = 65536"

text \<open>\<open>map2string\<close>\<close>

definition map2string :: "mapStrings \<Rightarrow> string \<Rightarrow> string" where
  "map2string m pString = foldl (\<lambda>s (k, v). s @ k @ '': '' @ v @ [NL]) pString m"

text \<open>The loop of \<open>writeInFacility\<close>, from position \<open>i\<close> on with the current split size.\<close>

function facility_loop :: "string \<Rightarrow> int \<Rightarrow> int \<Rightarrow> int \<Rightarrow> compare_state \<Rightarrow> compare_state" where
  "facility_loop diff stringLength i lSplitSize s =
     (if 0 \<le> i \<and> i < stringLength \<and> 0 < lSplitSize
      then (let sz = (if i + lSplitSize > stringLength then stringLength - i else lSplitSize)
            in facility_loop diff stringLength (i + sz) sz
                 (log_error 12 (c_str (take (nat sz) (drop (nat i) diff))) s))
      else s)"
  by pat_completeness auto
termination by (relation "measure (\<lambda>(diff, n, i, sz, s). nat (n - i))") (auto simp: Let_def)

declare facility_loop.simps [simp del]

definition writeInFacility :: "string \<Rightarrow> compare_state \<Rightarrow> compare_state" where
  "writeInFacility pDiffLog s = facility_loop pDiffLog (to_int32 (int (length pDiffLog))) 0 LOGMAXSIZE s"

text \<open>\<open>mutex\<close>: whether \<open>getGlobalMutex\<close> returns one.\<close>

definition write_file :: "bool \<Rightarrow> string \<Rightarrow> compare_state \<Rightarrow> compare_state" where
  "write_file mutex text s =
     (if gFile_open s
      then (if \<not> mutex then log_error 12 ''[COMPARE] Cannot write differences ! Mutex not initialized'' s
            else s\<lparr>gFile := gFile s @ text\<rparr>)
      else log_error 12 ''[COMPARE] File not correctly opened'' s)"

text \<open>What boost serialization writes for the members \<open>RequestInfo::serialize\<close> names is a parameter,
  \<open>archive\<close>.\<close>

datatype archive_item = AString string | AMap mapStrings

definition RequestInfo_serialize :: "RequestInfo \<Rightarrow> archive_item list" where
  "RequestInfo_serialize r =
     [AString (mRequest r), AMap (mReqHeader r), AString (mReqBody r), AMap (mResponseHeader r),
      AString (mResponseBody r), AMap (mDupResponseHeader r), AString (mDupResponseBody r)]"

definition writeSerializedRequest ::
    "(archive_item list \<Rightarrow> string) \<Rightarrow> bool \<Rightarrow> RequestInfo \<Rightarrow> compare_state \<Rightarrow> compare_state" where
  "writeSerializedRequest archive mutex req s =
     (if \<not> gWriteInFile s then writeInFacility (archive (RequestInfo_serialize req)) s
      else write_file mutex (archive (RequestInfo_serialize req)) s)"

section \<open>Cassandra differences\<close>

definition checkCassandraDiff :: "string \<Rightarrow> compare_state \<Rightarrow> bool" where
  "checkCassandraDiff pUniqueID s \<longleftrightarrow> filter (\<lambda>e. fst e = pUniqueID) (differences s) \<noteq> []"

fun add_cassandra :: "'j diff_lib \<Rightarrow> FieldInfo list \<Rightarrow> 'j diffPrinter \<Rightarrow> 'j diffPrinter option" where
  "add_cassandra D [] p = Some p"
| "add_cassandra D (f # fs) p =
     (case dp_addCassandraDiff D (mName f) (mMultivalueKey f) (mDBValue f) (mReqValue f) p of
        None \<Rightarrow> None
      | Some p' \<Rightarrow> add_cassandra D fs p')"

definition writeCassandraDiff ::
    "'j diff_lib \<Rightarrow> string \<Rightarrow> 'j diffPrinter \<Rightarrow> compare_state \<Rightarrow> (bool \<times> 'j diffPrinter \<times> compare_state) option" where
  "writeCassandraDiff D pUniqueID printer s =
     (let range = filter (\<lambda>e. fst e = pUniqueID) (differences s) in
      if range = [] then Some (False, printer, s)
      else (case add_cassandra D (map snd range) printer of
              None \<Rightarrow> None
            | Some p \<Rightarrow> Some (True, p, s\<lparr>differences := filter (\<lambda>e. fst e \<noteq> pUniqueID) (differences s)\<rparr>)))"

text \<open>The stream operator of \<open>FieldInfo\<close>.\<close>

definition FieldInfo_print :: "FieldInfo \<Rightarrow> string" where
  "FieldInfo_print f =
     ''Field name in the db : '' @ quoted (mName f) @ [NL] @
     ''Multivalue/Collection index/key : '' @ quoted (mMultivalueKey f) @ [NL] @
     ''Value retrieved in Database : '' @ quoted (mDBValue f) @ [NL] @
     ''Value about to be set from Request : '' @ quoted (mReqValue f) @ [NL]"

section \<open>Writing differences\<close>

text \<open>What can go wrong: a conversion whose exception nothing catches, the last character of an empty
  string, a loop that does not end.\<close>

datatype compare_error = UncaughtBadCast | EmptyRequest | NotReturning

definition add_times :: "ext_lib \<Rightarrow> 'j diff_lib \<Rightarrow> int \<Rightarrow> string \<Rightarrow> RequestInfo \<Rightarrow> 'j diffPrinter \<times> compare_state \<Rightarrow>
    compare_error + ('j diffPrinter \<times> compare_state)" where
  "add_times E D t today r ps =
     (case ps of (p, s) \<Rightarrow>
        let p1 = (if t > 0 then dp_addInfo_double D ''ElapsedTime'' t p else p);
            it = map_find (mReqHeader r) ''ELAPSED_TIME_BY_DUP'';
            (p2, s2) = (case it of
                None \<Rightarrow> (p1, s)
              | Some v \<Rightarrow>
                  (case lexical_int E v of
                     None \<Rightarrow> (p1, log_error 12 (''[COMPARE] Failed to cast ELAPSED_TIME_BY_DUP: '' @ c_str v @ '' to an int'') s)
                   | Some e \<Rightarrow> (dp_addRuntime E D ''DIFF'' (e - getElapsedTimeMS r) p1, s)));
            p3 = dp_addInfo D ''Date'' today p2
        in case it of
             None \<Rightarrow> Inr (dp_addRuntime E D ''COMP'' (getElapsedTimeMS r) p3, s2)
           | Some v \<Rightarrow>
               (case lexical_int E v of
                  None \<Rightarrow> Inl UncaughtBadCast
                | Some e \<Rightarrow>
                    Inr (dp_addRuntime E D ''COMP'' (getElapsedTimeMS r) (dp_addRuntime E D ''DUP'' e p3), s2)))"

definition add_request :: "ext_lib \<Rightarrow> 'j diff_lib \<Rightarrow> RequestInfo \<Rightarrow> 'j diffPrinter \<Rightarrow> 'j diffPrinter" where
  "add_request E D r p =
     (let p1 = (if last (mRequest r) = CHR ''?'' then dp_addRequestUri E D (mRequest r) (mReqBody r) p
                else (let q = dp_addRequestUri E D (mRequest r) [] p
                      in if mReqBody r \<noteq> [] then dp_addRequestBody D (mReqBody r) q else q));
          p2 = foldl (\<lambda>q (k, v). dp_addRequestHeader E D k v q) p1 (mReqHeader r)
      in dp_addStatus E D ''COMP'' (mDupResponseHttpStatus r) (dp_addStatus E D ''DUP'' (mReqHttpStatus r) p2))"

definition write_diff :: "ext_lib \<Rightarrow> bool \<Rightarrow> diffTypeAvailable \<Rightarrow> string \<Rightarrow> compare_state \<Rightarrow> compare_state" where
  "write_diff E mutex type res s =
     (if \<not> gWriteInFile s
      then (if type = MULTILINE
            then (if \<not> mutex then log_error 12 ''[COMPARE] Cannot write differences ! Mutex not initialized'' s
                  else fold writeInFacility (split_any_of E res NL False) s)
            else log_error 12 (c_str res) s)
      else write_file mutex res s)"

definition writeDifferences ::
    "ext_lib \<Rightarrow> 'j diff_lib \<Rightarrow> bool \<Rightarrow> int \<Rightarrow> string \<Rightarrow> RequestInfo \<Rightarrow> 'j diffPrinter \<Rightarrow> compare_state \<Rightarrow>
     compare_error + compare_state" where
  "writeDifferences E D mutex t today r printer s =
     (case add_times E D t today r (printer, s) of
        Inl e \<Rightarrow> Inl e
      | Inr (p1, s1) \<Rightarrow>
          if mRequest r = [] then Inl EmptyRequest
          else (case writeCassandraDiff D (mId r) (add_request E D r p1) s1 of
            None \<Rightarrow> Inl NotReturning
          | Some (cassDiff, p2, s2) \<Rightarrow>
              (case dp_retrieveDiff D [] p2 of
                 (diff, res) \<Rightarrow>
                   if \<not> cassDiff \<and> \<not> diff then Inr s2
                   else Inr (write_diff E mutex (getPrinterType p2) res s2))))"

end
