(* ===== verification/Compare_Config.thy ===== *)
theory Compare_Config
  imports Mod_Compare
begin

text \<open>
  Reading the configuration of mod_compare: the table of directives (mod_compare.cc, \<open>gCmds\<close>) and what the directives of
  a location leave in its configuration.
\<close>

section \<open>The table of directives\<close>

datatype compare_directive =
    CompareBody string string | BodyList string string
  | CompareHeader string string string | HeaderList string string string
  | Compare | CompareLog string string | CompareLogType string | DisableLibwsdiff string

text \<open>\<open>junk\<close> is what the handler of \<open>Compare\<close> finds as its third argument, which is not passed. The arguments
  Apache passes to the other handlers are never null.\<close>

fun compare_gCmds ::
    "ext_lib \<Rightarrow> bool \<Rightarrow> string option \<Rightarrow> compare_directive \<Rightarrow> CompareConf \<times> compare_state \<Rightarrow>
     dup_exception + (string option \<times> CompareConf \<times> compare_state)" where
  "compare_gCmds E rewrite junk (CompareBody a b) (c, s) =
     map_sum id (\<lambda>(msg, c'). (msg, c', s)) (setBodyList E (Some a) (Some b) c)"
| "compare_gCmds E rewrite junk (BodyList a b) (c, s) =
     map_sum id (\<lambda>(msg, c'). (msg, c', s)) (setBodyList E (Some a) (Some b) c)"
| "compare_gCmds E rewrite junk (CompareHeader a k b) (c, s) =
     map_sum id (\<lambda>(msg, c'). (msg, c', s)) (setHeaderList E (Some a) (Some k) (Some b) c)"
| "compare_gCmds E rewrite junk (HeaderList a k b) (c, s) =
     map_sum id (\<lambda>(msg, c'). (msg, c', s)) (setHeaderList E (Some a) (Some k) (Some b) c)"
| "compare_gCmds E rewrite junk Compare (c, s) =
     (case setCompare rewrite junk c of (msg, c') \<Rightarrow> Inr (msg, c', s))"
| "compare_gCmds E rewrite junk (CompareLog a b) (c, s) =
     (case setCompareLog (Some a) (Some b) s of Inl u \<Rightarrow> Inr (None, c, s) | Inr (msg, s') \<Rightarrow> Inr (msg, c, s'))"
| "compare_gCmds E rewrite junk (CompareLogType a) (c, s) =
     (case setDiffLogType a c of (msg, c') \<Rightarrow> Inr (msg, c', s))"
| "compare_gCmds E rewrite junk (DisableLibwsdiff a) (c, s) =
     (case setDisableLibwsdiff a c of (msg, c') \<Rightarrow> Inr (msg, c', s))"

text \<open>Apache reads the directives of a location one after the other and stops at the first message; an exception nothing catches
  ends the server. \<open>None\<close> stands for both.\<close>

fun compare_config_run ::
    "ext_lib \<Rightarrow> bool \<Rightarrow> string option \<Rightarrow> compare_directive list \<Rightarrow> CompareConf \<times> compare_state \<Rightarrow>
     (CompareConf \<times> compare_state) option" where
  "compare_config_run E rewrite junk [] cs = Some cs"
| "compare_config_run E rewrite junk (d # ds) cs =
     (case compare_gCmds E rewrite junk d cs of
        Inl e \<Rightarrow> None
      | Inr (Some msg, cs') \<Rightarrow> None
      | Inr (None, cs') \<Rightarrow> compare_config_run E rewrite junk ds cs')"

section \<open>What the directives ask for\<close>

fun body_regex :: "string \<Rightarrow> compare_directive \<Rightarrow> string list" where
  "body_regex ty (CompareBody a b) = (if strcasecmp_eq ty a then [b] else [])"
| "body_regex ty (BodyList a b) = (if strcasecmp_eq ty a then [b] else [])"
| "body_regex ty _ = []"

fun header_regex :: "string \<Rightarrow> compare_directive \<Rightarrow> key_val_list" where
  "header_regex ty (CompareHeader a k b) = (if strcasecmp_eq ty a then [(k, b)] else [])"
| "header_regex ty (HeaderList a k b) = (if strcasecmp_eq ty a then [(k, b)] else [])"
| "header_regex ty _ = []"

definition body_regexes :: "string \<Rightarrow> compare_directive list \<Rightarrow> string list" where
  "body_regexes ty ds = concat (map (body_regex ty) ds)"

definition header_regexes :: "string \<Rightarrow> compare_directive list \<Rightarrow> key_val_list" where
  "header_regexes ty ds = concat (map (header_regex ty) ds)"

section \<open>What an accepted configuration holds\<close>

lemma stop_or_ignore: "strcasecmp_eq ''STOP'' t \<Longrightarrow> \<not> strcasecmp_eq ''IGNORE'' t"
proof
  assume "strcasecmp_eq ''STOP'' t" "strcasecmp_eq ''IGNORE'' t"
  then have "map tolower ''STOP'' = map tolower ''IGNORE''" by (simp add: strcasecmp_eq_def)
  then show False by (simp add: tolower_def)
qed

text \<open>One accepted directive.\<close>

definition adds :: "ext_lib \<Rightarrow> CompareConf \<Rightarrow> compare_directive \<Rightarrow> CompareConf \<Rightarrow> bool" where
  "adds E c d c' \<longleftrightarrow>
     sc_mStopRegex (mCompBody c') = sc_mStopRegex (mCompBody c) @ body_regex ''STOP'' d \<and>
     sc_mIgnoreRegex (mCompBody c') = sc_mIgnoreRegex (mCompBody c) @ body_regex ''IGNORE'' d \<and>
     mc_mStopRegex (mCompHeader c') = insert_range (mc_mStopRegex (mCompHeader c)) (header_regex ''STOP'' d) \<and>
     mc_mIgnoreRegex (mCompHeader c') = insert_range (mc_mIgnoreRegex (mCompHeader c)) (header_regex ''IGNORE'' d) \<and>
     list_all (regex_ok E) (body_regex ''STOP'' d @ body_regex ''IGNORE'' d @
       map snd (header_regex ''STOP'' d @ header_regex ''IGNORE'' d)) \<and>
     mIsActive c' = (mIsActive c \<or> d = Compare)"

lemma setBodyList_adds:
  assumes "setBodyList E (Some a) (Some b) c = Inr (None, c')"
  shows "adds E c (CompareBody a b) c'" "adds E c (BodyList a b) c'"
  using assms stop_or_ignore [of a]
  by (auto simp: setBodyList_def adds_def sc_addStopRegex_def sc_addIgnoreRegex_def insert_range_def
      split: if_splits sum.splits)

lemma setHeaderList_adds:
  assumes "setHeaderList E (Some a) (Some k) (Some b) c = Inr (None, c')"
  shows "adds E c (CompareHeader a k b) c'" "adds E c (HeaderList a k b) c'"
  using assms stop_or_ignore [of a]
  by (auto simp: setHeaderList_def adds_def mc_addStopRegex_def mc_addIgnoreRegex_def insert_range_def
      split: if_splits sum.splits)

lemma directive_adds:
  assumes "compare_gCmds E rewrite junk d (c, s) = Inr (None, c', s')" "\<not> (\<exists>v. junk = Some v \<and> strcasecmp_eq v ''off'')"
  shows "adds E c d c'"
proof (cases d)
  case (CompareBody a b)
  then show ?thesis using assms(1) setBodyList_adds(1) by (cases "setBodyList E (Some a) (Some b) c") auto
next
  case (BodyList a b)
  then show ?thesis using assms(1) setBodyList_adds(2) by (cases "setBodyList E (Some a) (Some b) c") auto
next
  case (CompareHeader a k b)
  then show ?thesis using assms(1) setHeaderList_adds(1) by (cases "setHeaderList E (Some a) (Some k) (Some b) c") auto
next
  case (HeaderList a k b)
  then show ?thesis using assms(1) setHeaderList_adds(2) by (cases "setHeaderList E (Some a) (Some k) (Some b) c") auto
next
  case Compare
  then show ?thesis using assms by (auto simp: setCompare_def adds_def insert_range_def Let_def split: if_splits)
next
  case (CompareLog a b)
  then show ?thesis using assms(1) by (auto simp: adds_def insert_range_def split: sum.splits)
next
  case (CompareLogType a)
  then show ?thesis using assms(1) by (auto simp: setDiffLogType_def adds_def insert_range_def Let_def split: if_splits)
next
  case (DisableLibwsdiff a)
  then show ?thesis using assms(1) by (auto simp: setDisableLibwsdiff_def adds_def insert_range_def)
qed

lemma insert_range_append: "insert_range (insert_range m xs) ys = insert_range m (xs @ ys)"
  by (simp add: insert_range_def)

lemma insert_range_wf: "map_wf m \<Longrightarrow> map_wf (insert_range m kvs)"
  unfolding insert_range_def by (induction kvs arbitrary: m) auto

lemma find_insert_range:
  "map_wf m \<Longrightarrow> map_find (insert_range m kvs) k = (case map_find m k of None \<Rightarrow> map_of kvs k | Some v \<Rightarrow> Some v)"
proof (induction kvs arbitrary: m)
  case Nil
  then show ?case by (simp add: insert_range_def split: option.split)
next
  case (Cons kv kvs)
  obtain a b where kv: "kv = (a, b)" by (cases kv)
  have "insert_range m (kv # kvs) = insert_range (map_insert a b m) kvs" by (simp add: insert_range_def kv)
  then show ?case using Cons by (auto simp: kv map_insert_def split: option.splits)
qed

lemma run_adds:
  assumes "compare_config_run E rewrite junk ds (c, s) = Some (c', s')"
    and "\<not> (\<exists>v. junk = Some v \<and> strcasecmp_eq v ''off'')"
  shows "sc_mStopRegex (mCompBody c') = sc_mStopRegex (mCompBody c) @ body_regexes ''STOP'' ds \<and>
    sc_mIgnoreRegex (mCompBody c') = sc_mIgnoreRegex (mCompBody c) @ body_regexes ''IGNORE'' ds \<and>
    mc_mStopRegex (mCompHeader c') = insert_range (mc_mStopRegex (mCompHeader c)) (header_regexes ''STOP'' ds) \<and>
    mc_mIgnoreRegex (mCompHeader c') = insert_range (mc_mIgnoreRegex (mCompHeader c)) (header_regexes ''IGNORE'' ds) \<and>
    list_all (regex_ok E) (body_regexes ''STOP'' ds @ body_regexes ''IGNORE'' ds @
      map snd (header_regexes ''STOP'' ds @ header_regexes ''IGNORE'' ds)) \<and>
    mIsActive c' = (mIsActive c \<or> Compare \<in> set ds)"
  using assms(1)
proof (induction ds arbitrary: c s)
  case Nil
  then show ?case by (simp add: body_regexes_def header_regexes_def insert_range_def)
next
  case (Cons d ds)
  obtain c1 s1 where d: "compare_gCmds E rewrite junk d (c, s) = Inr (None, c1, s1)"
      and ds: "compare_config_run E rewrite junk ds (c1, s1) = Some (c', s')"
    using Cons.prems by (auto split: sum.splits option.splits prod.splits)
  have "adds E c d c1" by (rule directive_adds [OF d assms(2)])
  then show ?case
    using Cons.IH [OF ds] by (auto simp: adds_def body_regexes_def header_regexes_def insert_range_append)
qed

text \<open>C21: what a location of mod_compare does after its directives have been accepted: the expressions for the body are
  those of the directives, in their order; for a header only the first expression of each kind counts, later ones for the same
  header are dropped without a message; every expression is one the library accepts; and the location is active exactly if it
  has the directive \<open>Compare\<close>, provided the argument its handler reads, which nothing passes, is not the word off.\<close>

theorem compare_configuration_meaning:
  assumes "compare_config_run E rewrite junk ds (CompareConf_new dir, s) = Some (conf, s')"
    and "\<not> (\<exists>v. junk = Some v \<and> strcasecmp_eq v ''off'')"
  shows "sc_mStopRegex (mCompBody conf) = body_regexes ''STOP'' ds \<and>
    sc_mIgnoreRegex (mCompBody conf) = body_regexes ''IGNORE'' ds \<and>
    (\<forall>k. map_find (mc_mStopRegex (mCompHeader conf)) k = map_of (header_regexes ''STOP'' ds) k) \<and>
    (\<forall>k. map_find (mc_mIgnoreRegex (mCompHeader conf)) k = map_of (header_regexes ''IGNORE'' ds) k) \<and>
    list_all (regex_ok E) (body_regexes ''STOP'' ds @ body_regexes ''IGNORE'' ds @
      map snd (header_regexes ''STOP'' ds @ header_regexes ''IGNORE'' ds)) \<and>
    (mIsActive conf \<longleftrightarrow> Compare \<in> set ds)"
  using run_adds [OF assms]
  by (simp add: CompareConf_new_def StringCompare_empty_def MapCompare_new_def find_insert_range)

theorem compare_configuration_meaning_witness:
  "\<exists>conf s'. compare_config_run ref_lib True None [Compare, CompareHeader ''IGNORE'' ''Date'' ''a'', CompareHeader ''ignore'' ''Date'' ''b'']
       (CompareConf_new ''/p'', compare_globals) = Some (conf, s') \<and>
     map_find (mc_mIgnoreRegex (mCompHeader conf)) ''Date'' = Some ''a'' \<and> mIsActive conf"
proof -
  let ?ds = "[Compare, CompareHeader ''IGNORE'' ''Date'' ''a'', CompareHeader ''ignore'' ''Date'' ''b'']"
  have "\<exists>conf s'. compare_config_run ref_lib True None ?ds (CompareConf_new ''/p'', compare_globals) = Some (conf, s')"
    by (simp add: setCompare_def setHeaderList_def missing_def strcasecmp_eq_def tolower_def mc_addIgnoreRegex_def ref_lib_def
        CompareConf_new_def Let_def)
  then obtain conf s' where run: "compare_config_run ref_lib True None ?ds (CompareConf_new ''/p'', compare_globals) = Some (conf, s')"
    by blast
  from compare_configuration_meaning [OF this] show ?thesis
    using run by (auto simp: header_regexes_def strcasecmp_eq_def tolower_def)
qed

end
