(* ===== verification/Compare_Filters.thy ===== *)
theory Compare_Filters
  imports Mod_Compare Deserialize
begin

text \<open>
  The filters of the compare module (filters_compare.cc): the hook and the input filter that turn a
  duplicated request back into the original one, and the two output filters that collect the response
  of the duplicate and compare it with the original response.
\<close>

section \<open>The request\<close>

text \<open>The method numbers of Apache; \<open>M_other\<close> stands for those the module does not name.\<close>

datatype method_number = M_GET | M_PUT | M_POST | M_PATCH | M_DELETE | M_other int

record 't compare_request = "'t request_rec" +
  cr_per_dir_config :: bool
  cr_conf :: "CompareConf option"
  cr_info :: "RequestInfo option"
  cr_method_number :: method_number
  cr_content_type :: "string option"
  cr_unparsed_uri :: string
  cr_connection_pool :: bool

definition changeMethod :: "string \<Rightarrow> 't compare_request \<Rightarrow> 't compare_request" where
  "changeMethod pMethod r =
     (if pMethod = rq_method r then r
      else if pMethod = ''GET'' then r\<lparr>rq_method := ''GET'', cr_method_number := M_GET\<rparr>
      else if pMethod = ''PUT'' then r\<lparr>rq_method := ''PUT'', cr_method_number := M_PUT\<rparr>
      else if pMethod = ''PATCH'' then r\<lparr>rq_method := ''PATCH'', cr_method_number := M_PATCH\<rparr>
      else if pMethod = ''POST'' then r\<lparr>rq_method := ''POST'', cr_method_number := M_POST\<rparr>
      else if pMethod = ''DELETE'' then r\<lparr>rq_method := ''DELETE'', cr_method_number := M_DELETE\<rparr>
      else r)"

fun compare_iterateOverHeaders :: "(string, string) std_map \<Rightarrow> key_val \<Rightarrow> (string, string) std_map" where
  "compare_iterateOverHeaders lHeader (key, value) = map_put key value lHeader"

definition compare_makeRequestInfo ::
    "ext_lib \<Rightarrow> 't apr_lib \<Rightarrow> RequestInfo \<Rightarrow> int option \<Rightarrow> 't compare_request \<Rightarrow> RequestInfo \<times> 't compare_request" where
  "compare_makeRequestInfo E A mem rnd r =
     (case getOrSetUniqueID E A rnd r of (uid, r1) \<Rightarrow>
        let info = RequestInfo_start mem uid (rq_request_time r1)
        in (info, r1\<lparr>cr_info := Some info\<rparr>))"

definition DUP_SERIALIZED :: string where
  "DUP_SERIALIZED = ''application/x-dup-serialized''"

definition initRequest ::
    "ext_lib \<Rightarrow> 't apr_lib \<Rightarrow> RequestInfo \<Rightarrow> int option \<Rightarrow> 't compare_request \<Rightarrow> 't compare_request" where
  "initRequest E A mem rnd r =
     (case compare_makeRequestInfo E A mem rnd r of (info, r1) \<Rightarrow>
        let r2 = (case apr_table_get A (rq_headers_in r1) ''X_DUP_METHOD'' of
                    None \<Rightarrow> r1
                  | Some lMethod \<Rightarrow>
                      (let q = changeMethod lMethod r1
                       in q\<lparr>rq_headers_in := apr_table_unset A (rq_headers_in q) ''X_DUP_METHOD''\<rparr>));
            r3 = (case apr_table_get A (rq_headers_in r2) ''Content-Type'' of
                    None \<Rightarrow> r2
                  | Some lDupType \<Rightarrow>
                      if take 28 lDupType = DUP_SERIALIZED
                      then r2\<lparr>rq_headers_in := apr_table_set A (rq_headers_in r2) ''X-COMPARE-TRANSLATED'' ''1''\<rparr>
                      else r2);
            r4 = (case apr_table_get A (rq_headers_in r3) ''X_DUP_CONTENT_TYPE'' of
                    None \<Rightarrow> r3
                  | Some lContentType \<Rightarrow>
                      r3\<lparr>rq_headers_in := apr_table_unset A
                            (apr_table_set A (rq_headers_in r3) ''Content-Type'' lContentType) ''X_DUP_CONTENT_TYPE'',
                         cr_content_type := Some lContentType\<rparr>);
            hdrs = foldl compare_iterateOverHeaders (mReqHeader info) (apr_table_do A (rq_headers_in r4));
            st = (case map_find hdrs ''X_DUP_HTTP_STATUS'' of
                    None \<Rightarrow> -1
                  | Some v \<Rightarrow> (case lexical_int E v of None \<Rightarrow> -1 | Some n \<Rightarrow> n))
        in r4\<lparr>cr_info := Some (info\<lparr>mReqHeader := hdrs, mReqHttpStatus := st\<rparr>),
              rq_headers_in := apr_table_unset A (apr_table_unset A (rq_headers_in r4) ''ELAPSED_TIME_BY_DUP'')
                                 ''X_DUP_HTTP_STATUS''\<rparr>)"

definition compare_translateHook ::
    "ext_lib \<Rightarrow> 't apr_lib \<Rightarrow> RequestInfo \<Rightarrow> int option \<Rightarrow> 't compare_request \<Rightarrow> int \<times> 't compare_request" where
  "compare_translateHook E A mem rnd r =
     (if \<not> cr_per_dir_config r then (DECLINED, r)
      else (case cr_conf r of
        None \<Rightarrow> (DECLINED, r)
      | Some conf \<Rightarrow>
          if \<not> mIsActive conf then (DECLINED, r)
          else if \<not> cr_connection_pool r then (DECLINED, r)
          else (DECLINED, initRequest E A mem rnd r)))"

section \<open>The input filter\<close>

text \<open>The context is the null pointer or 1, once the body has been read. The result is \<open>None\<close> if
  the input never ends.\<close>

datatype input_ctx = InNull | InRead

definition http_code :: "http_status \<Rightarrow> apr_status" where
  "http_code st = (case st of OK \<Rightarrow> 0 | HTTP_BAD_REQUEST \<Rightarrow> 400)"

definition is_response_dup :: "'t apr_lib \<Rightarrow> 't compare_request \<Rightarrow> bool" where
  "is_response_dup A r \<longleftrightarrow> apr_table_get A (rq_headers_in r) ''Duplication-Type'' = Some ''Response''"

text \<open>Serving the body that has been read: \<open>wst\<close> is the status \<open>apr_brigade_write\<close> returns.\<close>

definition serve_body ::
    "next_filter \<Rightarrow> apr_status \<Rightarrow> int \<Rightarrow> 't compare_request \<Rightarrow> bucket list \<Rightarrow>
     (apr_status \<times> bucket list) \<times> 't compare_request" where
  "serve_body nxt wst pReadbytes r pB =
     (let lRI = the (cr_info r);
          toSend = to_int32 (uint (min (word_of_nat (length (mReqBody lRI)) - ucast (offset lRI)) (word_of_int pReadbytes) :: size_t))
      in if toSend > 0
         then (if wst \<noteq> APR_SUCCESS then ((wst, pB), r)
               else ((APR_SUCCESS, pB @ [Data_bucket (Inr (take (nat toSend) (drop (unat (offset lRI)) (mReqBody lRI))))]),
                     r\<lparr>cr_info := Some (lRI\<lparr>offset := offset lRI + word_of_int toSend\<rparr>)\<rparr>))
         else (nxt pB, r))"

definition compare_inputFilterHandler ::
    "ext_lib \<Rightarrow> 't apr_lib \<Rightarrow> RequestInfo \<Rightarrow> int option \<Rightarrow> int \<Rightarrow> brigade_stream \<Rightarrow> next_filter \<Rightarrow> apr_status \<Rightarrow> int \<Rightarrow>
     't compare_request option \<Rightarrow> input_ctx \<Rightarrow> bucket list \<Rightarrow>
     ((apr_status \<times> bucket list) \<times> 't compare_request option \<times> input_ctx) option" where
  "compare_inputFilterHandler E A mem rnd now bs nxt wst pReadbytes req ctx pB =
     (case req of
        None \<Rightarrow> Some (nxt pB, req, ctx)
      | Some r \<Rightarrow>
          if \<not> is_response_dup A r \<or> \<not> cr_per_dir_config r \<or> cr_conf r = None then Some (nxt pB, req, ctx)
          else (case ctx of
            InRead \<Rightarrow> (case serve_body nxt wst pReadbytes r pB of (out, r') \<Rightarrow> Some (out, Some r', InRead))
          | InNull \<Rightarrow>
              (let r1 = (if cr_info r = None then initRequest E A mem rnd r else r);
                   lRI = the (cr_info r1)
               in case read_body bs 0 (mBody lRI) of
                    None \<Rightarrow> None
                  | Some body \<Rightarrow>
                      (case deserializeBody E (lRI\<lparr>mBody := body, offset := 0\<rparr>) of
                         (lStatus, lRI1) \<Rightarrow>
                           (let r2 = r1\<lparr>cr_info := Some (resetStartTime now lRI1)\<rparr> in
                            if lStatus \<noteq> OK then Some ((http_code lStatus, []), Some r2, InRead)
                            else
                             (let r3 = r2\<lparr>rq_headers_in := apr_table_set A (rq_headers_in r2) ''Content-Length''
                                           (lexical_string E (int (length (mReqBody lRI1))))\<rparr>
                              in case serve_body nxt wst pReadbytes r3 [] of
                                   (out, r4) \<Rightarrow> Some (out, Some r4, InRead)))))))"

section \<open>The output filters\<close>

text \<open>The context is the null pointer or the mark -1. \<open>ap_pass_brigade\<close> gets the brigade in all
  cases: the result says what happened besides. The null test of the request comes after its first use,
  so the request is there.\<close>

fun collect_response :: "int \<Rightarrow> bucket list \<Rightarrow> RequestInfo \<Rightarrow> RequestInfo" where
  "collect_response now [] req = req"
| "collect_response now (EOS_bucket # bs) req = collect_response now bs (eos_seen True now req)"
| "collect_response now (Metadata_bucket # bs) req = collect_response now bs req"
| "collect_response now (Data_bucket (Inl rv) # bs) req = collect_response now bs req"
| "collect_response now (Data_bucket (Inr data) # bs) req =
     collect_response now bs (req\<lparr>mDupResponseBody := mDupResponseBody req @ data\<rparr>)"

definition comp_status :: "CompareConf \<Rightarrow> compare_state \<Rightarrow> string" where
  "comp_status conf s = ''COMPARED - with conf from '' @ cc_mDirName conf @ '' logged in '' @
     (if gWriteInFile s then gFilePath s else ''SYSLOG'') @ '' in format '' @ diffTypeStr (mLogType conf)"

text \<open>\<open>opens\<close>: whether the log file can be opened again after truncation.\<close>

definition compare_outputFilterHandler ::
    "'t apr_lib \<Rightarrow> int \<Rightarrow> bool \<Rightarrow> bucket list \<Rightarrow> filter_ctx \<Rightarrow> 't compare_request \<Rightarrow> compare_state \<Rightarrow>
     filter_ctx \<times> 't compare_request \<times> compare_state" where
  "compare_outputFilterHandler A now opens pBrigade ctx r s =
     (if ctx = CtxDone then (ctx, r, s)
      else if find_str ''comp_truncate'' (rq_uri r) \<noteq> None
      then (CtxDone, r, if opens then s\<lparr>gFile_open := True, gFile := []\<rparr> else s\<lparr>gFile_open := False\<rparr>)
      else if \<not> cr_per_dir_config r \<or> \<not> is_response_dup A r then (CtxDone, r, s)
      else (case cr_conf r of
        None \<Rightarrow> (CtxDone, r, s)
      | Some tConf \<Rightarrow>
          (case cr_info r of
             None \<Rightarrow> (CtxDone, r, s)
           | Some req \<Rightarrow>
               (let r1 = r\<lparr>cr_info := Some (collect_response now pBrigade req)\<rparr>;
                    r2 = (if apr_table_get A (rq_headers_in r1) ''X_COMP_LOG'' \<noteq> None
                          then r1\<lparr>rq_headers_out := apr_table_set A (rq_headers_out r1) ''X-COMP-STATUS''
                                   (c_str (comp_status tConf s))\<rparr>
                          else r1)
                in (ctx, r2, s)))))"

text \<open>The clock read around the comparison and the date are arguments.\<close>

definition compare_responses ::
    "ext_lib \<Rightarrow> 'j diff_lib \<Rightarrow> bool \<Rightarrow> int \<Rightarrow> string \<Rightarrow> CompareConf \<Rightarrow> RequestInfo \<Rightarrow> compare_state \<Rightarrow>
     compare_error + compare_state" where
  "compare_responses E D mutex t today tConf req s =
     (let printer = createDiffPrinter D (mId req) (mLogType tConf) in
      case mc_retrieveDiff E D (mCompHeader tConf) (mResponseHeader req) (mDupResponseHeader req) printer of
        (headerDiff, p1) \<Rightarrow>
          (case body_retrieveDiff_printer E D (mCompBody tConf) (mResponseBody req) (mDupResponseBody req) p1 of
             None \<Rightarrow> Inl NotReturning
           | Some (bodyDiff, p2) \<Rightarrow>
               if (headerDiff \<or> bodyDiff) \<and>
                  (isDiff p2 \<or> checkCassandraDiff (mId req) s \<or>
                   (mReqHttpStatus req \<noteq> -1 \<and> mReqHttpStatus req \<noteq> mDupResponseHttpStatus req))
               then writeDifferences E D mutex t today req p2 s
               else Inr s))"

definition compare_outputFilterHandler2 ::
    "ext_lib \<Rightarrow> 't apr_lib \<Rightarrow> 'j diff_lib \<Rightarrow> (archive_item list \<Rightarrow> string) \<Rightarrow> bool \<Rightarrow> int \<Rightarrow> string \<Rightarrow> filter_ctx \<Rightarrow>
     't compare_request \<Rightarrow> compare_state \<Rightarrow> compare_error + (filter_ctx \<times> 't compare_request \<times> compare_state)" where
  "compare_outputFilterHandler2 E A D archive mutex t today ctx r s =
     (if ctx = CtxDone then Inr (ctx, r, s)
      else (case cr_conf r of
        None \<Rightarrow> Inr (ctx, r, s)
      | Some tConf \<Rightarrow>
          (case cr_info r of
             None \<Rightarrow> Inr (ctx, r, s)
           | Some req0 \<Rightarrow>
               if \<not> mEOS req0 then Inr (ctx, r, s)
               else
                (let req = req0\<lparr>mRequest := cr_unparsed_uri r,
                       mDupResponseHeader := foldl compare_iterateOverHeaders (mDupResponseHeader req0)
                          (apr_table_do A (rq_headers_out r))\<rparr>
                 in if mCompareDisabled tConf
                    then Inr (CtxDone, r\<lparr>cr_info := Some req\<rparr>, writeSerializedRequest archive mutex req s)
                    else
                     (let req1 = req\<lparr>mDupResponseHttpStatus := rq_status r\<rparr> in
                      case compare_responses E D mutex t today tConf req1 s of
                        Inl e \<Rightarrow> Inl e
                      | Inr s1 \<Rightarrow> Inr (CtxDone, r\<lparr>cr_info := Some req1\<rparr>, s1))))))"

end
