(* ===== verification/Compare_Report.thy ===== *)
theory Compare_Report
  imports Compare_Filters
begin

text \<open>
  What the compare module writes: a text sent to syslog comes through in pieces, and the second output filter
  writes to the log file exactly when the responses differ under the configuration.
\<close>

section \<open>Syslog\<close>

lemma facility_loop_pieces:
  assumes "0 \<le> i" "i \<le> int (length diff)" "0 < sz"
  shows "\<exists>ps. facility_loop diff (int (length diff)) i sz s = s\<lparr>syslog := syslog s @ map (\<lambda>p. (12, c_str p)) ps\<rparr> \<and>
    concat ps = drop (nat i) diff \<and> (\<forall>p \<in> set ps. p \<noteq> [] \<and> int (length p) \<le> sz) \<and>
    (\<forall>p \<in> set (butlast ps). int (length p) = sz)"
  using assms
proof (induction "nat (int (length diff) - i)" arbitrary: i sz s rule: less_induct)
  case less
  show ?case
  proof (cases "i < int (length diff)")
    case False
    then show ?thesis
      using less.prems by (intro exI [of _ "[]"]) (simp add: facility_loop.simps [of diff])
  next
    case True
    define z where "z = (if i + sz > int (length diff) then int (length diff) - i else sz)"
    define p where "p = take (nat z) (drop (nat i) diff)"
    have z: "0 < z" "z \<le> sz" "i + z \<le> int (length diff)" "i + z < int (length diff) \<longrightarrow> z = sz"
      using True less.prems by (auto simp: z_def)
    have len: "int (length p) = z" using z less.prems by (simp add: p_def)
    obtain ps where ps: "facility_loop diff (int (length diff)) (i + z) z (log_error 12 (c_str p) s) =
        (log_error 12 (c_str p) s)\<lparr>syslog := syslog (log_error 12 (c_str p) s) @ map (\<lambda>p. (12, c_str p)) ps\<rparr>"
        "concat ps = drop (nat (i + z)) diff" "\<forall>q \<in> set ps. q \<noteq> [] \<and> int (length q) \<le> z"
        "\<forall>q \<in> set (butlast ps). int (length q) = z"
      using less.hyps [of "i + z" z "log_error 12 (c_str p) s"] z less.prems True by auto
    have eq: "facility_loop diff (int (length diff)) i sz s =
        facility_loop diff (int (length diff)) (i + z) z (log_error 12 (c_str p) s)"
      using True less.prems by (subst facility_loop.simps) (simp add: z_def p_def Let_def)
    have "concat (p # ps) = drop (nat i) diff"
      using ps(2) z less.prems append_take_drop_id [of "nat z" "drop (nat i) diff"]
      by (simp add: p_def nat_add_distrib add.commute)
    moreover have zs: "z = sz" if "ps \<noteq> []" using that ps(2,3) z by (cases ps; cases "i + z < int (length diff)") auto
    have "\<forall>q \<in> set (p # ps). q \<noteq> [] \<and> int (length q) \<le> sz"
    proof
      fix q assume "q \<in> set (p # ps)"
      then consider "q = p" | "q \<in> set ps" by auto
      then show "q \<noteq> [] \<and> int (length q) \<le> sz" using ps(3) len z by cases fastforce+
    qed
    moreover have "\<forall>q \<in> set (butlast (p # ps)). int (length q) = sz"
      using ps(4) len zs by (cases "ps = []") simp_all
    ultimately show ?thesis using ps(1) eq by (intro exI [of _ "p # ps"]) (simp add: log_error_def)
  qed
qed

text \<open>\<open>writeInFacility\<close> sends a text to syslog without loss: the messages put together are the
  text, every message but the last has \<open>LOGMAXSIZE\<close> characters and the last at most that many. The text
  must be shorter than \<open>2^31 - LOGMAXSIZE\<close>, the range of the loop's \<open>int\<close>, and free of NUL.\<close>

theorem facility_pieces:
  assumes "int (length msg) < 2 ^ 31 - LOGMAXSIZE" and "NUL \<notin> set msg"
  shows "\<exists>ps. writeInFacility msg s = s\<lparr>syslog := syslog s @ map (Pair 12) ps\<rparr> \<and> concat ps = msg \<and>
    (\<forall>p \<in> set ps. p \<noteq> [] \<and> int (length p) \<le> LOGMAXSIZE) \<and> (\<forall>p \<in> set (butlast ps). int (length p) = LOGMAXSIZE)"
proof -
  have "to_int32 (int (length msg)) = int (length msg)"
    using assms(1) by (intro to_int32_id) (auto simp: LOGMAXSIZE_def)
  then obtain ps where ps: "writeInFacility msg s = s\<lparr>syslog := syslog s @ map (\<lambda>p. (12, c_str p)) ps\<rparr>"
      "concat ps = msg" "\<forall>p \<in> set ps. p \<noteq> [] \<and> int (length p) \<le> LOGMAXSIZE"
      "\<forall>p \<in> set (butlast ps). int (length p) = LOGMAXSIZE"
    using facility_loop_pieces [of 0 msg LOGMAXSIZE s] by (auto simp: writeInFacility_def LOGMAXSIZE_def)
  have "map (\<lambda>p. (12, c_str p)) ps = map (Pair 12) ps"
    using ps(2) assms(2) by (intro map_cong) auto
  with ps show ?thesis by metis
qed

theorem facility_pieces_witness:
  "\<exists>ps. writeInFacility ''ab'' compare_globals = compare_globals\<lparr>syslog := map (Pair 12) ps\<rparr> \<and> concat ps = ''ab''"
  using facility_pieces [of "''ab''" compare_globals] by (auto simp: LOGMAXSIZE_def compare_globals_def)

section \<open>What a comparison of responses writes\<close>

text \<open>\<open>Json::FastWriter\<close> ends every document with a newline.\<close>

definition json_writer_line :: "'j diff_lib \<Rightarrow> bool" where
  "json_writer_line D \<longleftrightarrow> (\<forall>j. \<exists>t. json_write D j = t @ [NL])"

lemma intersperse_Nil: "intersperse sep ws = [] \<Longrightarrow> concat ws = []"
  by (induction sep ws rule: intersperse.induct) auto

lemma json_visible_at:
  assumes "join_intersperses E" "split_keeps_text E" "CHR ''@'' \<in> set t"
  shows "json_visible E t"
proof -
  have "CHR ''@'' \<in> set (concat (split_any_of E t NL True))"
    using assms(2,3) by (simp add: split_keeps_text_def del: set_concat)
  then have "concat (split_any_of E t NL True) \<noteq> []" by (metis empty_iff list.set(1))
  then show ?thesis using intersperse_Nil assms(1) by (auto simp: json_visible_def join_intersperses_def)
qed

lemma retrieve_documented:
  assumes "json_writer_line D"
  shows "fst (dp_retrieveDiff D [] p) = isDiff p" "isDiff p \<Longrightarrow> snd (dp_retrieveDiff D [] p) \<noteq> []"
proof -
  have "\<exists>t. replace_invalid (json_write D j) = Inr t \<and> t \<noteq> []" for j
  proof -
    obtain u where u: "json_write D j = u @ [NL]" using assms by (auto simp: json_writer_line_def)
    have "ascii_end (u @ [NL])" by (simp add: ascii_end_def mask8_def)
    then obtain t where "replace_invalid (u @ [NL]) = Inr t"
      using replace_loop_total by (auto simp: replace_invalid_def)
    then show ?thesis using replace_invalid_nonempty [of "u @ [NL]" t] by (simp add: u)
  qed
  then show "fst (dp_retrieveDiff D [] p) = isDiff p" "isDiff p \<Longrightarrow> snd (dp_retrieveDiff D [] p) \<noteq> []"
    using assms
    by (cases p; auto simp: ml_retrieveDiff_def js_retrieveDiff_def utf8_retrieveDiff_def json_writer_line_def
        split: sum.splits; metis append_is_Nil_conv list.distinct(1) sum.inject(2) sum.distinct(1))+
qed

definition elapsed_readable :: "ext_lib \<Rightarrow> RequestInfo \<Rightarrow> bool" where
  "elapsed_readable E r \<longleftrightarrow> (\<forall>v. map_find (mReqHeader r) ''ELAPSED_TIME_BY_DUP'' = Some v \<longrightarrow> lexical_int E v \<noteq> None)"

lemma add_times_found:
  assumes "elapsed_readable E r"
  obtains p' where "add_times E D t today r (p, s) = Inr (p', s)" "isDiff p' = isDiff p"
  using assms that
  by (cases "map_find (mReqHeader r) ''ELAPSED_TIME_BY_DUP''")
     (auto simp: add_times_def elapsed_readable_def Let_def split: option.splits)

lemma add_request_found [simp]: "isDiff (add_request E D r p) = isDiff p"
proof -
  have "isDiff (foldl (\<lambda>q (k, v). dp_addRequestHeader E D k v q) q hs) = isDiff q" for q hs
  proof (induction hs arbitrary: q)
    case (Cons h hs)
    then show ?case by (cases h) simp
  qed simp
  then show ?thesis by (simp add: add_request_def Let_def)
qed

lemma writeDifferences_file:
  assumes "json_writer_line D" and "elapsed_readable E r" and "mRequest r \<noteq> []" and "\<not> checkCassandraDiff (mId r) s"
    and "gWriteInFile s" "gFile_open s"
  shows "\<exists>text. writeDifferences E D True t today r p s = Inr (if isDiff p then s\<lparr>gFile := gFile s @ text\<rparr> else s) \<and> text \<noteq> []"
proof -
  obtain p1 where p1: "add_times E D t today r (p, s) = Inr (p1, s)" "isDiff p1 = isDiff p"
    using add_times_found [OF assms(2)] by metis
  let ?q = "add_request E D r p1"
  obtain diff res where q: "dp_retrieveDiff D [] ?q = (diff, res)" by fastforce
  then have d: "diff = isDiff p" "isDiff p \<Longrightarrow> res \<noteq> []"
    using retrieve_documented [OF assms(1), of ?q] p1(2) by auto
  have "writeCassandraDiff D (mId r) ?q s = Some (False, ?q, s)"
    using assms(4) by (simp add: writeCassandraDiff_def checkCassandraDiff_def)
  then have "writeDifferences E D True t today r p s = Inr (if isDiff p then s\<lparr>gFile := gFile s @ res\<rparr> else s)"
    using p1(1) q d(1) assms(3,5,6) by (simp add: writeDifferences_def write_diff_def write_file_def)
  then show ?thesis using d(2) by (cases "isDiff p") (auto intro!: exI [of _ "if isDiff p then res else ''-''"])
qed

text \<open>When two responses count as different under a configuration.\<close>

definition headers_differ :: "ext_lib \<Rightarrow> MapCompare \<Rightarrow> mapStrings \<Rightarrow> mapStrings \<Rightarrow> bool" where
  "headers_differ E c a b \<longleftrightarrow> \<not> checkStop E c a \<and> \<not> checkStop E c b \<and>
     (\<exists>k. cleaned E c k (map_find a k) \<noteq> cleaned E c k (map_find b k))"

definition bodies_differ :: "ext_lib \<Rightarrow> StringCompare \<Rightarrow> string \<Rightarrow> string \<Rightarrow> bool" where
  "bodies_differ E c a b \<longleftrightarrow> \<not> stopped E c a \<and> \<not> stopped E c b \<and> body_lines E c a \<noteq> body_lines E c b"

lemma createDiffPrinter_found [simp]: "\<not> isDiff (createDiffPrinter D i ty)"
  by (cases ty) (simp_all add: multilineDiffPrinter_new_def jsonDiffPrinter_new_def)

lemma body_retrieveDiff_found:
  assumes "join_intersperses E" "split_keeps_text E"
  shows "\<exists>p'. body_retrieveDiff_printer E D c a b p = Some (bodies_differ E c a b, p') \<and>
    isDiff p' = (isDiff p \<or> bodies_differ E c a b)"
proof -
  obtain out where o: "CHR ''@'' \<in> set out" "map_option (print_result E D p) (vectDiff (body_lines E c a) (body_lines E c b)) =
      (if body_lines E c a = body_lines E c b then Some (False, p) else Some (True, dp_addFullDiff E D out p))"
    by (rule vectDiff_printed)
  have "isDiff (dp_addFullDiff E D out p)"
    using json_visible_at [OF assms o(1)] by (simp add: printer.found_full_diff dp_visible_def)
  then show ?thesis
    using o(2)
    by (cases "stopped E c a \<or> stopped E c b"; cases "body_lines E c a = body_lines E c b")
       (auto simp: body_retrieveDiff_printer_def body_retrieveDiff_def checkStopRegex_stopped body_lines_def
          bodies_differ_def simp del: map_option_eq_Some)
qed

lemma compare_responses_file:
  assumes lib: "join_intersperses E" "split_keeps_text E" "json_writer_line D"
    and wf: "map_wf (mResponseHeader req)" "map_wf (mDupResponseHeader req)"
    and req: "elapsed_readable E req" "mRequest req \<noteq> []" "\<not> checkCassandraDiff (mId req) s"
    and log: "gWriteInFile s" "gFile_open s"
  shows "\<exists>text. text \<noteq> [] \<and> compare_responses E D True t today conf req s =
    Inr (if headers_differ E (mCompHeader conf) (mResponseHeader req) (mDupResponseHeader req) \<or>
            bodies_differ E (mCompBody conf) (mResponseBody req) (mDupResponseBody req)
         then s\<lparr>gFile := gFile s @ text\<rparr> else s)"
proof -
  let ?p = "createDiffPrinter D (mId req) (mLogType conf)"
  let ?hd = "headers_differ E (mCompHeader conf) (mResponseHeader req) (mDupResponseHeader req)"
  let ?bd = "bodies_differ E (mCompBody conf) (mResponseBody req) (mDupResponseBody req)"
  obtain h p1 where h: "mc_retrieveDiff E D (mCompHeader conf) (mResponseHeader req) (mDupResponseHeader req) ?p = (h, p1)"
    by fastforce
  have hf: "isDiff p1 = ?hd" "?hd \<Longrightarrow> h"
    using mc_retrieveDiff_meaning [OF wf, of E D "mCompHeader conf" ?p] h by (auto simp: headers_differ_def)
  obtain p2 where b: "body_retrieveDiff_printer E D (mCompBody conf) (mResponseBody req) (mDupResponseBody req) p1 = Some (?bd, p2)"
      "isDiff p2 = (?hd \<or> ?bd)"
    using body_retrieveDiff_found [OF lib(1,2)] hf(1) by metis
  obtain tx where w: "writeDifferences E D True t today req p2 s = Inr (if isDiff p2 then s\<lparr>gFile := gFile s @ tx\<rparr> else s)" "tx \<noteq> []"
    using writeDifferences_file [OF lib(3) req log] by metis
  show ?thesis
    using h hf b w by (intro exI [of _ tx]) (auto simp: compare_responses_def Let_def)
qed

section \<open>Properties\<close>

lemma headers_wf: "map_wf m \<Longrightarrow> map_wf (foldl compare_iterateOverHeaders m kvs)"
proof (induction kvs arbitrary: m)
  case (Cons kv kvs)
  then show ?case by (cases kv) simp
qed simp

text \<open>The response headers of the duplicate, as the second output filter collects them.\<close>

definition dup_headers :: "'t apr_lib \<Rightarrow> 't compare_request \<Rightarrow> RequestInfo \<Rightarrow> mapStrings" where
  "dup_headers A r info = foldl compare_iterateOverHeaders (mDupResponseHeader info) (apr_table_do A (rq_headers_out r))"

lemma compare_filter_result:
  assumes "join_intersperses E" "split_keeps_text E" "json_writer_line D"
    and "cr_conf r = Some conf" "cr_info r = Some info" "mEOS info" "\<not> mCompareDisabled conf"
    and "map_wf (mResponseHeader info)" "map_wf (mDupResponseHeader info)"
    and "elapsed_readable E info" "cr_unparsed_uri r \<noteq> []" "\<not> checkCassandraDiff (mId info) s"
    and "gWriteInFile s" "gFile_open s"
  shows "\<exists>r' tx. tx \<noteq> [] \<and> compare_outputFilterHandler2 E A D archive True t today CtxNull r s =
    Inr (CtxDone, r',
      if headers_differ E (mCompHeader conf) (mResponseHeader info) (dup_headers A r info) \<or>
         bodies_differ E (mCompBody conf) (mResponseBody info) (mDupResponseBody info)
      then s\<lparr>gFile := gFile s @ tx\<rparr> else s)"
proof -
  let ?req = "info\<lparr>mRequest := cr_unparsed_uri r, mDupResponseHeader := dup_headers A r info, mDupResponseHttpStatus := rq_status r\<rparr>"
  have "map_wf (dup_headers A r info)" using assms(9) by (simp add: dup_headers_def headers_wf)
  then obtain tx where "tx \<noteq> []" "compare_responses E D True t today conf ?req s =
    Inr (if headers_differ E (mCompHeader conf) (mResponseHeader info) (dup_headers A r info) \<or>
            bodies_differ E (mCompBody conf) (mResponseBody info) (mDupResponseBody info)
         then s\<lparr>gFile := gFile s @ tx\<rparr> else s)"
    using compare_responses_file [OF assms(1-3), of ?req s t today conf] assms(8-14)
    by (auto simp: elapsed_readable_def)
  then show ?thesis
    using assms(4-7) by (auto simp: compare_outputFilterHandler2_def dup_headers_def Let_def)
qed

text \<open>C4: once the response of the duplicate is complete, the second output filter appends to the log
  file exactly when the two responses differ under the configuration of the location: a header whose value
  differs after the ignore expressions, or lines of the body that do, with no stop expression matching. In
  both cases it is done afterwards and nothing else is written. The json library ends a document with a newline,
  split and join lose no text, the elapsed time sent by mod_dup is a number, and no Cassandra difference is
  pending.\<close>

theorem compare_reports_differences:
  assumes "join_intersperses E" "split_keeps_text E" "json_writer_line D"
    and "cr_conf r = Some conf" "cr_info r = Some info" "mEOS info" "\<not> mCompareDisabled conf"
    and "map_wf (mResponseHeader info)" "map_wf (mDupResponseHeader info)"
    and "elapsed_readable E info" "cr_unparsed_uri r \<noteq> []" "\<not> checkCassandraDiff (mId info) s"
    and "gWriteInFile s" "gFile_open s"
  shows "\<exists>r' tx. tx \<noteq> [] \<and> compare_outputFilterHandler2 E A D archive True t today CtxNull r s =
    Inr (CtxDone, r',
      if headers_differ E (mCompHeader conf) (mResponseHeader info) (dup_headers A r info) \<or>
         bodies_differ E (mCompBody conf) (mResponseBody info) (mDupResponseBody info)
      then s\<lparr>gFile := gFile s @ tx\<rparr> else s)"
  using assms by (rule compare_filter_result)

definition compared_info :: "string \<Rightarrow> RequestInfo \<Rightarrow> RequestInfo" where
  "compared_info body mem = (RequestInfo_start mem ''i'' 0)\<lparr>mResponseHeader := [(''A'', ''1'')], mResponseBody := ''x'',
     mDupResponseBody := body, mReqHttpStatus := 200, mEOS := True\<rparr>"

definition compared_request :: "int \<Rightarrow> string \<Rightarrow> RequestInfo \<Rightarrow> key_val_list compare_request" where
  "compared_request status body mem =
     \<lparr>rq_status = status, rq_method = ''GET'', rq_uri = ''/p'', rq_args = None, rq_headers_in = [],
      rq_headers_out = [(''A'', ''1'')], rq_request_time = 0, rq_conf = None, rq_info = None,
      cr_per_dir_config = True, cr_conf = Some (CompareConf_new ''/p''),
      cr_info = Some (compared_info body mem),
      cr_method_number = M_GET, cr_content_type = None, cr_unparsed_uri = ''/p'', cr_connection_pool = True\<rparr>"

lemma ref_json_line: "json_writer_line (ref_diff_lib\<lparr>json_write := (\<lambda>j. [NL])\<rparr>)"
  by (simp add: json_writer_line_def)

lemma compared_request_facts:
  "cr_conf (compared_request st b mem) = Some (CompareConf_new ''/p'')"
  "cr_info (compared_request st b mem) = Some (compared_info b mem)"
  "mEOS (compared_info b mem)" "\<not> mCompareDisabled (CompareConf_new ''/p'')"
  "mResponseHeader (compared_info b mem) = [(''A'', ''1'')]"
  "mResponseBody (compared_info b mem) = ''x''"
  "mDupResponseBody (compared_info b mem) = b"
  "map_wf [(''A'', ''1'')]"
  "map_wf (mDupResponseHeader (compared_info b mem))"
  "elapsed_readable ref_lib (compared_info b mem)"
  "cr_unparsed_uri (compared_request st b mem) \<noteq> []"
  "\<not> checkCassandraDiff i (compare_globals\<lparr>gFile_open := True\<rparr>)" "gWriteInFile (compare_globals\<lparr>gFile_open := True\<rparr>)"
  "mReqHttpStatus (compared_info b mem) = 200" "rq_status (compared_request st b mem) = st"
  "gFile (compare_globals\<lparr>gFile_open := True\<rparr>) = []"
  by (simp_all add: compared_request_def compared_info_def CompareConf_new_def RequestInfo_start_def RequestInfo_members_def map_wf_def
      elapsed_readable_def checkCassandraDiff_def compare_globals_def)

theorem compare_reports_differences_witness:
  "\<forall>mem. \<exists>r' tx. tx \<noteq> [] \<and>
     compare_outputFilterHandler2 ref_lib ref_apr (ref_diff_lib\<lparr>json_write := (\<lambda>j. [NL])\<rparr>) (\<lambda>_. []) True 1 ''d'' CtxNull
       (compared_request 200 ''y'' mem) (compare_globals\<lparr>gFile_open := True\<rparr>) =
     Inr (CtxDone, r', compare_globals\<lparr>gFile_open := True, gFile := tx\<rparr>)"
proof
  fix mem
  let ?r = "compared_request 200 ''y'' mem" and ?i = "compared_info ''y'' mem" and ?s = "compare_globals\<lparr>gFile_open := True\<rparr>"
  let ?c = "CompareConf_new ''/p''"
  have "bodies_differ ref_lib (mCompBody ?c) ''x'' ''y''"
    by (simp add: bodies_differ_def stopped_def body_lines_def ignoreCases_def CompareConf_new_def StringCompare_empty_def
        ref_lib_def)
  then show "\<exists>r' tx. tx \<noteq> [] \<and>
     compare_outputFilterHandler2 ref_lib ref_apr (ref_diff_lib\<lparr>json_write := (\<lambda>j. [NL])\<rparr>) (\<lambda>_. []) True 1 ''d'' CtxNull ?r ?s =
     Inr (CtxDone, r', compare_globals\<lparr>gFile_open := True, gFile := tx\<rparr>)"
    using compare_reports_differences [OF ref_lib_documented(2) ref_lib_split ref_json_line, where r = ?r and conf = ?c and
        info = ?i and s = ?s and A = ref_apr and archive = "\<lambda>_. []" and t = 1 and today = "''d''"]
    by (simp add: compared_request_facts)
qed

text \<open>A difference in the HTTP status alone never reaches the log: the second output filter means to
  write when the status of the duplicate is not the one mod_dup sent, but it only looks at the status where a header
  or the body differs already; a duplicate with the same headers and body and another status leaves the log as it is.\<close>

theorem status_difference_lost:
  assumes "join_intersperses E" "split_keeps_text E" "json_writer_line D"
    and "cr_conf r = Some conf" "cr_info r = Some info" "mEOS info" "\<not> mCompareDisabled conf"
    and "map_wf (mResponseHeader info)" "map_wf (mDupResponseHeader info)"
    and "elapsed_readable E info" "cr_unparsed_uri r \<noteq> []" "\<not> checkCassandraDiff (mId info) s"
    and "gWriteInFile s" "gFile_open s"
    and "mReqHttpStatus info \<noteq> -1" "mReqHttpStatus info \<noteq> rq_status r"
    and "\<not> headers_differ E (mCompHeader conf) (mResponseHeader info) (dup_headers A r info)"
    and "\<not> bodies_differ E (mCompBody conf) (mResponseBody info) (mDupResponseBody info)"
  shows "\<exists>r'. compare_outputFilterHandler2 E A D archive True t today CtxNull r s = Inr (CtxDone, r', s)"
  using compare_filter_result [OF assms(1-14), of A archive t today] assms(17,18) by auto

theorem status_difference_lost_witness:
  "\<forall>mem. \<exists>r'. compare_outputFilterHandler2 ref_lib ref_apr (ref_diff_lib\<lparr>json_write := (\<lambda>j. [NL])\<rparr>) (\<lambda>_. []) True 1 ''d'' CtxNull
       (compared_request 500 ''x'' mem) (compare_globals\<lparr>gFile_open := True\<rparr>) =
     Inr (CtxDone, r', compare_globals\<lparr>gFile_open := True\<rparr>)"
proof
  fix mem
  let ?r = "compared_request 500 ''x'' mem" and ?i = "compared_info ''x'' mem" and ?s = "compare_globals\<lparr>gFile_open := True\<rparr>"
  let ?c = "CompareConf_new ''/p''" and ?D = "ref_diff_lib\<lparr>json_write := (\<lambda>j. [NL])\<rparr>"
  have "\<not> bodies_differ ref_lib (mCompBody ?c) ''x'' ''x''" by (simp add: bodies_differ_def)
  moreover have "\<not> headers_differ ref_lib (mCompHeader ?c) [(''A'', ''1'')] (dup_headers ref_apr ?r ?i)"
    by (simp add: headers_differ_def dup_headers_def compared_request_def compared_info_def ref_apr_def RequestInfo_start_def
        RequestInfo_members_def)
  ultimately show "\<exists>r'. compare_outputFilterHandler2 ref_lib ref_apr ?D (\<lambda>_. []) True 1 ''d'' CtxNull ?r ?s =
     Inr (CtxDone, r', ?s)"
    using status_difference_lost [OF ref_lib_documented(2) ref_lib_split ref_json_line, where r = ?r and conf = ?c and
        info = ?i and s = ?s and A = ref_apr and archive = "\<lambda>_. []" and t = 1 and today = "''d''"]
    by (simp add: compared_request_facts)
qed

end
