(* ===== verification/Compare_Replay.thy ===== *)
theory Compare_Replay
  imports Compare_Report
begin

text \<open>
  How the compare module replays a duplicated request: the hook gives the request back its method and its
  headers, and the input filter serves the body of the original request out of the serialised one.
\<close>

section \<open>The request is restored\<close>

lemma apr_get_unset:
  "apr_documented A \<Longrightarrow> apr_table_get A (apr_table_unset A t k) k' =
     (if same_key k k' then None else apr_table_get A t k')"
  unfolding apr_documented_def by blast

lemma compare_keys:
  "same_key k k"
  "\<not> same_key ''UNIQUE_ID'' ''X_DUP_METHOD''" "\<not> same_key ''UNIQUE_ID'' ''X_DUP_CONTENT_TYPE''"
  "\<not> same_key ''UNIQUE_ID'' ''Content-Type''" "\<not> same_key ''UNIQUE_ID'' ''Duplication-Type''"
  "\<not> same_key ''X_DUP_METHOD'' ''X_DUP_CONTENT_TYPE''" "\<not> same_key ''X_DUP_METHOD'' ''Content-Type''"
  "\<not> same_key ''X_DUP_METHOD'' ''Duplication-Type''"
  "\<not> same_key ''X-COMPARE-TRANSLATED'' ''X_DUP_METHOD''" "\<not> same_key ''X-COMPARE-TRANSLATED'' ''X_DUP_CONTENT_TYPE''"
  "\<not> same_key ''X-COMPARE-TRANSLATED'' ''Content-Type''" "\<not> same_key ''X-COMPARE-TRANSLATED'' ''Duplication-Type''"
  "\<not> same_key ''Content-Type'' ''X_DUP_METHOD''" "\<not> same_key ''Content-Type'' ''X_DUP_CONTENT_TYPE''"
  "\<not> same_key ''Content-Type'' ''Duplication-Type''"
  "\<not> same_key ''X_DUP_CONTENT_TYPE'' ''X_DUP_METHOD''" "\<not> same_key ''X_DUP_CONTENT_TYPE'' ''Content-Type''"
  "\<not> same_key ''X_DUP_CONTENT_TYPE'' ''Duplication-Type''"
  "\<not> same_key ''ELAPSED_TIME_BY_DUP'' ''Content-Type''" "\<not> same_key ''ELAPSED_TIME_BY_DUP'' ''Duplication-Type''"
  "\<not> same_key ''X_DUP_HTTP_STATUS'' ''Content-Type''" "\<not> same_key ''X_DUP_HTTP_STATUS'' ''Duplication-Type''"
  "\<not> same_key ''Content-Length'' ''Duplication-Type''"
  by (simp_all add: same_key_def tolower_def)

lemmas table_simps = apr_get_set apr_get_unset compare_keys

lemma changeMethod_sel [simp]:
  "rq_headers_in (changeMethod m r) = rq_headers_in r" "cr_info (changeMethod m r) = cr_info r"
  "cr_conf (changeMethod m r) = cr_conf r" "cr_per_dir_config (changeMethod m r) = cr_per_dir_config r"
  by (simp_all add: changeMethod_def)

text \<open>The headers after the hook, in three steps.\<close>

lemma makeRequestInfo_headers:
  assumes "apr_documented A" "compare_makeRequestInfo E A mem rnd q = (info, r1)" "\<not> same_key ''UNIQUE_ID'' k"
  shows "apr_table_get A (rq_headers_in r1) k = apr_table_get A (rq_headers_in q) k"
  using assms
  by (auto simp: compare_makeRequestInfo_def getOrSetUniqueID_def c_UNIQUE_ID_def apr_get_set Let_def
      split: option.splits)

definition restored_headers :: "'t apr_lib \<Rightarrow> 't \<Rightarrow> 't" where
  "restored_headers A h =
     (let h2 = (case apr_table_get A h ''X_DUP_METHOD'' of None \<Rightarrow> h | Some m \<Rightarrow> apr_table_unset A h ''X_DUP_METHOD'');
          h3 = (case apr_table_get A h2 ''Content-Type'' of
                  None \<Rightarrow> h2
                | Some c \<Rightarrow> if take 28 c = DUP_SERIALIZED then apr_table_set A h2 ''X-COMPARE-TRANSLATED'' ''1'' else h2);
          h4 = (case apr_table_get A h3 ''X_DUP_CONTENT_TYPE'' of
                  None \<Rightarrow> h3
                | Some c \<Rightarrow> apr_table_unset A (apr_table_set A h3 ''Content-Type'' c) ''X_DUP_CONTENT_TYPE'')
      in apr_table_unset A (apr_table_unset A h4 ''ELAPSED_TIME_BY_DUP'') ''X_DUP_HTTP_STATUS'')"

lemma initRequest_restored_headers:
  "compare_makeRequestInfo E A mem rnd q = (info, r1) \<Longrightarrow>
   rq_headers_in (initRequest E A mem rnd q) = restored_headers A (rq_headers_in r1)"
  by (simp add: initRequest_def restored_headers_def Let_def split: option.split)

lemma restored_headers_get:
  assumes "apr_documented A"
  shows "apr_table_get A (restored_headers A h) ''X_DUP_METHOD'' = None"
    "apr_table_get A (restored_headers A h) ''X_DUP_CONTENT_TYPE'' = None"
    "apr_table_get A (restored_headers A h) ''ELAPSED_TIME_BY_DUP'' = None"
    "apr_table_get A (restored_headers A h) ''X_DUP_HTTP_STATUS'' = None"
    "apr_table_get A (restored_headers A h) ''Content-Type'' =
      (case apr_table_get A h ''X_DUP_CONTENT_TYPE'' of None \<Rightarrow> apr_table_get A h ''Content-Type'' | Some c \<Rightarrow> Some c)"
    "apr_table_get A (restored_headers A h) ''Duplication-Type'' = apr_table_get A h ''Duplication-Type''"
  using assms by (simp_all add: restored_headers_def table_simps Let_def split: option.split)

lemma initRequest_headers:
  assumes "apr_documented A"
  shows "apr_table_get A (rq_headers_in (initRequest E A mem rnd q)) ''X_DUP_METHOD'' = None"
    "apr_table_get A (rq_headers_in (initRequest E A mem rnd q)) ''X_DUP_CONTENT_TYPE'' = None"
    "apr_table_get A (rq_headers_in (initRequest E A mem rnd q)) ''ELAPSED_TIME_BY_DUP'' = None"
    "apr_table_get A (rq_headers_in (initRequest E A mem rnd q)) ''X_DUP_HTTP_STATUS'' = None"
    "apr_table_get A (rq_headers_in (initRequest E A mem rnd q)) ''Content-Type'' =
      (case apr_table_get A (rq_headers_in q) ''X_DUP_CONTENT_TYPE'' of
         None \<Rightarrow> apr_table_get A (rq_headers_in q) ''Content-Type'' | Some c \<Rightarrow> Some c)"
    "apr_table_get A (rq_headers_in (initRequest E A mem rnd q)) ''Duplication-Type'' =
      apr_table_get A (rq_headers_in q) ''Duplication-Type''"
proof -
  obtain info r1 where r1: "compare_makeRequestInfo E A mem rnd q = (info, r1)" by fastforce
  note eqs = initRequest_restored_headers [OF r1] restored_headers_get [OF assms] makeRequestInfo_headers [OF assms r1] compare_keys
  show "apr_table_get A (rq_headers_in (initRequest E A mem rnd q)) ''X_DUP_METHOD'' = None"
    "apr_table_get A (rq_headers_in (initRequest E A mem rnd q)) ''X_DUP_CONTENT_TYPE'' = None"
    "apr_table_get A (rq_headers_in (initRequest E A mem rnd q)) ''ELAPSED_TIME_BY_DUP'' = None"
    "apr_table_get A (rq_headers_in (initRequest E A mem rnd q)) ''X_DUP_HTTP_STATUS'' = None"
    "apr_table_get A (rq_headers_in (initRequest E A mem rnd q)) ''Content-Type'' =
      (case apr_table_get A (rq_headers_in q) ''X_DUP_CONTENT_TYPE'' of
         None \<Rightarrow> apr_table_get A (rq_headers_in q) ''Content-Type'' | Some c \<Rightarrow> Some c)"
    "apr_table_get A (rq_headers_in (initRequest E A mem rnd q)) ''Duplication-Type'' =
      apr_table_get A (rq_headers_in q) ''Duplication-Type''"
    by (simp_all only: eqs not_False_eq_True)
qed

lemma initRequest_info:
  "\<exists>info. cr_info (initRequest E A mem rnd q) = Some info \<and> mBody info = [] \<and> mResponseHeader info = [] \<and> mEOS info = False \<and>
     mReqHttpStatus info = (case map_find (mReqHeader info) ''X_DUP_HTTP_STATUS'' of
       None \<Rightarrow> -1 | Some v \<Rightarrow> (case lexical_int E v of None \<Rightarrow> -1 | Some n \<Rightarrow> n))"
  by (auto simp: initRequest_def compare_makeRequestInfo_def RequestInfo_start_def RequestInfo_members_def Let_def
      split: prod.splits)

lemma initRequest_sel:
  "cr_conf (initRequest E A mem rnd q) = cr_conf q" "cr_per_dir_config (initRequest E A mem rnd q) = cr_per_dir_config q"
proof -
  obtain info r1 where r1: "compare_makeRequestInfo E A mem rnd q = (info, r1)" by fastforce
  then have "cr_conf r1 = cr_conf q \<and> cr_per_dir_config r1 = cr_per_dir_config q"
    by (auto simp: compare_makeRequestInfo_def getOrSetUniqueID_def Let_def split: option.splits)
  then show "cr_conf (initRequest E A mem rnd q) = cr_conf q"
      "cr_per_dir_config (initRequest E A mem rnd q) = cr_per_dir_config q"
    by (simp_all add: initRequest_def r1 Let_def split: option.split)
qed

lemma initRequest_method:
  assumes "apr_documented A" and "apr_table_get A (rq_headers_in q) ''X_DUP_METHOD'' = Some m"
    and "m \<in> {''GET'', ''PUT'', ''PATCH'', ''POST'', ''DELETE''}"
  shows "rq_method (initRequest E A mem rnd q) = m"
proof -
  obtain info r1 where r1: "compare_makeRequestInfo E A mem rnd q = (info, r1)" by fastforce
  then have "apr_table_get A (rq_headers_in r1) ''X_DUP_METHOD'' = Some m" "rq_method r1 = rq_method q"
    using assms(1,2)
    by (auto simp: compare_makeRequestInfo_def getOrSetUniqueID_def c_UNIQUE_ID_def table_simps Let_def split: option.splits)
  moreover have "rq_method (changeMethod m r1) = m" using assms(3) by (auto simp: changeMethod_def)
  ultimately show ?thesis using r1 by (auto simp: initRequest_def Let_def split: option.splits)
qed


definition dup_request :: "key_val_list compare_request" where
  "dup_request =
     \<lparr>rq_status = 200, rq_method = ''POST'', rq_uri = ''/p'', rq_args = None,
      rq_headers_in = [(''Duplication-Type'', ''Response''), (''X_DUP_METHOD'', ''PATCH''), (''X_DUP_HTTP_STATUS'', ''201'')],
      rq_headers_out = [], rq_request_time = 0, rq_conf = None, rq_info = None,
      cr_per_dir_config = True, cr_conf = Some ((CompareConf_new ''/p'')\<lparr>mIsActive := True\<rparr>), cr_info = None,
      cr_method_number = M_POST, cr_content_type = None, cr_unparsed_uri = ''/p'', cr_connection_pool = True\<rparr>"


section \<open>The body is served\<close>

text \<open>Successive calls of the input filter, each with an empty brigade; \<open>None\<close> if one does not return.\<close>

fun compare_calls ::
    "ext_lib \<Rightarrow> 't apr_lib \<Rightarrow> RequestInfo \<Rightarrow> int option \<Rightarrow> int \<Rightarrow> brigade_stream \<Rightarrow> next_filter \<Rightarrow> int list \<Rightarrow>
     't compare_request option \<times> input_ctx \<Rightarrow>
     ((apr_status \<times> bucket list) list \<times> 't compare_request option \<times> input_ctx) option" where
  "compare_calls E A mem rnd now bs nxt [] rc = Some ([], rc)"
| "compare_calls E A mem rnd now bs nxt (n # ns) (req, ctx) =
     (case compare_inputFilterHandler E A mem rnd now bs nxt APR_SUCCESS n req ctx [] of
        None \<Rightarrow> None
      | Some (out, rc') \<Rightarrow> map_option (\<lambda>(outs, rc). (out # outs, rc)) (compare_calls E A mem rnd now bs nxt ns rc'))"

lemma to_send:
  assumes "k \<le> len" "len < 2 ^ 31" "0 \<le> n" "n < 2 ^ 63"
  shows "to_int32 (uint (min (word_of_nat len - ucast (word_of_nat k :: uint32)) (word_of_int n) :: size_t)) =
    min (int len - int k) n"
proof -
  have "unat (word_of_nat k :: uint32) = k" using assms by (intro unat_of_nat_small) simp
  then have "uint (ucast (word_of_nat k :: uint32) :: size_t) = int k"
    by (metis unat_ucast_32_64 uint_nat)
  moreover have "uint (word_of_nat len :: size_t) = int len"
    using assms by (simp add: uint_nat unat_of_nat_small)
  moreover have "uint (word_of_int n :: size_t) = n" using assms by (simp add: uint_word_of_int)
  ultimately have "uint (min (word_of_nat len - ucast (word_of_nat k :: uint32)) (word_of_int n) :: size_t) =
      min (int len - int k) n"
    using assms by (auto simp: min_def word_le_def uint_word_ariths)
  then show ?thesis using assms by (simp add: to_int32_id)
qed

lemma word_offset:
  assumes "k \<le> len" "0 \<le> n"
  shows "word_of_nat k + word_of_int (min (int len - int k) n) = word_of_nat (min len (k + nat n))"
proof -
  have "min len (k + nat n) = k + nat (min (int len - int k) n)" using assms by auto
  moreover have "word_of_int (min (int len - int k) n) = word_of_nat (nat (min (int len - int k) n))"
    using assms by simp
  ultimately show ?thesis by simp
qed

lemma serve_step:
  assumes "cr_info r = Some info" "offset info = word_of_nat k" "k \<le> length (mReqBody info)"
    and "length (mReqBody info) < 2 ^ 31" "0 \<le> n" "n < 2 ^ 63" "brigade_text (snd (nxt [])) = []"
  shows "\<exists>out. serve_body nxt APR_SUCCESS n r [] =
      (out, r\<lparr>cr_info := Some (info\<lparr>offset := word_of_nat (min (length (mReqBody info)) (k + nat n))\<rparr>)\<rparr>) \<and>
    brigade_text (snd out) = take (nat n) (drop k (mReqBody info))"
proof -
  have snd: "to_int32 (uint (min (word_of_nat (length (mReqBody info)) - ucast (offset info)) (word_of_int n) :: size_t)) =
      min (int (length (mReqBody info)) - int k) n"
    using to_send [OF assms(3-6)] assms(2) by simp
  have k: "unat (offset info) = k" using assms(2-4) unat_of_nat_small [where 'a = 32, of k] by simp
  show ?thesis
  proof (cases "min (int (length (mReqBody info)) - int k) n > 0")
    case True
    then have "offset info + word_of_int (min (int (length (mReqBody info)) - int k) n) =
        word_of_nat (min (length (mReqBody info)) (k + nat n))"
      using assms(2,3,5) by (simp add: word_offset)
    moreover have "take (nat (min (int (length (mReqBody info)) - int k) n)) (drop k (mReqBody info)) =
        take (nat n) (drop k (mReqBody info))"
      using assms(3,5) by (cases "int (length (mReqBody info)) - int k \<le> n") simp_all
    ultimately show ?thesis using True snd k assms(1) by (simp add: serve_body_def Let_def)
  next
    case False
    then have "take (nat n) (drop k (mReqBody info)) = []" "min (length (mReqBody info)) (k + nat n) = k"
      using assms(3,5) by auto
    moreover have "r\<lparr>cr_info := Some (info\<lparr>offset := word_of_nat k\<rparr>)\<rparr> = r" using assms(1,2) by simp
    ultimately show ?thesis
      using False snd assms(1,7) by (intro exI [of _ "nxt []"]) (auto simp: serve_body_def Let_def)
  qed
qed

text \<open>Once the body has been read, the calls hand out what is left of it.\<close>

lemma serve_calls:
  assumes "is_response_dup A r" "cr_per_dir_config r" "cr_conf r \<noteq> None"
    and "cr_info r = Some info" "offset info = word_of_nat k" "k \<le> length (mReqBody info)"
    and "length (mReqBody info) < 2 ^ 31" "\<forall>n \<in> set ns. 0 \<le> n \<and> n < 2 ^ 63" "brigade_text (snd (nxt [])) = []"
  shows "\<exists>outs off. compare_calls E A mem rnd now bs nxt ns (Some r, InRead) =
      Some (outs, Some (r\<lparr>cr_info := Some (info\<lparr>offset := off\<rparr>)\<rparr>), InRead) \<and>
    concat (map (\<lambda>p. brigade_text (snd p)) outs) = take (nat (sum_list ns)) (drop k (mReqBody info))"
  using assms
proof (induction ns arbitrary: r info k)
  case Nil
  then have "r\<lparr>cr_info := Some (info\<lparr>offset := offset info\<rparr>)\<rparr> = r" by simp
  then show ?case by (intro exI [of _ "[]"] exI [of _ "offset info"]) simp
next
  case (Cons n ns)
  let ?k = "min (length (mReqBody info)) (k + nat n)"
  let ?info = "info\<lparr>offset := word_of_nat ?k\<rparr>"
  let ?r = "r\<lparr>cr_info := Some ?info\<rparr>"
  from Cons.prems have n: "0 \<le> n" "n < 2 ^ 63" "\<forall>n \<in> set ns. 0 \<le> n \<and> n < 2 ^ 63" by simp_all
  obtain out where out: "serve_body nxt APR_SUCCESS n r [] = (out, ?r)"
      "brigade_text (snd out) = take (nat n) (drop k (mReqBody info))"
    using serve_step [of r info k n nxt] Cons.prems(4-9) n(1,2) by blast
  have step: "compare_inputFilterHandler E A mem rnd now bs nxt APR_SUCCESS n (Some r) InRead [] =
      Some (out, Some ?r, InRead)"
    using Cons.prems(1-3) out(1) by (auto simp: compare_inputFilterHandler_def)
  have pre: "is_response_dup A ?r" "cr_per_dir_config ?r" "cr_conf ?r \<noteq> None" "?k \<le> length (mReqBody ?info)"
    using Cons.prems(1-3) by (simp_all add: is_response_dup_def)
  obtain outs off where outs: "compare_calls E A mem rnd now bs nxt ns (Some ?r, InRead) =
        Some (outs, Some (?r\<lparr>cr_info := Some (?info\<lparr>offset := off\<rparr>)\<rparr>), InRead)"
      "concat (map (\<lambda>p. brigade_text (snd p)) outs) = take (nat (sum_list ns)) (drop ?k (mReqBody info))"
    using Cons.IH [of ?r ?info ?k] pre Cons.prems(7,9) n(3) by auto
  have "0 \<le> sum_list ns" using n(3) by (intro sum_list_nonneg) auto
  then have "take (nat (sum_list (n # ns))) (drop k (mReqBody info)) =
      take (nat n) (drop k (mReqBody info)) @ take (nat (sum_list ns)) (drop (k + nat n) (mReqBody info))"
    using n(1) by (simp add: nat_add_distrib take_add add.commute)
  moreover have "drop ?k (mReqBody info) = drop (k + nat n) (mReqBody info)"
    by (simp add: min_def)
  ultimately show ?case
    using step outs out(2) by (intro exI [of _ "out # outs"] exI [of _ off]) simp
qed

text \<open>The first call reads and unpacks the body, and serves its beginning.\<close>

lemma first_call:
  assumes "apr_documented A" "is_response_dup A q" "cr_per_dir_config q" "cr_conf q \<noteq> None"
    and "r1 = (if cr_info q = None then initRequest E A mem rnd q else q)" "cr_info r1 = Some info"
    and "read_body bs 0 (mBody info) = Some body" "deserializeBody E (info\<lparr>mBody := body, offset := 0\<rparr>) = (OK, info1)"
    and "r3 = r1\<lparr>cr_info := Some (resetStartTime now info1),
           rq_headers_in := apr_table_set A (rq_headers_in r1) ''Content-Length''
             (lexical_string E (int (length (mReqBody info1))))\<rparr>"
  shows "is_response_dup A r3 \<and> cr_per_dir_config r3 \<and> cr_conf r3 \<noteq> None \<and>
    compare_calls E A mem rnd now bs nxt (n # ns) (Some q, InNull) =
    compare_calls E A mem rnd now bs nxt (n # ns) (Some r3, InRead)"
proof -
  have "is_response_dup A r1" "cr_per_dir_config r1" "cr_conf r1 \<noteq> None"
    using assms(2-5) initRequest_headers(6) [OF assms(1), of E mem rnd q] initRequest_sel [of E A mem rnd q]
    by (auto simp: is_response_dup_def)
  then have r3: "is_response_dup A r3" "cr_per_dir_config r3" "cr_conf r3 \<noteq> None"
    using assms(1,9) compare_keys(23) by (simp_all add: is_response_dup_def apr_get_set)
  have "compare_inputFilterHandler E A mem rnd now bs nxt APR_SUCCESS n (Some q) InNull [] =
      (case serve_body nxt APR_SUCCESS n r3 [] of (out, r4) \<Rightarrow> Some (out, Some r4, InRead))"
    unfolding compare_inputFilterHandler_def using assms(2-8)
    by (auto simp add: assms(9) Let_def simp flip: assms(5))
  also have "\<dots> = compare_inputFilterHandler E A mem rnd now bs nxt APR_SUCCESS n (Some r3) InRead []"
    using r3 by (auto simp: compare_inputFilterHandler_def)
  finally show ?thesis using r3 by simp
qed

text \<open>What a request carries once the body mod_dup wrote for \<open>r\<close> has been unpacked and served up to
  \<open>off\<close>.\<close>

definition replayed :: "RequestInfo \<Rightarrow> int \<Rightarrow> uint32 \<Rightarrow> RequestInfo \<Rightarrow> RequestInfo" where
  "replayed r now off info = info\<lparr>mBody := dupFormat r, mReqBody := mBody r, mResponseBody := mAnswer r,
     mResponseHeader := foldl (\<lambda>m (k, v). map_put k v m) (mResponseHeader info) (mHeadersOut r),
     mStartTime := now, offset := off\<rparr>"

lemma replay_result:
  assumes "apr_documented A" "lexical_reads_decimals E"
    and "section_fits (mBody r)" "section_fits (answerHeaders (mHeadersOut r))" "section_fits (mAnswer r)"
    and "list_all plain_header (mHeadersOut r)"
    and "is_response_dup A q" "cr_per_dir_config q" "cr_conf q \<noteq> None"
    and "r1 = (if cr_info q = None then initRequest E A mem rnd q else q)" "cr_info r1 = Some info" "mBody info = []"
    and "ends_body (bs n)" "\<forall>i<n. \<not> ends_body (bs i)" "stream_text bs 0 n = dupFormat r"
    and "brigade_text (snd (nxt [])) = []" "ns \<noteq> []" "\<forall>k \<in> set ns. 0 \<le> k \<and> k < 2 ^ 63"
  shows "\<exists>outs off. compare_calls E A mem rnd now bs nxt ns (Some q, InNull) =
      Some (outs, Some (r1\<lparr>cr_info := Some (replayed r now off info),
        rq_headers_in := apr_table_set A (rq_headers_in r1) ''Content-Length''
          (lexical_string E (int (length (mBody r))))\<rparr>), InRead) \<and>
    concat (map (\<lambda>p. brigade_text (snd p)) outs) = take (nat (sum_list ns)) (mBody r)"
proof -
  have body: "read_body bs 0 (mBody info) = Some (dupFormat r)"
    using read_body_returns [of 0 n bs "mBody info"] assms(12-15) by simp
  let ?info1 = "info\<lparr>offset := 0, mBody := dupFormat r, mReqBody := mBody r, mResponseBody := mAnswer r,
      mResponseHeader := foldl (\<lambda>m (k, v). map_put k v m) (mResponseHeader info) (mHeadersOut r)\<rparr>"
  have swap: "info\<lparr>mBody := dupFormat r, offset := 0\<rparr> = info\<lparr>offset := 0, mBody := dupFormat r\<rparr>" by simp
  have info1: "deserializeBody E (info\<lparr>mBody := dupFormat r, offset := 0\<rparr>) = (OK, ?info1)"
    using deserialize_dupFormat [OF assms(2-6), of "info\<lparr>offset := 0\<rparr>"] by (simp add: swap)
  define r3 where "r3 = r1\<lparr>cr_info := Some (resetStartTime now ?info1),
      rq_headers_in := apr_table_set A (rq_headers_in r1) ''Content-Length''
        (lexical_string E (int (length (mReqBody ?info1))))\<rparr>"
  obtain m ms where ns: "ns = m # ms" using assms(17) by (cases ns) auto
  note f = first_call [OF assms(1,7-11) body info1 r3_def, of nxt m ms]
  have i3: "cr_info r3 = Some (resetStartTime now ?info1)" "mReqBody (resetStartTime now ?info1) = mBody r"
      "offset (resetStartTime now ?info1) = word_of_nat 0"
    by (simp_all add: r3_def resetStartTime_def)
  obtain outs off where outs: "compare_calls E A mem rnd now bs nxt ns (Some r3, InRead) =
        Some (outs, Some (r3\<lparr>cr_info := Some ((resetStartTime now ?info1)\<lparr>offset := off\<rparr>)\<rparr>), InRead)"
      "concat (map (\<lambda>p. brigade_text (snd p)) outs) = take (nat (sum_list ns)) (mBody r)"
    using serve_calls [of A r3 "resetStartTime now ?info1" 0 ns nxt E mem rnd now bs] f i3 assms(3,16,18)
    by (auto simp: section_fits_def)
  have "(resetStartTime now ?info1)\<lparr>offset := off\<rparr> = replayed r now off info"
    by (simp add: resetStartTime_def replayed_def)
  then show ?thesis
    using f outs ns by (intro exI [of _ outs] exI [of _ off]) (simp add: r3_def)
qed

text \<open>C6: mod_compare serves the request mod_dup serialised: if the input delivers the body mod_dup wrote for the
  request \<open>r\<close>, in any brigades, then the successive reads of any sizes return, one after the other, the body
  of the original request, as far as the sizes go; the length header announces the length of that body and the
  original response is kept for the comparison.\<close>

theorem compare_serves_original:
  assumes "apr_documented A" "lexical_reads_decimals E"
    and "section_fits (mBody r)" "section_fits (answerHeaders (mHeadersOut r))" "section_fits (mAnswer r)"
    and "list_all plain_header (mHeadersOut r)"
    and "is_response_dup A q" "cr_per_dir_config q" "cr_conf q \<noteq> None" "\<forall>i. cr_info q = Some i \<longrightarrow> mBody i = []"
    and "ends_body (bs n)" "\<forall>i<n. \<not> ends_body (bs i)" "stream_text bs 0 n = dupFormat r"
    and "brigade_text (snd (nxt [])) = []" "ns \<noteq> []" "\<forall>k \<in> set ns. 0 \<le> k \<and> k < 2 ^ 63"
  shows "\<exists>outs q' info. compare_calls E A mem rnd now bs nxt ns (Some q, InNull) = Some (outs, Some q', InRead) \<and>
    concat (map (\<lambda>p. brigade_text (snd p)) outs) = take (nat (sum_list ns)) (mBody r) \<and>
    apr_table_get A (rq_headers_in q') ''Content-Length'' = Some (lexical_string E (int (length (mBody r)))) \<and>
    cr_info q' = Some info \<and> mReqBody info = mBody r \<and> mResponseBody info = mAnswer r"
proof -
  define r1 where "r1 = (if cr_info q = None then initRequest E A mem rnd q else q)"
  obtain info where info: "cr_info r1 = Some info" "mBody info = []"
    using assms(10) initRequest_info [of E A mem rnd q] by (cases "cr_info q") (auto simp: r1_def)
  show ?thesis
    using replay_result [where nxt = nxt and bs = bs and n = n and now = now, OF assms(1-9) r1_def info assms(11-16)] assms(1)
    by (fastforce simp: replayed_def apr_get_set compare_keys(1))
qed

definition dup_stream :: "RequestInfo \<Rightarrow> brigade_stream" where
  "dup_stream r n = Some (if n = 0 then [Data_bucket (Inr (take 5 (dupFormat r)))]
     else [Data_bucket (Inr (drop 5 (dupFormat r))), EOS_bucket])"

theorem compare_serves_original_witness:
  "\<forall>mem. \<exists>outs q' info.
     compare_calls ref_lib ref_apr mem None 0
       (dup_stream ((RequestInfo_start mem ''i'' 0)\<lparr>mBody := ''abc'', mAnswer := ''xyz''\<rparr>)) (\<lambda>b. (APR_SUCCESS, b)) [2, 2]
       (Some dup_request, InNull) = Some (outs, Some q', InRead) \<and>
     concat (map (\<lambda>p. brigade_text (snd p)) outs) = ''abc'' \<and> cr_info q' = Some info \<and> mResponseBody info = ''xyz''"
proof
  fix mem
  let ?r = "(RequestInfo_start mem ''i'' 0)\<lparr>mBody := ''abc'', mAnswer := ''xyz''\<rparr>"
  have ends: "ends_body (dup_stream ?r 1)" "\<forall>i<1. \<not> ends_body (dup_stream ?r i)"
    by (simp_all add: dup_stream_def ends_body_def extractBrigadeContent_def)
  have stream: "stream_text (dup_stream ?r) 0 1 = dupFormat ?r"
    by (simp add: stream_text_def dup_stream_def)
  have h: "mHeadersOut ?r = []" by (simp add: RequestInfo_start_def RequestInfo_members_def)
  have "is_response_dup ref_apr dup_request"
    by (simp add: is_response_dup_def dup_request_def ref_apr_def same_key_def tolower_def)
  then show "\<exists>outs q' info. compare_calls ref_lib ref_apr mem None 0 (dup_stream ?r) (\<lambda>b. (APR_SUCCESS, b)) [2, 2]
       (Some dup_request, InNull) = Some (outs, Some q', InRead) \<and>
     concat (map (\<lambda>p. brigade_text (snd p)) outs) = ''abc'' \<and> cr_info q' = Some info \<and> mResponseBody info = ''xyz''"
    using compare_serves_original [OF ref_apr_documented ref_lib_documented(4), of ?r dup_request "dup_stream ?r" 1
        "\<lambda>b. (APR_SUCCESS, b)" "[2, 2]" mem None 0] ends stream h
    by (auto simp: section_fits_def answerHeaders_def dup_request_def)
qed

end
