(* ===== verification/Compare_Session.thy ===== *)
theory Compare_Session
  imports Compare_Replay
begin

text \<open>
  A request on the way through the compare module: the hook, the input filter, the handler of the server and
  the two output filters share one request, one \<open>RequestInfo\<close> and the contexts of the filters. The step
  relation lets the filters be called in any order and any number of times, with any data; only the hook runs before the
  body is read, as the comment on it says. The invariant says what
  is true of the request at every moment.
\<close>

section \<open>Steps\<close>

record 't compare_session =
  ses_request :: "'t compare_request"
  ses_in :: input_ctx
  ses_out :: filter_ctx
  ses_out2 :: filter_ctx
  ses_globals :: compare_state

inductive compare_step :: "ext_lib \<Rightarrow> 't apr_lib \<Rightarrow> 'j diff_lib \<Rightarrow> 't compare_session \<Rightarrow> 't compare_session \<Rightarrow> bool"
  for E A D where
  step_hook: "ses_in s = InNull \<Longrightarrow> compare_translateHook E A mem rnd (ses_request s) = (st, r') \<Longrightarrow>
    compare_step E A D s (s\<lparr>ses_request := r'\<rparr>)"
| step_input: "compare_inputFilterHandler E A mem rnd now bs nxt wst n (Some (ses_request s)) (ses_in s) pB =
      Some (out, Some r', ctx) \<Longrightarrow>
    compare_step E A D s (s\<lparr>ses_request := r', ses_in := ctx\<rparr>)"
| step_handler: "compare_step E A D s (s\<lparr>ses_request := (ses_request s)\<lparr>rq_status := st, rq_headers_out := h\<rparr>\<rparr>)"
| step_output: "compare_outputFilterHandler A now opens b (ses_out s) (ses_request s) (ses_globals s) = (ctx, r', g) \<Longrightarrow>
    compare_step E A D s (s\<lparr>ses_request := r', ses_out := ctx, ses_globals := g\<rparr>)"
| step_output2: "compare_outputFilterHandler2 E A D archive mutex t today (ses_out2 s) (ses_request s) (ses_globals s) =
      Inr (ctx, r', g) \<Longrightarrow>
    compare_step E A D s (s\<lparr>ses_request := r', ses_out2 := ctx, ses_globals := g\<rparr>)"

inductive compare_reaches :: "ext_lib \<Rightarrow> 't apr_lib \<Rightarrow> 'j diff_lib \<Rightarrow> 't compare_session \<Rightarrow> 't compare_session \<Rightarrow> bool"
  for E A D where
  session_refl: "compare_reaches E A D s s"
| session_step: "compare_reaches E A D s u \<Longrightarrow> compare_step E A D u v \<Longrightarrow> compare_reaches E A D s v"

inductive_cases compare_step_cases: "compare_step E A D s s'"

definition session_start :: "'t compare_request \<Rightarrow> compare_state \<Rightarrow> 't compare_session" where
  "session_start r g = \<lparr>ses_request = r\<lparr>cr_info := None\<rparr>, ses_in = InNull, ses_out = CtxNull, ses_out2 = CtxNull, ses_globals = g\<rparr>"

section \<open>The invariant\<close>

definition info_typed :: "RequestInfo \<Rightarrow> bool" where
  "info_typed info \<longleftrightarrow> map_wf (mReqHeader info) \<and> map_wf (mResponseHeader info) \<and> map_wf (mDupResponseHeader info) \<and>
     length (mReqBody info) < 10 ^ 8"

definition position_ok :: "RequestInfo \<Rightarrow> bool" where
  "position_ok info \<longleftrightarrow> unat (offset info) \<le> length (mReqBody info)"

definition session_ok :: "'t compare_session \<Rightarrow> bool" where
  "session_ok s \<longleftrightarrow> (\<forall>info. cr_info (ses_request s) = Some info \<longrightarrow> info_typed info) \<and>
     (ses_in s = InRead \<longrightarrow> (\<exists>info. cr_info (ses_request s) = Some info \<and> position_ok info))"

lemma initRequest_typed:
  "\<exists>info. cr_info (initRequest E A mem rnd q) = Some info \<and> info_typed info \<and> mBody info = []"
  by (auto simp: initRequest_def compare_makeRequestInfo_def RequestInfo_start_def RequestInfo_members_def Let_def
      info_typed_def intro!: headers_wf split: prod.splits)

lemma header_lines_wf: "header_lines ls m = (m', e) \<Longrightarrow> map_wf m \<Longrightarrow> map_wf m'"
  by (induction ls m rule: header_lines.induct) (auto split: option.splits)

lemma read_section_bound: "read_section E body pos = Inr (s, pos') \<Longrightarrow> length s < 10 ^ 8"
  by (auto simp: read_section_def getLength_def substr_def MAX_SECTION_SIZE_def SECTION_SIZE_CHARS_def
      split: option.splits sum.splits if_splits)

lemma deserializeBody_typed:
  assumes "deserializeBody E info = (st, info')" "info_typed info"
  shows "info_typed info'" "offset info' = offset info"
  using assms
  by (auto simp: deserializeBody_def deserializeHeader_def info_typed_def Let_def dest: read_section_bound header_lines_wf
      split: if_splits sum.splits prod.splits option.splits)

lemma collect_response_keeps:
  "info_typed (collect_response now b info) = info_typed info" "position_ok (collect_response now b info) = position_ok info"
  by (induction now b info rule: collect_response.induct) (auto simp: info_typed_def position_ok_def eos_seen_def Let_def)

lemma to_send_any:
  assumes "k \<le> len" "len < 10 ^ 8"
  shows "0 \<le> to_int32 (uint (min (word_of_nat len - ucast (word_of_nat k :: uint32)) x :: size_t)) \<and>
    to_int32 (uint (min (word_of_nat len - ucast (word_of_nat k :: uint32)) x :: size_t)) \<le> int len - int k"
proof -
  let ?d = "word_of_nat len - ucast (word_of_nat k :: uint32) :: size_t"
  have "unat (word_of_nat k :: uint32) = k" using assms by (intro unat_of_nat_small) simp
  then have "uint (ucast (word_of_nat k :: uint32) :: size_t) = int k" by (metis unat_ucast_32_64 uint_nat)
  moreover have "uint (word_of_nat len :: size_t) = int len" using assms by (simp add: uint_nat unat_of_nat_small)
  ultimately have "uint ?d = int len - int k" using assms by (simp add: uint_word_ariths)
  moreover have "uint (min ?d x) \<le> uint ?d" by (simp add: word_le_def [symmetric])
  ultimately have le: "uint (min ?d x) \<le> int len - int k" by simp
  moreover have "- (2 ^ 31) \<le> uint (min ?d x)" by (rule order_trans [OF _ uint_ge_0]) simp
  ultimately have "to_int32 (uint (min ?d x)) = uint (min ?d x)" using assms by (intro to_int32_id) simp_all
  then show ?thesis using le by simp
qed

lemma serve_body_ok:
  assumes "serve_body nxt wst n r pB = (out, r')" "cr_info r = Some info" "info_typed info" "position_ok info"
  shows "\<exists>info'. cr_info r' = Some info' \<and> info_typed info' \<and> position_ok info'"
proof -
  define k where "k = unat (offset info)"
  have off: "offset info = word_of_nat k" by (simp add: k_def)
  have k: "k \<le> length (mReqBody info)" "length (mReqBody info) < 10 ^ 8"
    using assms(3,4) by (simp_all add: k_def position_ok_def info_typed_def)
  define z where "z = to_int32 (uint (min (word_of_nat (length (mReqBody info)) - ucast (offset info)) (word_of_int n) :: size_t))"
  have z: "0 \<le> z" "z \<le> int (length (mReqBody info)) - int k"
    using to_send_any [OF k, of "word_of_int n"] by (simp_all add: z_def off)
  have "offset info + word_of_int z = word_of_nat (k + nat z)" using z by (simp add: off)
  moreover have "unat (word_of_nat (k + nat z) :: uint32) = k + nat z" using k z by (intro unat_of_nat_small) simp
  ultimately have "unat (offset info + word_of_int z) = k + nat z" by metis
  then have "position_ok (info\<lparr>offset := offset info + word_of_int z\<rparr>)" "info_typed (info\<lparr>offset := offset info + word_of_int z\<rparr>)"
    using z assms(3) by (simp_all add: position_ok_def info_typed_def)
  then show ?thesis
    using assms by (auto simp: serve_body_def Let_def z_def [symmetric] split: if_splits)
qed

lemma input_ok:
  assumes "compare_inputFilterHandler E A mem rnd now bs nxt wst n (Some r) ctx pB = Some (out, Some r', ctx')"
    and "\<forall>info. cr_info r = Some info \<longrightarrow> info_typed info"
    and "ctx = InRead \<longrightarrow> (\<exists>info. cr_info r = Some info \<and> position_ok info)"
  shows "(\<forall>info. cr_info r' = Some info \<longrightarrow> info_typed info) \<and>
    (ctx' = InRead \<longrightarrow> (\<exists>info. cr_info r' = Some info \<and> position_ok info))"
proof (cases "\<not> is_response_dup A r \<or> \<not> cr_per_dir_config r \<or> cr_conf r = None")
  case True
  then have "r' = r \<and> ctx' = ctx" using assms(1) by (auto simp: compare_inputFilterHandler_def)
  then show ?thesis using assms(2,3) by simp
next
  case False
  show ?thesis
  proof (cases ctx)
    case InRead
    then obtain info where "cr_info r = Some info" "info_typed info" "position_ok info" using assms(2,3) by blast
    moreover obtain out' where "serve_body nxt wst n r pB = (out', r')" "ctx' = InRead"
      using assms(1) False InRead by (auto simp: compare_inputFilterHandler_def split: prod.splits)
    ultimately show ?thesis using serve_body_ok by fastforce
  next
    case InNull
    define r1 where "r1 = (if cr_info r = None then initRequest E A mem rnd r else r)"
    obtain info where info: "cr_info r1 = Some info" "info_typed info"
      using initRequest_typed [of E A mem rnd r] assms(2) by (cases "cr_info r") (auto simp: r1_def)
    obtain body where body: "read_body bs 0 (mBody info) = Some body"
      using assms(1) False InNull info(1)
      by (auto simp: compare_inputFilterHandler_def r1_def [symmetric] Let_def split: option.splits)
    obtain st info1 where d: "deserializeBody E (info\<lparr>mBody := body, offset := 0\<rparr>) = (st, info1)" by fastforce
    have t1: "info_typed (resetStartTime now info1)" "position_ok (resetStartTime now info1)"
      using deserializeBody_typed [OF d] info(2) by (simp_all add: info_typed_def position_ok_def resetStartTime_def)
    show ?thesis
    proof (cases "st = OK")
      case True
      define r3 where "r3 = r1\<lparr>cr_info := Some (resetStartTime now info1), rq_headers_in :=
          apr_table_set A (rq_headers_in r1) ''Content-Length'' (lexical_string E (int (length (mReqBody info1))))\<rparr>"
      have "\<exists>out'. serve_body nxt wst n r3 [] = (out', r') \<and> ctx' = InRead"
        using assms(1) False InNull info(1) body d True
        by (auto simp: compare_inputFilterHandler_def r1_def [symmetric] r3_def Let_def split: prod.splits)
      then show ?thesis using serve_body_ok [of nxt wst n r3 "[]" _ r' "resetStartTime now info1"] t1 by (fastforce simp: r3_def)
    next
      case False
      then show ?thesis
        using assms(1) InNull info(1) body d t1 \<open>\<not> (\<not> is_response_dup A r \<or> \<not> cr_per_dir_config r \<or> cr_conf r = None)\<close>
        by (auto simp: compare_inputFilterHandler_def r1_def [symmetric] Let_def split: prod.splits)
    qed
  qed
qed

lemma output_ok:
  assumes "compare_outputFilterHandler A now opens b ctx r g = (ctx', r', g')"
  shows "cr_info r' = cr_info r \<or> (\<exists>info. cr_info r = Some info \<and> cr_info r' = Some (collect_response now b info))"
  using assms by (auto simp: compare_outputFilterHandler_def Let_def split: if_splits option.splits)

lemma output2_ok:
  assumes "compare_outputFilterHandler2 E A D archive mutex t today ctx r g = Inr (ctx', r', g')"
  shows "cr_info r' = cr_info r \<or> (\<exists>info info'. cr_info r = Some info \<and> cr_info r' = Some info' \<and>
    (info_typed info \<longrightarrow> info_typed info') \<and> (position_ok info \<longrightarrow> position_ok info'))"
  using assms
  by (auto simp: compare_outputFilterHandler2_def Let_def info_typed_def position_ok_def headers_wf
      split: if_splits option.splits sum.splits)

lemma hook_ok:
  assumes "compare_translateHook E A mem rnd r = (st, r')" "\<forall>info. cr_info r = Some info \<longrightarrow> info_typed info"
  shows "\<forall>info. cr_info r' = Some info \<longrightarrow> info_typed info"
proof -
  have "r' = r \<or> r' = initRequest E A mem rnd r"
    using assms(1) by (auto simp: compare_translateHook_def split: if_splits option.splits)
  then show ?thesis using assms(2) initRequest_typed [of E A mem rnd r] by auto
qed

lemma step_keeps_ok: "compare_step E A D s s' \<Longrightarrow> session_ok s \<Longrightarrow> session_ok s'"
proof (induction rule: compare_step.induct)
  case (step_hook s mem rnd st r')
  from step_hook(3) have "\<forall>info. cr_info (ses_request s) = Some info \<longrightarrow> info_typed info"
    unfolding session_ok_def by blast
  then have "\<forall>info. cr_info r' = Some info \<longrightarrow> info_typed info" by (rule hook_ok [OF step_hook(2)])
  then show ?case by (simp add: session_ok_def step_hook(1))
next
  case (step_input mem rnd now bs nxt wst n s pB out r' ctx)
  have "(\<forall>info. cr_info r' = Some info \<longrightarrow> info_typed info) \<and>
      (ctx = InRead \<longrightarrow> (\<exists>info. cr_info r' = Some info \<and> position_ok info))"
    by (rule input_ok [OF step_input(1)]) (use step_input(2) in \<open>auto simp: session_ok_def\<close>)
  then show ?case by (simp add: session_ok_def)
next
  case (step_handler s st h)
  then show ?case by (simp add: session_ok_def)
next
  case (step_output now opens b s ctx r' g)
  show ?case
    using output_ok [OF step_output(1)] step_output(2) by (auto simp: session_ok_def collect_response_keeps)
next
  case (step_output2 archive mutex t today s ctx r' g)
  show ?case
    using output2_ok [OF step_output2(1)] step_output2(2) by (auto simp: session_ok_def)
qed

text \<open>C11: wherever a request stands in the compare module, with the filters called in any order and any data, the
  headers it carries are maps, a body it has unpacked is shorter than \<open>10^8\<close> bytes, and once the body has been
  read there is a \<open>RequestInfo\<close> whose position lies inside the body. So the input filter neither dereferences a
  null pointer nor reads past the end of the body, whatever size is asked for, and the difference it computes without sign does
  not wrap.\<close>

theorem compare_session_typed:
  assumes "compare_reaches E A D (session_start r g) s"
  shows "(\<forall>info. cr_info (ses_request s) = Some info \<longrightarrow>
      map_wf (mReqHeader info) \<and> map_wf (mResponseHeader info) \<and> map_wf (mDupResponseHeader info) \<and>
      length (mReqBody info) < 10 ^ 8) \<and>
    (ses_in s = InRead \<longrightarrow> (\<exists>info. cr_info (ses_request s) = Some info \<and> unat (offset info) \<le> length (mReqBody info)))"
proof -
  have "session_ok s"
    using assms
  proof (induction "session_start r g" s rule: compare_reaches.induct)
    case session_refl
    then show ?case by (simp add: session_ok_def session_start_def)
  next
    case (session_step u v)
    then show ?case using step_keeps_ok by blast
  qed
  then show ?thesis by (simp add: session_ok_def info_typed_def position_ok_def)
qed

theorem compare_session_typed_witness:
  "\<forall>mem. \<exists>info. cr_info (initRequest ref_lib ref_apr mem None dup_request) = Some info \<and> map_wf (mReqHeader info)"
proof
  fix mem
  let ?s = "session_start dup_request compare_globals"
  have r: "ses_request ?s = dup_request" by (simp add: session_start_def dup_request_def)
  have "compare_translateHook ref_lib ref_apr mem None (ses_request ?s) = (DECLINED, initRequest ref_lib ref_apr mem None dup_request)"
    unfolding r by (simp add: compare_translateHook_def) (simp add: dup_request_def)
  then have "compare_step ref_lib ref_apr ref_diff_lib ?s (?s\<lparr>ses_request := initRequest ref_lib ref_apr mem None dup_request\<rparr>)"
    by (intro step_hook) (simp_all add: session_start_def)
  then have "compare_reaches ref_lib ref_apr ref_diff_lib ?s (?s\<lparr>ses_request := initRequest ref_lib ref_apr mem None dup_request\<rparr>)"
    by (rule session_step [OF session_refl])
  from compare_session_typed [OF this]
  show "\<exists>info. cr_info (initRequest ref_lib ref_apr mem None dup_request) = Some info \<and> map_wf (mReqHeader info)"
    using initRequest_info [of ref_lib ref_apr mem None dup_request] by auto
qed

end
