(* ===== verification/Compare_Verdict.thy ===== *)
theory Compare_Verdict
  imports Compare_Session
begin

text \<open>
  A duplicated request from mod_dup to the report of mod_compare: the hook, the reads of the body, the response in any
  number of brigades and the comparison, composed.
\<close>

section \<open>From the duplication to the report\<close>

text \<open>The calls of the first output filter, one per brigade of the response with the time of the call.\<close>

fun response_calls ::
    "'t apr_lib \<Rightarrow> (int \<times> bucket list) list \<Rightarrow> filter_ctx \<times> 't compare_request \<times> compare_state \<Rightarrow>
     filter_ctx \<times> 't compare_request \<times> compare_state" where
  "response_calls A [] st = st"
| "response_calls A ((now, b) # bs) (ctx, r, g) = response_calls A bs (compare_outputFilterHandler A now True b ctx r g)"

fun brigade_data :: "bucket list \<Rightarrow> string" where
  "brigade_data [] = []"
| "brigade_data (Data_bucket (Inr d) # bs) = d @ brigade_data bs"
| "brigade_data (b # bs) = brigade_data bs"

definition response_text :: "(int \<times> bucket list) list \<Rightarrow> string" where
  "response_text bs = concat (map (\<lambda>p. brigade_data (snd p)) bs)"

definition response_ends :: "(int \<times> bucket list) list \<Rightarrow> bool" where
  "response_ends bs \<longleftrightarrow> (\<exists>p \<in> set bs. EOS_bucket \<in> set (snd p))"

definition collected :: "string \<Rightarrow> bool \<Rightarrow> int \<Rightarrow> RequestInfo \<Rightarrow> RequestInfo" where
  "collected tx eos el info = info\<lparr>mDupResponseBody := mDupResponseBody info @ tx, mEOS := mEOS info \<or> eos, mElapsedTime := el\<rparr>"

lemma collect_response_collected:
  "\<exists>el. collect_response now b info = collected (brigade_data b) (EOS_bucket \<in> set b) el info"
proof (induction now b info rule: collect_response.induct)
  case (1 now req)
  then show ?case by (intro exI [of _ "mElapsedTime req"]) (simp add: collected_def)
next
  case (2 now bs req)
  then show ?case by (auto simp: collected_def eos_seen_def Let_def)
next
  case (5 now data bs req)
  then show ?case by (auto simp: collected_def)
qed simp_all

lemma collected_twice:
  "collected tx2 e2 el2 (collected tx1 e1 el1 info) = collected (tx1 @ tx2) (e1 \<or> e2) el2 info"
  by (simp add: collected_def disj_assoc)

lemma response_calls_collected:
  assumes "find_str ''comp_truncate'' (rq_uri r) = None" "cr_per_dir_config r" "is_response_dup A r" "cr_conf r \<noteq> None"
    and "apr_table_get A (rq_headers_in r) ''X_COMP_LOG'' = None" "cr_info r = Some info"
  shows "\<exists>el. response_calls A bs (CtxNull, r, g) =
    (CtxNull, r\<lparr>cr_info := Some (collected (response_text bs) (response_ends bs) el info)\<rparr>, g)"
  using assms
proof (induction bs arbitrary: r info)
  case Nil
  then have "r = r\<lparr>cr_info := Some (collected [] False (mElapsedTime info) info)\<rparr>" by (simp add: collected_def)
  then show ?case by (auto simp: response_text_def response_ends_def)
next
  case (Cons p bs)
  obtain now b where p: "p = (now, b)" by (cases p)
  obtain el where el: "collect_response now b info = collected (brigade_data b) (EOS_bucket \<in> set b) el info"
    using collect_response_collected by blast
  let ?r = "r\<lparr>cr_info := Some (collected (brigade_data b) (EOS_bucket \<in> set b) el info)\<rparr>"
  have "compare_outputFilterHandler A now True b CtxNull r g = (CtxNull, ?r, g)"
    using Cons.prems el by (auto simp: compare_outputFilterHandler_def Let_def)
  moreover obtain el2 where "response_calls A bs (CtxNull, ?r, g) =
      (CtxNull, ?r\<lparr>cr_info := Some (collected (response_text bs) (response_ends bs) el2
        (collected (brigade_data b) (EOS_bucket \<in> set b) el info))\<rparr>, g)"
    using Cons.IH [of ?r "collected (brigade_data b) (EOS_bucket \<in> set b) el info"] Cons.prems
    by (auto simp: is_response_dup_def)
  ultimately show ?case
    by (auto simp: p collected_twice response_text_def response_ends_def)
qed

lemma log_keys:
  "\<not> same_key ''UNIQUE_ID'' ''X_COMP_LOG''" "\<not> same_key ''X_DUP_METHOD'' ''X_COMP_LOG''"
  "\<not> same_key ''X-COMPARE-TRANSLATED'' ''X_COMP_LOG''" "\<not> same_key ''Content-Type'' ''X_COMP_LOG''"
  "\<not> same_key ''X_DUP_CONTENT_TYPE'' ''X_COMP_LOG''" "\<not> same_key ''ELAPSED_TIME_BY_DUP'' ''X_COMP_LOG''"
  "\<not> same_key ''X_DUP_HTTP_STATUS'' ''X_COMP_LOG''" "\<not> same_key ''Content-Length'' ''X_COMP_LOG''"
  by (simp_all add: same_key_def tolower_def)

lemma initRequest_log_key:
  assumes "apr_documented A"
  shows "apr_table_get A (rq_headers_in (initRequest E A mem rnd q)) ''X_COMP_LOG'' = apr_table_get A (rq_headers_in q) ''X_COMP_LOG''"
proof -
  obtain info r1 where r1: "compare_makeRequestInfo E A mem rnd q = (info, r1)" by fastforce
  have "apr_table_get A (restored_headers A h) ''X_COMP_LOG'' = apr_table_get A h ''X_COMP_LOG''" for h
    using assms by (simp add: restored_headers_def apr_get_set apr_get_unset log_keys Let_def split: option.split)
  then show ?thesis
    using initRequest_restored_headers [OF r1] makeRequestInfo_headers [OF assms r1 log_keys(1)] by simp
qed

lemma initRequest_uri:
  "rq_uri (initRequest E A mem rnd q) = rq_uri q" "cr_unparsed_uri (initRequest E A mem rnd q) = cr_unparsed_uri q"
proof -
  obtain info r1 where r1: "compare_makeRequestInfo E A mem rnd q = (info, r1)" by fastforce
  then have "rq_uri r1 = rq_uri q \<and> cr_unparsed_uri r1 = cr_unparsed_uri q"
    by (auto simp: compare_makeRequestInfo_def getOrSetUniqueID_def Let_def split: option.splits)
  then show "rq_uri (initRequest E A mem rnd q) = rq_uri q"
      "cr_unparsed_uri (initRequest E A mem rnd q) = cr_unparsed_uri q"
    by (simp_all add: initRequest_def changeMethod_def r1 Let_def split: option.split)
qed

lemma initRequest_fresh:
  "\<exists>info. cr_info (initRequest E A mem rnd q) = Some info \<and> mBody info = [] \<and> mResponseHeader info = [] \<and>
     mDupResponseHeader info = [] \<and> mDupResponseBody info = []"
  by (auto simp: initRequest_def compare_makeRequestInfo_def RequestInfo_start_def RequestInfo_members_def Let_def
      split: prod.splits)

text \<open>The headers mod_dup serialised, as the map mod_compare reads.\<close>

definition original_headers :: "RequestInfo \<Rightarrow> mapStrings" where
  "original_headers r = foldl (\<lambda>m (k, v). map_put k v m) [] (mHeadersOut r)"

lemma replayed_request:
  assumes "apr_documented A" "is_response_dup A q" "cr_per_dir_config q" "cr_conf q = Some conf"
    and "apr_table_get A (rq_headers_in q) ''X_COMP_LOG'' = None" "find_str ''comp_truncate'' (rq_uri q) = None"
    and "r2 = (initRequest E A mem rnd q)\<lparr>cr_info := Some info, rq_headers_in := apr_table_set A
           (rq_headers_in (initRequest E A mem rnd q)) ''Content-Length'' v, rq_status := st, rq_headers_out := h\<rparr>"
  shows "\<exists>el. response_calls A bs (CtxNull, r2, g) =
    (CtxNull, r2\<lparr>cr_info := Some (collected (response_text bs) (response_ends bs) el info)\<rparr>, g)"
proof (rule response_calls_collected)
  show "find_str ''comp_truncate'' (rq_uri r2) = None" using assms(6,7) by (simp add: initRequest_uri)
  show "is_response_dup A r2"
    using assms(1,2,7) initRequest_headers(6) [OF assms(1), of E mem rnd q] compare_keys(23)
    by (simp add: is_response_dup_def apr_get_set)
  show "apr_table_get A (rq_headers_in r2) ''X_COMP_LOG'' = None"
    using assms(1,5,7) initRequest_log_key [OF assms(1), of E mem rnd q] log_keys(8) by (simp add: apr_get_set)
qed (use assms(3,4,7) initRequest_sel [of E A mem rnd q] in simp_all)

text \<open>C3: the three stages together. mod_dup has sent the request \<open>r\<close> with its answer; mod_compare receives it as
  \<open>q\<close>, restores and serves it, the server answers with the headers \<open>h\<close> and the brigades \<open>rs\<close>, and the
  report is decided: the log file grows exactly when the headers or the body of the new response differ, under the
  configuration of the location, from the headers and the answer of the original one. Every stage returns.\<close>

theorem duplicate_verdict:
  assumes "apr_documented A" "lexical_reads_decimals E" "join_intersperses E" "split_keeps_text E" "json_writer_line D"
    and "section_fits (mBody r)" "section_fits (answerHeaders (mHeadersOut r))" "section_fits (mAnswer r)"
    and "list_all plain_header (mHeadersOut r)"
    and "is_response_dup A q" "cr_per_dir_config q" "cr_conf q = Some conf" "mIsActive conf" "\<not> mCompareDisabled conf"
    and "cr_connection_pool q" "apr_table_get A (rq_headers_in q) ''X_COMP_LOG'' = None"
    and "find_str ''comp_truncate'' (rq_uri q) = None" "cr_unparsed_uri q \<noteq> []"
    and "elapsed_readable E (the (cr_info (initRequest E A mem rnd q)))"
    and "ends_body (bs n)" "\<forall>i<n. \<not> ends_body (bs i)" "stream_text bs 0 n = dupFormat r"
    and "brigade_text (snd (nxt [])) = []" "ns \<noteq> []" "\<forall>k \<in> set ns. 0 \<le> k \<and> k < 2 ^ 63"
    and "response_ends rs" "gWriteInFile g" "gFile_open g" "differences g = []"
  shows "\<exists>q1 outs q2 q3 q4 tx. compare_translateHook E A mem rnd q = (DECLINED, q1) \<and>
    compare_calls E A mem rnd now bs nxt ns (Some q1, InNull) = Some (outs, Some q2, InRead) \<and>
    concat (map (\<lambda>p. brigade_text (snd p)) outs) = take (nat (sum_list ns)) (mBody r) \<and>
    response_calls A rs (CtxNull, q2\<lparr>rq_status := st, rq_headers_out := h\<rparr>, g) = (CtxNull, q3, g) \<and>
    compare_outputFilterHandler2 E A D archive True t today CtxNull q3 g =
      Inr (CtxDone, q4,
        if headers_differ E (mCompHeader conf) (original_headers r) (foldl compare_iterateOverHeaders [] (apr_table_do A h)) \<or>
           bodies_differ E (mCompBody conf) (mAnswer r) (response_text rs)
        then g\<lparr>gFile := gFile g @ tx\<rparr> else g) \<and> tx \<noteq> []"
proof -
  define q1 where "q1 = initRequest E A mem rnd q"
  have hook: "compare_translateHook E A mem rnd q = (DECLINED, q1)"
    using assms(11-15) by (simp add: compare_translateHook_def q1_def)
  obtain info where info: "cr_info q1 = Some info" "mBody info = []" "mResponseHeader info = []"
      "mDupResponseHeader info = []" "mDupResponseBody info = []"
    using initRequest_fresh [of E A mem rnd q] by (auto simp: q1_def)
  have dup: "is_response_dup A q1" "cr_per_dir_config q1" "cr_conf q1 = Some conf"
    using assms(10-12) initRequest_headers(6) [OF assms(1), of E mem rnd q] initRequest_sel [of E A mem rnd q]
    by (simp_all add: is_response_dup_def q1_def)
  define q2 where "q2 off = q1\<lparr>cr_info := Some (replayed r now off info),
        rq_headers_in := apr_table_set A (rq_headers_in q1) ''Content-Length''
          (lexical_string E (int (length (mBody r))))\<rparr>" for off
  obtain outs off where calls: "compare_calls E A mem rnd now bs nxt ns (Some q1, InNull) = Some (outs, Some (q2 off), InRead)"
      "concat (map (\<lambda>p. brigade_text (snd p)) outs) = take (nat (sum_list ns)) (mBody r)"
    using replay_result [where q = q1 and ?r1.0 = q1 and nxt = nxt and bs = bs and n = n and ns = ns and r = r and E = E and A = A
        and mem = mem and rnd = rnd and now = now and info = info] assms(1,2,6-9,20-25) dup info
    by (auto simp: q2_def)
  define q3 where "q3 el = (q2 off)\<lparr>rq_status := st, rq_headers_out := h,
      cr_info := Some (collected (response_text rs) True el (replayed r now off info))\<rparr>" for el
  obtain el where resp: "response_calls A rs (CtxNull, (q2 off)\<lparr>rq_status := st, rq_headers_out := h\<rparr>, g) = (CtxNull, q3 el, g)"
    using replayed_request [OF assms(1,10-12,16,17), where ?r2.0 = "(q2 off)\<lparr>rq_status := st, rq_headers_out := h\<rparr>" and E = E and
        mem = mem and rnd = rnd and info = "replayed r now off info" and v = "lexical_string E (int (length (mBody r)))" and
        st = st and h = h and bs = rs and g = g] assms(26)
    by (auto simp: q2_def q3_def q1_def)
  let ?info = "collected (response_text rs) True el (replayed r now off info)"
  have i: "mResponseHeader ?info = original_headers r" "mDupResponseHeader ?info = []" "mResponseBody ?info = mAnswer r"
      "mDupResponseBody ?info = response_text rs" "mEOS ?info" "elapsed_readable E ?info"
    using info assms(19)
    by (simp_all add: collected_def replayed_def original_headers_def elapsed_readable_def q1_def [symmetric])
  have wf: "map_wf (original_headers r)" unfolding original_headers_def by (rule smap.put_all_invar) simp
  have q3: "cr_conf (q3 el) = Some conf" "cr_info (q3 el) = Some ?info" "cr_unparsed_uri (q3 el) \<noteq> []"
      "rq_headers_out (q3 el) = h"
    using dup(3) assms(18) by (simp_all add: q3_def q2_def q1_def initRequest_uri)
  obtain q4 tx where "tx \<noteq> []" "compare_outputFilterHandler2 E A D archive True t today CtxNull (q3 el) g =
      Inr (CtxDone, q4,
        if headers_differ E (mCompHeader conf) (original_headers r) (foldl compare_iterateOverHeaders [] (apr_table_do A h)) \<or>
           bodies_differ E (mCompBody conf) (mAnswer r) (response_text rs)
        then g\<lparr>gFile := gFile g @ tx\<rparr> else g)"
    using compare_filter_result [OF assms(3-5) q3(1,2) i(5) assms(14), of g A archive t today] i wf q3(3,4) assms(27-29)
    by (auto simp: dup_headers_def checkCassandraDiff_def)
  then show ?thesis using hook calls resp by blast
qed

text \<open>For the witness: with lists as tables, the headers the hook collects come from the request or are set by the
  hook.\<close>

lemma keys_list_set: "fst ` set (list_set t k v) \<subseteq> insert k (fst ` set t)"
  by (induction t k v rule: list_set.induct) auto

lemma ref_table_keys:
  "fst ` set (apr_table_set ref_apr t k v) \<subseteq> insert k (fst ` set t)" "fst ` set (apr_table_unset ref_apr t k) \<subseteq> fst ` set t"
  "apr_table_do ref_apr t = t"
  using keys_list_set by (auto simp: ref_apr_def)

lemma insert_chain:
  "S1 \<subseteq> insert a S \<Longrightarrow> S2 \<subseteq> S1 \<Longrightarrow> S3 \<subseteq> insert b S2 \<Longrightarrow> S4 \<subseteq> insert c S3 \<Longrightarrow> S4 \<subseteq> {a, b, c} \<union> S"
  by blast

lemma initRequest_keys:
  "\<exists>info h. cr_info (initRequest E ref_apr mem rnd q) = Some info \<and> mReqHeader info = foldl compare_iterateOverHeaders [] h \<and>
     fst ` set h \<subseteq> {''UNIQUE_ID'', ''X-COMPARE-TRANSLATED'', ''Content-Type''} \<union> fst ` set (rq_headers_in q)"
proof -
  obtain info r1 where r1: "compare_makeRequestInfo E ref_apr mem rnd q = (info, r1)" by fastforce
  have hq: "rq_headers_in r1 = rq_headers_in q \<or> (\<exists>v. rq_headers_in r1 = apr_table_set ref_apr (rq_headers_in q) ''UNIQUE_ID'' v)"
    and m: "mReqHeader info = []"
    using r1
    by (auto simp: compare_makeRequestInfo_def getOrSetUniqueID_def c_UNIQUE_ID_def RequestInfo_start_def RequestInfo_members_def
        Let_def split: option.splits)
  from hq have k1: "fst ` set (rq_headers_in r1) \<subseteq> insert ''UNIQUE_ID'' (fst ` set (rq_headers_in q))"
    by (elim disjE exE) (simp_all add: ref_table_keys(1) subset_insertI)
  define h2 where "h2 = (case apr_table_get ref_apr (rq_headers_in r1) ''X_DUP_METHOD'' of
      None \<Rightarrow> rq_headers_in r1 | Some m \<Rightarrow> apr_table_unset ref_apr (rq_headers_in r1) ''X_DUP_METHOD'')"
  define h3 where "h3 = (case apr_table_get ref_apr h2 ''Content-Type'' of None \<Rightarrow> h2
      | Some c \<Rightarrow> if take 28 c = DUP_SERIALIZED then apr_table_set ref_apr h2 ''X-COMPARE-TRANSLATED'' ''1'' else h2)"
  define h4 where "h4 = (case apr_table_get ref_apr h3 ''X_DUP_CONTENT_TYPE'' of None \<Rightarrow> h3
      | Some c \<Rightarrow> apr_table_unset ref_apr (apr_table_set ref_apr h3 ''Content-Type'' c) ''X_DUP_CONTENT_TYPE'')"
  have k2: "fst ` set h2 \<subseteq> fst ` set (rq_headers_in r1)"
    unfolding h2_def by (simp add: ref_table_keys(2) split: option.split)
  have k3: "fst ` set h3 \<subseteq> insert ''X-COMPARE-TRANSLATED'' (fst ` set h2)"
    unfolding h3_def by (simp add: ref_table_keys(1) subset_insertI split: option.split)
  have k4: "fst ` set h4 \<subseteq> insert ''Content-Type'' (fst ` set h3)"
    unfolding h4_def
    by (simp add: order_trans [OF ref_table_keys(2) ref_table_keys(1)] subset_insertI split: option.split)
  from k1 k2 k3 k4
  have "fst ` set h4 \<subseteq> {''UNIQUE_ID'', ''X-COMPARE-TRANSLATED'', ''Content-Type''} \<union> fst ` set (rq_headers_in q)"
    by (rule insert_chain)
  moreover have "\<exists>i. cr_info (initRequest E ref_apr mem rnd q) = Some i \<and> mReqHeader i = foldl compare_iterateOverHeaders [] h4"
    by (simp add: initRequest_def r1 m ref_table_keys(3) h4_def h3_def h2_def Let_def split: option.split)
  ultimately show ?thesis by blast
qed

lemma put_all_missing: "map_wf m \<Longrightarrow> map_find m k = None \<Longrightarrow> k \<notin> fst ` set h \<Longrightarrow>
    map_find (foldl compare_iterateOverHeaders m h) k = None"
proof (induction h arbitrary: m)
  case (Cons kv h)
  then show ?case by (cases kv) simp
qed simp

lemma dup_request_elapsed: "elapsed_readable E (the (cr_info (initRequest E ref_apr mem rnd dup_request)))"
proof -
  obtain info h where "cr_info (initRequest E ref_apr mem rnd dup_request) = Some info"
      "mReqHeader info = foldl compare_iterateOverHeaders [] h"
      "fst ` set h \<subseteq> {''UNIQUE_ID'', ''X-COMPARE-TRANSLATED'', ''Content-Type''} \<union> fst ` set (rq_headers_in dup_request)"
    using initRequest_keys by metis
  moreover from this(3) have "''ELAPSED_TIME_BY_DUP'' \<notin> fst ` set h" by (auto simp: dup_request_def)
  ultimately show ?thesis by (simp add: elapsed_readable_def put_all_missing)
qed

theorem duplicate_verdict_witness:
  "\<forall>mem. \<exists>q1 outs q2 q3 q4. compare_translateHook ref_lib ref_apr mem None dup_request = (DECLINED, q1) \<and>
     compare_calls ref_lib ref_apr mem None 0
       (dup_stream ((RequestInfo_start mem ''i'' 0)\<lparr>mBody := ''abc'', mAnswer := ''xyz''\<rparr>)) (\<lambda>b. (APR_SUCCESS, b)) [2, 2]
       (Some q1, InNull) = Some (outs, Some q2, InRead) \<and>
     response_calls ref_apr [(0, [Data_bucket (Inr ''xyz''), EOS_bucket])]
       (CtxNull, q2\<lparr>rq_status := 200, rq_headers_out := []\<rparr>, compare_globals\<lparr>gFile_open := True\<rparr>) =
       (CtxNull, q3, compare_globals\<lparr>gFile_open := True\<rparr>) \<and>
     compare_outputFilterHandler2 ref_lib ref_apr (ref_diff_lib\<lparr>json_write := (\<lambda>j. [NL])\<rparr>) (\<lambda>_. []) True 1 ''d'' CtxNull q3
       (compare_globals\<lparr>gFile_open := True\<rparr>) = Inr (CtxDone, q4, compare_globals\<lparr>gFile_open := True\<rparr>)"
proof
  fix mem
  let ?r = "(RequestInfo_start mem ''i'' 0)\<lparr>mBody := ''abc'', mAnswer := ''xyz''\<rparr>" and ?g = "compare_globals\<lparr>gFile_open := True\<rparr>"
  let ?D = "ref_diff_lib\<lparr>json_write := (\<lambda>j. [NL])\<rparr>" and ?c = "(CompareConf_new ''/p'')\<lparr>mIsActive := True\<rparr>"
  let ?rs = "[(0, [Data_bucket (Inr ''xyz''), EOS_bucket])]"
  have ends: "ends_body (dup_stream ?r 1)" "\<forall>i<1. \<not> ends_body (dup_stream ?r i)"
    by (simp_all add: dup_stream_def ends_body_def extractBrigadeContent_def)
  have stream: "stream_text (dup_stream ?r) 0 1 = dupFormat ?r"
    by (simp add: stream_text_def dup_stream_def)
  have h: "mHeadersOut ?r = []" by (simp add: RequestInfo_start_def RequestInfo_members_def)
  have q: "is_response_dup ref_apr dup_request" "apr_table_get ref_apr (rq_headers_in dup_request) ''X_COMP_LOG'' = None"
    by (simp_all add: is_response_dup_def dup_request_def ref_apr_def same_key_def tolower_def)
  have q': "cr_per_dir_config dup_request" "cr_conf dup_request = Some ?c" "mIsActive ?c" "\<not> mCompareDisabled ?c"
      "cr_connection_pool dup_request" "find_str ''comp_truncate'' (rq_uri dup_request) = None" "cr_unparsed_uri dup_request \<noteq> []"
    by (simp_all add: dup_request_def CompareConf_new_def)
  have g: "gWriteInFile ?g" "gFile_open ?g" "differences ?g = []" by (simp_all add: compare_globals_def)
  have "\<not> headers_differ ref_lib (mCompHeader ?c) (original_headers ?r) (foldl compare_iterateOverHeaders [] (apr_table_do ref_apr []))"
    using h by (simp add: headers_differ_def original_headers_def ref_apr_def)
  moreover have "\<not> bodies_differ ref_lib (mCompBody ?c) (mAnswer ?r) (response_text ?rs)"
    by (simp add: bodies_differ_def response_text_def)
  ultimately show "\<exists>q1 outs q2 q3 q4. compare_translateHook ref_lib ref_apr mem None dup_request = (DECLINED, q1) \<and>
     compare_calls ref_lib ref_apr mem None 0 (dup_stream ?r) (\<lambda>b. (APR_SUCCESS, b)) [2, 2]
       (Some q1, InNull) = Some (outs, Some q2, InRead) \<and>
     response_calls ref_apr ?rs (CtxNull, q2\<lparr>rq_status := 200, rq_headers_out := []\<rparr>, ?g) = (CtxNull, q3, ?g) \<and>
     compare_outputFilterHandler2 ref_lib ref_apr ?D (\<lambda>_. []) True 1 ''d'' CtxNull q3 ?g = Inr (CtxDone, q4, ?g)"
    using duplicate_verdict [OF ref_apr_documented ref_lib_documented(4,2) ref_lib_split ref_json_line, where r = ?r and q = dup_request
        and conf = ?c and mem = mem and rnd = None and bs = "dup_stream ?r" and n = 1 and nxt = "\<lambda>b. (APR_SUCCESS, b)" and ns = "[2, 2]"
        and rs = ?rs and g = ?g and now = 0 and st = 200 and h = "[]" and archive = "\<lambda>_. []" and t = 1 and today = "''d''"]
      ends stream h q q' g dup_request_elapsed [of ref_lib mem None]
    by (simp add: section_fits_def answerHeaders_def response_ends_def) blast
qed

end
