(* ===== verification/Log_File.thy ===== *)
theory Log_File
  imports Mod_Compare "HOL-Library.Sublist"
begin

text \<open>
  The log file that all child processes of the server append to (response_diff.cc), and the mutex in shared memory that
  protects it (mod_compare.cc): the writers of \<open>Mod_Compare\<close> append in one step; here each of their operations on
  the file and the mutex is a step of its own, and the steps of the processes interleave.
\<close>

section \<open>The mutex in shared memory\<close>

text \<open>The object named \<open>mod_compare_log_mutex\<close>: whether it exists and whether the mutex in it has been
  initialised. Whether the system lets a process create or open it are arguments, and failures are only logged. The
  creation is two operations, because another process can act between them.\<close>

record shm =
  shm_exists :: bool
  shm_ready :: bool

definition shm_empty :: shm where
  "shm_empty = \<lparr>shm_exists = False, shm_ready = False\<rparr>"

datatype shm_result = ShmNew | ShmExists | ShmFailed

definition shm_create :: "bool \<Rightarrow> shm \<Rightarrow> shm_result \<times> shm" where
  "shm_create ok m =
     (if shm_exists m then (ShmExists, m)
      else if \<not> ok then (ShmFailed, m)
      else (ShmNew, m\<lparr>shm_exists := True\<rparr>))"

definition shm_init :: "shm \<Rightarrow> shm" where
  "shm_init m = m\<lparr>shm_ready := True\<rparr>"

definition createGlobalMutex :: "bool \<Rightarrow> shm \<Rightarrow> int \<times> shm" where
  "createGlobalMutex ok m =
     (case shm_create ok m of
        (ShmFailed, m1) \<Rightarrow> (-1, m1)
      | (ShmExists, m1) \<Rightarrow> (0, m1)
      | (ShmNew, m1) \<Rightarrow> (0, shm_init m1))"

definition destroyGlobalMutex :: "bool \<Rightarrow> shm \<Rightarrow> int \<times> shm" where
  "destroyGlobalMutex opens m =
     (if \<not> (shm_exists m \<and> opens) then (-1, m) else (0, m\<lparr>shm_exists := False, shm_ready := False\<rparr>))"

text \<open>\<open>mutex\<close> is the static pointer, \<open>False\<close> for null; the first component of the result is the pointer
  returned.\<close>

definition getGlobalMutex :: "bool \<Rightarrow> bool \<Rightarrow> bool \<Rightarrow> shm \<Rightarrow> bool \<times> bool \<times> shm" where
  "getGlobalMutex creates opens mutex m =
     (if mutex then (True, mutex, m)
      else (case createGlobalMutex creates m of
        (res, m1) \<Rightarrow>
          if res \<noteq> 0 then (False, mutex, m1)
          else if \<not> opens then (False, mutex, m1)
          else (True, True, m1)))"

section \<open>Writers of the log file\<close>

text \<open>Each child process has the file open for appending, with a buffer of its own. A writer locks the mutex, puts its text
  into the stream, which may pass any part of the buffer on to the file, and unlocks the mutex.
  \<open>writeDifferences\<close> flushes the stream before; \<open>writeSerializedRequest\<close> does not. A process may be killed at
  any moment; the mutex is robust, so that the next process to lock it takes it over.\<close>

datatype writer_phase = Idle | Locked string | Written | Flushed | Killed

record log_system =
  ls_file :: string
  ls_owner :: "nat option"
  ls_buffer :: "nat \<Rightarrow> string"
  ls_phase :: "nat \<Rightarrow> writer_phase"
  ls_history :: "(string \<times> bool) list"
    \<comment> \<open>the texts in the order the mutex was taken for them, and whether the writer has finished\<close>

definition log_start :: log_system where
  "log_start = \<lparr>ls_file = [], ls_owner = None, ls_buffer = (\<lambda>_. []), ls_phase = (\<lambda>_. Idle), ls_history = []\<rparr>"

definition mutex_free :: "log_system \<Rightarrow> bool" where
  "mutex_free s \<longleftrightarrow> (case ls_owner s of None \<Rightarrow> True | Some p \<Rightarrow> ls_phase s p = Killed)"

definition log_lock :: "nat \<Rightarrow> string \<Rightarrow> log_system \<Rightarrow> log_system" where
  "log_lock p res s = s\<lparr>ls_owner := Some p, ls_phase := (ls_phase s)(p := Locked res), ls_history := ls_history s @ [(res, False)]\<rparr>"

definition log_write :: "nat \<Rightarrow> string \<Rightarrow> nat \<Rightarrow> log_system \<Rightarrow> log_system" where
  "log_write p res n s =
     (let b = ls_buffer s p @ res
      in s\<lparr>ls_file := ls_file s @ take n b, ls_buffer := (ls_buffer s)(p := drop n b), ls_phase := (ls_phase s)(p := Written)\<rparr>)"

definition log_flush :: "nat \<Rightarrow> log_system \<Rightarrow> log_system" where
  "log_flush p s = s\<lparr>ls_file := ls_file s @ ls_buffer s p, ls_buffer := (ls_buffer s)(p := []), ls_phase := (ls_phase s)(p := Flushed)\<rparr>"

definition log_unlock :: "nat \<Rightarrow> log_system \<Rightarrow> log_system" where
  "log_unlock p s = s\<lparr>ls_owner := None, ls_phase := (ls_phase s)(p := Idle),
     ls_history := butlast (ls_history s) @ [(fst (last (ls_history s)), True)]\<rparr>"

definition log_kill :: "nat \<Rightarrow> log_system \<Rightarrow> log_system" where
  "log_kill p s = s\<lparr>ls_buffer := (ls_buffer s)(p := []), ls_phase := (ls_phase s)(p := Killed)\<rparr>"

inductive log_step :: "bool \<Rightarrow> log_system \<Rightarrow> log_system \<Rightarrow> bool" for flushes where
  step_lock: "ls_phase s p = Idle \<Longrightarrow> mutex_free s \<Longrightarrow> log_step flushes s (log_lock p res s)"
| step_write: "ls_phase s p = Locked res \<Longrightarrow> log_step flushes s (log_write p res n s)"
| step_flush: "flushes \<Longrightarrow> ls_phase s p = Written \<Longrightarrow> log_step flushes s (log_flush p s)"
| step_unlock: "ls_phase s p = (if flushes then Flushed else Written) \<Longrightarrow> log_step flushes s (log_unlock p s)"
| step_kill: "ls_phase s p \<noteq> Killed \<Longrightarrow> log_step flushes s (log_kill p s)"

inductive log_reaches :: "bool \<Rightarrow> log_system \<Rightarrow> bool" for flushes where
  log_init: "log_reaches flushes log_start"
| log_next: "log_reaches flushes s \<Longrightarrow> log_step flushes s s' \<Longrightarrow> log_reaches flushes s'"

section \<open>Writers that flush\<close>

text \<open>Which part of a text of the history is in the file.\<close>

definition written_part :: "string \<times> bool \<Rightarrow> string \<Rightarrow> bool" where
  "written_part e part \<longleftrightarrow> prefix part (fst e) \<and> (snd e \<longrightarrow> part = fst e)"

definition in_progress :: "log_system \<Rightarrow> nat \<Rightarrow> string \<Rightarrow> bool" where
  "in_progress s p part \<longleftrightarrow> ls_history s \<noteq> [] \<and>
     (let res = fst (last (ls_history s)) in
      ls_phase s p = Locked res \<and> part = [] \<and> ls_buffer s p = [] \<or>
      ls_phase s p = Written \<and> part @ ls_buffer s p = res \<or>
      ls_phase s p = Flushed \<and> part = res \<and> ls_buffer s p = [])"

definition log_inv :: "log_system \<Rightarrow> bool" where
  "log_inv s \<longleftrightarrow>
     (\<exists>parts. list_all2 written_part (ls_history s) parts \<and> ls_file s = concat parts \<and>
        (\<forall>p. ls_phase s p \<notin> {Idle, Killed} \<longrightarrow> ls_owner s = Some p \<and> in_progress s p (last parts))) \<and>
     (\<forall>p. ls_phase s p \<in> {Idle, Killed} \<longrightarrow> ls_buffer s p = [])"

lemma written_part_open: "written_part (res, False) part \<longleftrightarrow> prefix part res"
  by (simp add: written_part_def)

lemma list_all2_last:
  assumes "list_all2 P xs ys" "xs \<noteq> []" "P x y"
  shows "list_all2 P (butlast xs @ [x]) (butlast ys @ [y])"
  using assms
  by (simp add: list_all2_append list_all2_lengthD butlast_conv_take list_all2_takeI)

lemma concat_last: "ys \<noteq> [] \<Longrightarrow> concat (butlast ys @ [last ys @ z]) = concat ys @ z"
  by (metis append_assoc append_butlast_last_id concat.simps(1,2) concat_append append_Nil2)

lemma log_lock_inv:
  assumes "log_inv s" "ls_phase s p = Idle" "mutex_free s"
  shows "log_inv (log_lock p res s)"
proof -
  from assms(1) obtain parts where parts: "list_all2 written_part (ls_history s) parts" "ls_file s = concat parts"
      "\<forall>q. ls_phase s q \<notin> {Idle, Killed} \<longrightarrow> ls_owner s = Some q \<and> in_progress s q (last parts)"
    and bufs: "\<forall>q. ls_phase s q \<in> {Idle, Killed} \<longrightarrow> ls_buffer s q = []"
    unfolding log_inv_def by blast
  have others: "ls_phase s q \<in> {Idle, Killed}" for q
    using parts(3) assms(3) by (auto simp: mutex_free_def split: option.splits)
  have "list_all2 written_part (ls_history s @ [(res, False)]) (parts @ [[]])"
    using parts(1) by (simp add: list_all2_appendI written_part_open)
  then show ?thesis
    unfolding log_inv_def
    using parts(2) others bufs assms(2)
    by (intro conjI exI [of _ "parts @ [[]]"]) (auto simp: log_lock_def in_progress_def Let_def)
qed

lemma extend_last:
  assumes "list_all2 written_part h parts" "h \<noteq> []" "prefix (last parts @ z) (fst (last h))"
  shows "list_all2 written_part h (butlast parts @ [last parts @ z])"
proof -
  have "parts \<noteq> []" using assms(1,2) by auto
  then have "written_part (last h) (last parts)"
    using assms(1,2) by (auto simp: list_all2_conv_all_nth last_conv_nth)
  then have "written_part (last h) (last parts @ z)"
    using assms(3) by (cases "snd (last h)") (simp_all add: written_part_def)
  from list_all2_last [OF assms(1,2) this] show ?thesis using assms(2) by simp
qed

lemma log_inv_active:
  assumes "log_inv s" "ls_phase s p \<notin> {Idle, Killed}"
  obtains parts where "list_all2 written_part (ls_history s) parts" "ls_file s = concat parts" "parts \<noteq> []"
    "ls_owner s = Some p" "in_progress s p (last parts)" "\<forall>q. q \<noteq> p \<longrightarrow> ls_phase s q \<in> {Idle, Killed} \<and> ls_buffer s q = []"
proof -
  from assms(1) obtain parts where parts: "list_all2 written_part (ls_history s) parts" "ls_file s = concat parts"
      "\<forall>q. ls_phase s q \<notin> {Idle, Killed} \<longrightarrow> ls_owner s = Some q \<and> in_progress s q (last parts)"
    and bufs: "\<forall>q. ls_phase s q \<in> {Idle, Killed} \<longrightarrow> ls_buffer s q = []"
    unfolding log_inv_def by blast
  have own: "ls_owner s = Some p" "in_progress s p (last parts)" using parts(3) assms(2) by blast+
  moreover have "parts \<noteq> []" using parts(1) own(2) by (auto simp: in_progress_def)
  moreover have "\<forall>q. q \<noteq> p \<longrightarrow> ls_phase s q \<in> {Idle, Killed} \<and> ls_buffer s q = []"
    using parts(3) bufs own(1) by (metis option.inject)
  ultimately show thesis using that parts(1,2) by blast
qed

lemma log_write_inv:
  assumes "log_inv s" "ls_phase s p = Locked res"
  shows "log_inv (log_write p res n s)"
proof -
  obtain parts where parts: "list_all2 written_part (ls_history s) parts" "ls_file s = concat parts" "parts \<noteq> []"
      "ls_owner s = Some p" "in_progress s p (last parts)"
      "\<forall>q. q \<noteq> p \<longrightarrow> ls_phase s q \<in> {Idle, Killed} \<and> ls_buffer s q = []"
    using log_inv_active [OF assms(1), of p] assms(2) by auto
  have now: "ls_history s \<noteq> []" "res = fst (last (ls_history s))" "last parts = []" "ls_buffer s p = []"
    using parts(5) assms(2) by (auto simp: in_progress_def Let_def)
  let ?parts = "butlast parts @ [last parts @ take n res]"
  have "list_all2 written_part (ls_history s) ?parts"
    by (rule extend_last [OF parts(1) now(1)]) (simp add: now(2,3) take_is_prefix)
  moreover have "concat ?parts = ls_file s @ take n res" using concat_last [OF parts(3)] parts(2) by simp
  ultimately show ?thesis
    unfolding log_inv_def
    using parts(4,6) now
    by (intro conjI exI [of _ ?parts]) (auto simp: log_write_def in_progress_def Let_def)
qed

lemma log_flush_inv:
  assumes "log_inv s" "ls_phase s p = Written"
  shows "log_inv (log_flush p s)"
proof -
  obtain parts where parts: "list_all2 written_part (ls_history s) parts" "ls_file s = concat parts" "parts \<noteq> []"
      "ls_owner s = Some p" "in_progress s p (last parts)"
      "\<forall>q. q \<noteq> p \<longrightarrow> ls_phase s q \<in> {Idle, Killed} \<and> ls_buffer s q = []"
    using log_inv_active [OF assms(1), of p] assms(2) by auto
  have now: "ls_history s \<noteq> []" "last parts @ ls_buffer s p = fst (last (ls_history s))"
    using parts(5) assms(2) by (auto simp: in_progress_def Let_def)
  let ?parts = "butlast parts @ [last parts @ ls_buffer s p]"
  have "list_all2 written_part (ls_history s) ?parts"
    by (rule extend_last [OF parts(1) now(1)]) (simp add: now(2))
  moreover have "concat ?parts = ls_file s @ ls_buffer s p" using concat_last [OF parts(3)] parts(2) by simp
  ultimately show ?thesis
    unfolding log_inv_def
    using parts(4,6) now
    by (intro conjI exI [of _ ?parts]) (auto simp: log_flush_def in_progress_def Let_def)
qed

lemma log_unlock_inv:
  assumes "log_inv s" "ls_phase s p = Flushed"
  shows "log_inv (log_unlock p s)"
proof -
  obtain parts where parts: "list_all2 written_part (ls_history s) parts" "ls_file s = concat parts" "parts \<noteq> []"
      "ls_owner s = Some p" "in_progress s p (last parts)"
      "\<forall>q. q \<noteq> p \<longrightarrow> ls_phase s q \<in> {Idle, Killed} \<and> ls_buffer s q = []"
    using log_inv_active [OF assms(1), of p] assms(2) by auto
  have now: "ls_history s \<noteq> []" "last parts = fst (last (ls_history s))" "ls_buffer s p = []"
    using parts(5) assms(2) by (auto simp: in_progress_def Let_def)
  have "list_all2 written_part (butlast (ls_history s) @ [(fst (last (ls_history s)), True)]) (butlast parts @ [last parts])"
    by (rule list_all2_last [OF parts(1) now(1)]) (simp add: written_part_def now(2))
  then have "list_all2 written_part (butlast (ls_history s) @ [(fst (last (ls_history s)), True)]) parts"
    using parts(3) by (simp only: append_butlast_last_id not_False_eq_True)
  then show ?thesis
    unfolding log_inv_def
    using parts(2,3,6) now
    by (intro conjI exI [of _ parts]) (auto simp: log_unlock_def)
qed

lemma log_kill_inv: "log_inv s \<Longrightarrow> log_inv (log_kill p s)"
  unfolding log_inv_def by (fastforce simp: log_kill_def in_progress_def Let_def)

lemma log_reaches_inv: "log_reaches True s \<Longrightarrow> log_inv s"
proof (induction rule: log_reaches.induct)
  case log_init
  then show ?case by (simp add: log_inv_def log_start_def)
next
  case (log_next s s')
  from log_next(2) show ?case
    using log_next(3) by cases (simp_all add: log_lock_inv log_write_inv log_flush_inv log_unlock_inv log_kill_inv)
qed

lemma write_files:
  "gFile_open g \<Longrightarrow> fold (write_file True) txs g = g\<lparr>gFile := gFile g @ concat txs\<rparr>"
proof (induction txs arbitrary: g)
  case (Cons tx txs)
  then show ?case by (simp add: write_file_def)
qed simp

lemma all_finished: "list_all2 written_part h parts \<Longrightarrow> \<forall>e \<in> set h. snd e \<Longrightarrow> parts = map fst h"
  by (induction rule: list_all2_induct) (auto simp: written_part_def)

text \<open>C12: reports written by \<open>writeDifferences\<close> never mix in the log file, whatever the processes, the stream buffers
  and the moments at which processes are killed: the file consists of the texts in the order in which the mutex was taken for
  them, those of finished writers whole, those of writers that are not finished or were killed up to some point. When all are
  finished, the file is what the same texts give when each is appended in one step, as the model of the writers does.\<close>

theorem log_records_whole:
  assumes "log_reaches True s" "gFile_open g"
  shows "\<exists>parts. ls_file s = concat parts \<and>
      list_all2 (\<lambda>(res, finished) part. prefix part res \<and> (finished \<longrightarrow> part = res)) (ls_history s) parts \<and>
      ((\<forall>(res, finished) \<in> set (ls_history s). finished) \<longrightarrow>
         fold (write_file True) (map fst (ls_history s)) g = g\<lparr>gFile := gFile g @ ls_file s\<rparr>)"
proof -
  obtain parts where parts: "list_all2 written_part (ls_history s) parts" "ls_file s = concat parts"
    using log_reaches_inv [OF assms(1)] by (auto simp: log_inv_def)
  have w: "written_part = (\<lambda>(res, finished) part. prefix part res \<and> (finished \<longrightarrow> part = res))"
    by (auto simp: written_part_def fun_eq_iff)
  have "fold (write_file True) (map fst (ls_history s)) g = g\<lparr>gFile := gFile g @ ls_file s\<rparr>"
    if "\<forall>(res, finished) \<in> set (ls_history s). finished"
  proof -
    have "\<forall>e \<in> set (ls_history s). snd e" using that by auto
    then show ?thesis
      using all_finished [OF parts(1)] parts(2) write_files [OF assms(2), of "map fst (ls_history s)"] by simp
  qed
  then show ?thesis using parts by (auto simp: w)
qed

lemma one_report: "log_reaches True (log_unlock 0 (log_flush 0 (log_write 0 ''ab'' 1 (log_lock 0 ''ab'' log_start))))"
proof -
  have "log_reaches True (log_lock 0 ''ab'' log_start)"
    by (rule log_next [OF log_init step_lock]) (simp_all add: log_start_def mutex_free_def)
  then have "log_reaches True (log_write 0 ''ab'' 1 (log_lock 0 ''ab'' log_start))"
    by (rule log_next [OF _ step_write]) (simp add: log_lock_def)
  then have "log_reaches True (log_flush 0 (log_write 0 ''ab'' 1 (log_lock 0 ''ab'' log_start)))"
    by (rule log_next [OF _ step_flush]) (simp_all add: log_write_def Let_def)
  then show ?thesis by (rule log_next [OF _ step_unlock]) (simp add: log_flush_def)
qed

theorem log_records_whole_witness:
  "fold (write_file True) [''ab''] (compare_globals\<lparr>gFile_open := True\<rparr>) = compare_globals\<lparr>gFile_open := True, gFile := ''ab''\<rparr>"
  using log_records_whole [OF one_report, of "compare_globals\<lparr>gFile_open := True\<rparr>"]
  by (auto simp: log_unlock_def log_flush_def log_write_def log_lock_def log_start_def compare_globals_def Let_def)

section \<open>Writers that do not flush\<close>


section \<open>The mutex is ready\<close>

text \<open>If no process is between the two operations of the creation, what \<open>getGlobalMutex\<close> returns has been initialised;
  otherwise it may return a mutex that has not.\<close>

lemma getGlobalMutex_ready:
  assumes "shm_exists m \<longrightarrow> shm_ready m" "getGlobalMutex creates opens False m = (True, mutex, m')"
  shows "shm_exists m' \<and> shm_ready m'"
  using assms
  by (auto simp: getGlobalMutex_def createGlobalMutex_def shm_create_def shm_init_def split: if_splits)

lemma getGlobalMutex_race:
  "shm_create True shm_empty = (ShmNew, m) \<Longrightarrow> getGlobalMutex True True False m = (True, True, m) \<and> \<not> shm_ready m"
  by (auto simp: shm_create_def shm_empty_def getGlobalMutex_def createGlobalMutex_def)

end
