(* ===== verification/Log_Syslog.thy ===== *)
theory Log_Syslog
  imports External_Lib Std_Map
begin

unbundle bit_operations_syntax

text \<open>
  The wrapper of syslog (Log.cc): the only instance with its facility, and the macro that sends a message. Messages are
  formats with their arguments; the other theories keep of it what they need.
\<close>

section \<open>Levels and facilities\<close>

datatype log_level = LOG_CRIT | LOG_ERR | LOG_WARNING | LOG_NOTICE | LOG_INFO | LOG_DEBUG

text \<open>The values of sys/syslog.h.\<close>

fun level_code :: "log_level \<Rightarrow> int" where
  "level_code LOG_CRIT = 2"
| "level_code LOG_ERR = 3"
| "level_code LOG_WARNING = 4"
| "level_code LOG_NOTICE = 5"
| "level_code LOG_INFO = 6"
| "level_code LOG_DEBUG = 7"

definition LOG_LOCAL :: "int \<Rightarrow> int" where
  "LOG_LOCAL n = (16 + n) * 8"

definition setStrToFacility :: "(string, int) std_map" where
  "setStrToFacility = foldl (\<lambda>m (k, v). map_put k v m) []
     [(''LOCAL0'', LOG_LOCAL 0), (''LOCAL1'', LOG_LOCAL 1), (''LOCAL2'', LOG_LOCAL 2), (''LOCAL3'', LOG_LOCAL 3),
      (''LOCAL4'', LOG_LOCAL 4), (''LOCAL5'', LOG_LOCAL 5), (''LOCAL6'', LOG_LOCAL 6), (''LOCAL7'', LOG_LOCAL 7)]"

definition strToFacility :: "ext_lib \<Rightarrow> string \<Rightarrow> int" where
  "strToFacility E facility =
     (case map_find setStrToFacility (to_upper E facility) of None \<Rightarrow> LOG_LOCAL 2 | Some f \<Rightarrow> f)"

fun stringLevel :: "int \<Rightarrow> string" where
  "stringLevel pLevel =
     (if pLevel = 7 then ''debug'' else if pLevel = 6 then ''info'' else if pLevel = 5 then ''notice''
      else if pLevel = 4 then ''warn'' else if pLevel = 3 then ''error'' else if pLevel = 2 then ''crit'' else ''debug'')"

section \<open>The instance\<close>

text \<open>\<open>gInstance\<close> is the facility of the only instance, \<open>None\<close> for the null pointer. What goes out is a format with its
  arguments: to syslog with its priority, and to the standard output. The C library formats.\<close>

datatype log_output = Syslog int string "string list" | Stdout string "string list"

record log_state =
  gInstance :: "int option"
  gLogLevel :: int
  log_out :: "log_output list"

definition log_globals :: log_state where
  "log_globals = \<lparr>gInstance = None, gLogLevel = level_code LOG_DEBUG, log_out = []\<rparr>"

definition log_init_facility :: "int \<Rightarrow> log_state \<Rightarrow> log_state" where
  "log_init_facility pFacility s = (case gInstance s of None \<Rightarrow> s\<lparr>gInstance := Some pFacility\<rparr> | Some f \<Rightarrow> s)"

definition log_init_string :: "ext_lib \<Rightarrow> string \<Rightarrow> log_state \<Rightarrow> log_state" where
  "log_init_string E pFacility s = log_init_facility (strToFacility E pFacility) s"

definition log_init_default :: "log_state \<Rightarrow> log_state" where
  "log_init_default s = log_init_facility (LOG_LOCAL 2) s"

definition log_close :: "log_state \<Rightarrow> log_state" where
  "log_close s = (case gInstance s of None \<Rightarrow> s | Some f \<Rightarrow> s\<lparr>gInstance := None\<rparr>)"

definition LOG_LENGTH :: nat where
  "LOG_LENGTH = 16384"

text \<open>The macro: the message goes to syslog as it is, the buffer with the code in front is filled and not used; the text for the
  standard output is cut to the buffer. Logging without an instance dereferences a null pointer, here \<open>None\<close>.\<close>

definition VLOG :: "log_level \<Rightarrow> int \<Rightarrow> string \<Rightarrow> string list \<Rightarrow> log_state \<Rightarrow> log_state option" where
  "VLOG level code msg args s =
     (case gInstance s of
        None \<Rightarrow> None
      | Some f \<Rightarrow>
          (let s1 = s\<lparr>log_out := log_out s @ [Syslog (level_code level OR f) msg args]\<rparr>
           in if level_code level \<le> gLogLevel s
              then Some (s1\<lparr>log_out := log_out s1 @
                     [Stdout (take (LOG_LENGTH - 1) (''['' @ stringLevel (level_code level) @ ''] code:'' @ show_int code @ '' - '' @
                        msg @ [NL])) args]\<rparr>)
              else Some s1))"

text \<open>\<open>debug_build\<close>: whether the macro \<open>DEBUG\<close> is defined.\<close>

definition log_debug :: "bool \<Rightarrow> string \<Rightarrow> string list \<Rightarrow> log_state \<Rightarrow> log_state option" where
  "log_debug debug_build pMsg args s = (if debug_build then VLOG LOG_DEBUG 0 pMsg args s else Some s)"

definition log_info :: "int \<Rightarrow> string \<Rightarrow> string list \<Rightarrow> log_state \<Rightarrow> log_state option" where
  "log_info pCode pMsg args s = VLOG LOG_INFO pCode pMsg args s"

definition log_notice :: "int \<Rightarrow> string \<Rightarrow> string list \<Rightarrow> log_state \<Rightarrow> log_state option" where
  "log_notice pCode pMsg args s = VLOG LOG_NOTICE pCode pMsg args s"

definition log_warn :: "int \<Rightarrow> string \<Rightarrow> string list \<Rightarrow> log_state \<Rightarrow> log_state option" where
  "log_warn pCode pMsg args s = VLOG LOG_WARNING pCode pMsg args s"

definition log_error_out :: "int \<Rightarrow> string \<Rightarrow> string list \<Rightarrow> log_state \<Rightarrow> log_state option" where
  "log_error_out pCode pMsg args s = VLOG LOG_ERR pCode pMsg args s"

definition log_crit :: "int \<Rightarrow> string \<Rightarrow> string list \<Rightarrow> log_state \<Rightarrow> log_state option" where
  "log_crit pCode pMsg args s = VLOG LOG_CRIT pCode pMsg args s"

section \<open>Lemmas\<close>

lemma strToFacility_range: "\<exists>n. 0 \<le> n \<and> n \<le> 7 \<and> strToFacility E f = LOG_LOCAL n"
proof (cases "map_find setStrToFacility (to_upper E f)")
  case None
  then show ?thesis by (intro exI [of _ 2]) (simp add: strToFacility_def)
next
  case (Some v)
  have "map_wf setStrToFacility" unfolding setStrToFacility_def by (rule smap.put_all_invar) simp
  then have "(to_upper E f, v) \<in> set setStrToFacility" using Some by (simp add: map_find_entries)
  then have "v \<in> LOG_LOCAL ` {0..7}" by (auto simp: setStrToFacility_def)
  then show ?thesis using Some by (auto simp: strToFacility_def)
qed

text \<open>The priority holds the level and the facility side by side.\<close>

lemma priority_fields:
  assumes "0 \<le> n" "n \<le> 7"
  shows "(level_code l OR LOG_LOCAL n) mod 8 = level_code l" "(level_code l OR LOG_LOCAL n) div 8 = 16 + n"
proof -
  have "n = 0 \<or> n = 1 \<or> n = 2 \<or> n = 3 \<or> n = 4 \<or> n = 5 \<or> n = 6 \<or> n = 7" using assms by presburger
  then have "level_code l OR LOG_LOCAL n = (16 + n) * 8 + level_code l" by (cases l) (auto simp: LOG_LOCAL_def)
  moreover have "0 \<le> level_code l" "level_code l < 8" by (cases l; simp)+
  ultimately show "(level_code l OR LOG_LOCAL n) mod 8 = level_code l" "(level_code l OR LOG_LOCAL n) div 8 = 16 + n"
    by presburger+
qed

text \<open>The first initialisation after a close decides the facility.\<close>

lemma first_init_wins: "gInstance (fold log_init_facility fs (log_init_facility f (log_close s))) = Some f"
proof -
  have "gInstance (fold log_init_facility fs u) = Some f" if "gInstance u = Some f" for u
    using that by (induction fs arbitrary: u) (simp_all add: log_init_facility_def)
  then show ?thesis by (auto simp: log_init_facility_def log_close_def split: option.split)
qed

text \<open>After \<open>CompareLog SYSLOG\<close>, which closes the log and opens it for the facility of the directive, every message goes to
  that facility with its level, whatever initialisations follow: in the configuration of the other modules or in
  \<open>postConfig\<close>.\<close>

lemma configured_facility:
  assumes "s' = fold log_init_facility fs (log_init_string E facility (log_close s))"
  shows "\<exists>prio rest. map_option log_out (VLOG level code msg args s') = Some (log_out s' @ Syslog prio msg args # rest) \<and>
    prio mod 8 = level_code level \<and> prio div 8 * 8 = strToFacility E facility"
proof -
  obtain n where n: "0 \<le> n" "n \<le> 7" "strToFacility E facility = LOG_LOCAL n" using strToFacility_range by blast
  have i: "gInstance s' = Some (LOG_LOCAL n)" using first_init_wins assms n(3) by (simp add: log_init_string_def)
  show ?thesis
    using priority_fields [OF n(1,2), of level] n(3)
    by (intro exI [of _ "level_code level OR LOG_LOCAL n"]) (auto simp: VLOG_def i LOG_LOCAL_def Let_def)
qed

end
