(* ===== verification/Module_Registration.thy ===== *)
theory Module_Registration
  imports Dup_Config Migrate_Config Compare_Config Log_Syslog
begin

text \<open>
  How the three modules attach themselves to Apache (\<open>registerHooks\<close> in mod_dup.cc, mod_compare.cc and
  mod_migrate.cc): the hooks they ask to be called from, the filters they register under a name, and the
  filters the insert hooks add to a request. Apache keeps what is registered in a table; the calls that
  register are additions to its lists. A handler is named by a constructor. Apache orders the filters of a
  request by their type; this is the hypothesis \<open>in_type_order\<close> on a chain of filters.
\<close>

section \<open>The tables of Apache\<close>

datatype ap_filter_type =
    AP_FTYPE_RESOURCE | AP_FTYPE_CONTENT_SET | AP_FTYPE_PROTOCOL | AP_FTYPE_TRANSCODE
  | AP_FTYPE_CONNECTION | AP_FTYPE_NETWORK

primrec ftype_rank :: "ap_filter_type \<Rightarrow> nat" where
  "ftype_rank AP_FTYPE_RESOURCE = 10"
| "ftype_rank AP_FTYPE_CONTENT_SET = 20"
| "ftype_rank AP_FTYPE_PROTOCOL = 30"
| "ftype_rank AP_FTYPE_TRANSCODE = 40"
| "ftype_rank AP_FTYPE_CONNECTION = 50"
| "ftype_rank AP_FTYPE_NETWORK = 60"

instantiation ap_filter_type :: linorder
begin

definition less_eq_ap_filter_type :: "ap_filter_type \<Rightarrow> ap_filter_type \<Rightarrow> bool" where
  "less_eq_ap_filter_type t u \<longleftrightarrow> ftype_rank t \<le> ftype_rank u"

definition less_ap_filter_type :: "ap_filter_type \<Rightarrow> ap_filter_type \<Rightarrow> bool" where
  "less_ap_filter_type t u \<longleftrightarrow> ftype_rank t < ftype_rank u"

instance
proof
  fix t u :: ap_filter_type
  show "t \<le> u \<Longrightarrow> u \<le> t \<Longrightarrow> t = u" by (cases t; cases u; simp add: less_eq_ap_filter_type_def)
qed (auto simp: less_eq_ap_filter_type_def less_ap_filter_type_def)

end

datatype hook_order = APR_HOOK_FIRST | APR_HOOK_MIDDLE | APR_HOOK_LAST

datatype handler =
    Dup_postConfig | Dup_childInit | Dup_inputFilterHandler | Dup_outputBodyFilterHandler
  | Dup_outputHeadersFilterHandler | Dup_insertInputFilter | Dup_insertOutputBodyFilter | Dup_insertOutputHeadersFilter
  | Compare_postConfig | Compare_childInit | Compare_inputFilterHandler | Compare_outputFilterHandler
  | Compare_outputFilterHandler2 | Compare_insertOutputFilter | Compare_insertOutputFilter2 | Compare_translateHook
  | Migrate_postConfig | Migrate_inputFilterBody2Brigade | Migrate_translateHook | Migrate_insertInputFilter

record hook =
  hk_fn :: handler
  hk_pre :: "string list"
  hk_succ :: "string list"
  hk_order :: hook_order

record filter_rec =
  fr_name :: string
  fr_handler :: handler
  fr_type :: ap_filter_type

record ap_registry =
  post_config :: "hook list"
  child_init :: "hook list"
  translate_name :: "hook list"
  insert_filter :: "hook list"
  input_filters :: "filter_rec list"
  output_filters :: "filter_rec list"

definition no_hooks :: ap_registry where
  "no_hooks = \<lparr>post_config = [], child_init = [], translate_name = [], insert_filter = [],
     input_filters = [], output_filters = []\<rparr>"

abbreviation mk_hook :: "handler \<Rightarrow> string list \<Rightarrow> string list \<Rightarrow> hook_order \<Rightarrow> hook" where
  "mk_hook f pre post o' \<equiv> \<lparr>hk_fn = f, hk_pre = pre, hk_succ = post, hk_order = o'\<rparr>"

abbreviation mk_filter :: "string \<Rightarrow> handler \<Rightarrow> ap_filter_type \<Rightarrow> filter_rec" where
  "mk_filter n f t \<equiv> \<lparr>fr_name = n, fr_handler = f, fr_type = t\<rparr>"

definition ap_hook_post_config :: "hook \<Rightarrow> ap_registry \<Rightarrow> ap_registry" where
  "ap_hook_post_config h rg = rg\<lparr>post_config := post_config rg @ [h]\<rparr>"

definition ap_hook_child_init :: "hook \<Rightarrow> ap_registry \<Rightarrow> ap_registry" where
  "ap_hook_child_init h rg = rg\<lparr>child_init := child_init rg @ [h]\<rparr>"

definition ap_hook_translate_name :: "hook \<Rightarrow> ap_registry \<Rightarrow> ap_registry" where
  "ap_hook_translate_name h rg = rg\<lparr>translate_name := translate_name rg @ [h]\<rparr>"

definition ap_hook_insert_filter :: "hook \<Rightarrow> ap_registry \<Rightarrow> ap_registry" where
  "ap_hook_insert_filter h rg = rg\<lparr>insert_filter := insert_filter rg @ [h]\<rparr>"

definition ap_register_input_filter :: "filter_rec \<Rightarrow> ap_registry \<Rightarrow> ap_registry" where
  "ap_register_input_filter f rg = rg\<lparr>input_filters := input_filters rg @ [f]\<rparr>"

definition ap_register_output_filter :: "filter_rec \<Rightarrow> ap_registry \<Rightarrow> ap_registry" where
  "ap_register_output_filter f rg = rg\<lparr>output_filters := output_filters rg @ [f]\<rparr>"

section \<open>Registration\<close>

definition dup_gName :: string where "dup_gName = ''Dup''"
definition gNameOutBody :: string where "gNameOutBody = ''DupOutBody''"
definition gNameOutHeaders :: string where "gNameOutHeaders = ''DupOutHeaders''"
definition compare_gName :: string where "compare_gName = ''Compare''"
definition gNameOut :: string where "gNameOut = ''CompareOut''"
definition gNameOut2 :: string where "gNameOut2 = ''CompareOut2''"
definition gNameBody2Brigade :: string where "gNameBody2Brigade = ''MigrateBody2Brigade''"

definition dup_registerHooks :: "ap_registry \<Rightarrow> ap_registry" where
  "dup_registerHooks rg =
     (let rg = ap_hook_post_config (mk_hook Dup_postConfig [] [] APR_HOOK_MIDDLE) rg;
          rg = ap_hook_child_init (mk_hook Dup_childInit [] [] APR_HOOK_MIDDLE) rg;
          rg = ap_register_input_filter (mk_filter dup_gName Dup_inputFilterHandler AP_FTYPE_CONTENT_SET) rg;
          rg = ap_register_output_filter (mk_filter gNameOutBody Dup_outputBodyFilterHandler AP_FTYPE_RESOURCE) rg;
          rg = ap_register_output_filter (mk_filter gNameOutHeaders Dup_outputHeadersFilterHandler AP_FTYPE_TRANSCODE) rg;
          rg = ap_hook_insert_filter (mk_hook Dup_insertInputFilter [] [] APR_HOOK_MIDDLE) rg;
          rg = ap_hook_insert_filter (mk_hook Dup_insertOutputBodyFilter [] [] APR_HOOK_LAST) rg
      in ap_hook_insert_filter (mk_hook Dup_insertOutputHeadersFilter [] [] APR_HOOK_LAST) rg)"

definition compare_registerHooks :: "ap_registry \<Rightarrow> ap_registry" where
  "compare_registerHooks rg =
     (let rg = ap_hook_post_config (mk_hook Compare_postConfig [] [] APR_HOOK_MIDDLE) rg;
          rg = ap_hook_child_init (mk_hook Compare_childInit [] [] APR_HOOK_MIDDLE) rg;
          rg = ap_register_input_filter (mk_filter compare_gName Compare_inputFilterHandler AP_FTYPE_RESOURCE) rg;
          rg = ap_register_output_filter (mk_filter gNameOut Compare_outputFilterHandler AP_FTYPE_RESOURCE) rg;
          rg = ap_register_output_filter (mk_filter gNameOut2 Compare_outputFilterHandler2 AP_FTYPE_TRANSCODE) rg;
          rg = ap_hook_insert_filter (mk_hook Compare_insertOutputFilter [] [] APR_HOOK_LAST) rg;
          rg = ap_hook_insert_filter (mk_hook Compare_insertOutputFilter2 [] [] APR_HOOK_LAST) rg
      in ap_hook_translate_name (mk_hook Compare_translateHook [] [] APR_HOOK_MIDDLE) rg)"

definition migrate_registerHooks :: "ap_registry \<Rightarrow> ap_registry" where
  "migrate_registerHooks rg =
     (let rg = ap_hook_post_config (mk_hook Migrate_postConfig [] [] APR_HOOK_MIDDLE) rg;
          rg = ap_register_input_filter (mk_filter gNameBody2Brigade Migrate_inputFilterBody2Brigade AP_FTYPE_CONTENT_SET) rg;
          beforeRewrite = [''mod_rewrite.c''];
          rg = ap_hook_translate_name (mk_hook Migrate_translateHook [] beforeRewrite APR_HOOK_MIDDLE) rg
      in ap_hook_insert_filter (mk_hook Migrate_insertInputFilter [] [] APR_HOOK_FIRST) rg)"

text \<open>The post-config hooks that only start the log and announce a version.\<close>

record server_state =
  sv_log :: log_state
  sv_versions :: "string list"

definition dup_postConfig :: "server_state \<Rightarrow> int \<times> server_state" where
  "dup_postConfig s = (0, s\<lparr>sv_log := log_init_default (sv_log s), sv_versions := sv_versions s @ [''Dup/1.0'']\<rparr>)"

definition migrate_postConfig :: "server_state \<Rightarrow> apr_status \<times> server_state" where
  "migrate_postConfig s =
     (APR_SUCCESS, s\<lparr>sv_log := log_init_default (sv_log s), sv_versions := sv_versions s @ [''Migrate/1.0'']\<rparr>)"

section \<open>The filters of a request\<close>

text \<open>What each insert hook adds, by the name it passes to \<open>ap_add_input_filter\<close> or
  \<open>ap_add_output_filter\<close>: the name and whether it is an output filter. \<open>None\<close> is a failed assertion.\<close>

fun run_insert_hook ::
  "DupConf \<Rightarrow> CompareConf option \<Rightarrow> 't migrate_request \<Rightarrow> handler \<Rightarrow> (string \<times> bool) list option" where
  "run_insert_hook dc cc mr Dup_insertInputFilter =
     Some (if FilterIn \<in> set (insertFilters dc) then [(dup_gName, False)] else [])"
| "run_insert_hook dc cc mr Dup_insertOutputBodyFilter =
     Some (if FilterOutBody \<in> set (insertFilters dc) then [(gNameOutBody, True)] else [])"
| "run_insert_hook dc cc mr Dup_insertOutputHeadersFilter =
     Some (if FilterOutHeaders \<in> set (insertFilters dc) then [(gNameOutHeaders, True)] else [])"
| "run_insert_hook dc cc mr Compare_insertOutputFilter =
     map_option (\<lambda>active. if active then [(gNameOut, True)] else []) (insertOutputFilter cc)"
| "run_insert_hook dc cc mr Compare_insertOutputFilter2 =
     map_option (\<lambda>active. if active then [(gNameOut2, True)] else []) (insertOutputFilter2 cc)"
| "run_insert_hook dc cc mr Migrate_insertInputFilter =
     map_option (\<lambda>active. if active then [(gNameBody2Brigade, False)] else []) (migrate_insertInputFilter mr)"
| "run_insert_hook dc cc mr _ = None"

definition all_modules :: ap_registry where
  "all_modules = migrate_registerHooks (compare_registerHooks (dup_registerHooks no_hooks))"

text \<open>A chain of output filters as Apache builds it: registered filters, lower types first.\<close>

definition in_type_order :: "filter_rec list \<Rightarrow> bool" where
  "in_type_order chain \<longleftrightarrow> sorted (map fr_type chain)"

lemmas registry_defs = all_modules_def dup_registerHooks_def compare_registerHooks_def migrate_registerHooks_def
  no_hooks_def ap_hook_post_config_def ap_hook_child_init_def ap_hook_translate_name_def ap_hook_insert_filter_def
  ap_register_input_filter_def ap_register_output_filter_def dup_gName_def gNameOutBody_def gNameOutHeaders_def
  compare_gName_def gNameOut_def gNameOut2_def gNameBody2Brigade_def

lemma type_order_before:
  assumes "in_type_order chain" and "i < length chain" "j < length chain" and "fr_type (chain ! i) < fr_type (chain ! j)"
  shows "i < j"
  using assms sorted_nth_mono [of "map fr_type chain" j i] by (force simp: in_type_order_def)

text \<open>Every hook that is registered to insert a filter inserts filters that are registered, in the direction it asks for;
  no two filters share a name; and the filters that collect a body run before the filters that use it.\<close>

lemma inserted_filters_registered:
  assumes "h \<in> set (insert_filter all_modules)" and "run_insert_hook dc cc mr (hk_fn h) = Some fs" and "(n, out) \<in> set fs"
  shows "n \<in> fr_name ` set (if out then output_filters all_modules else input_filters all_modules)"
  using assms by (auto simp: registry_defs Let_def split: if_splits)

lemma filter_names_distinct:
  "distinct (map fr_name (input_filters all_modules @ output_filters all_modules))"
  by (simp add: registry_defs Let_def)

lemma body_before_headers:
  assumes "in_type_order chain" and "set chain \<subseteq> set (output_filters all_modules)"
    and "i < length chain" "j < length chain"
    and "fr_name (chain ! i) = gNameOutBody \<and> fr_name (chain ! j) = gNameOutHeaders \<or>
         fr_name (chain ! i) = gNameOut \<and> fr_name (chain ! j) = gNameOut2"
  shows "i < j"
proof (rule type_order_before [OF assms(1,3,4)])
  have "chain ! i \<in> set (output_filters all_modules)" "chain ! j \<in> set (output_filters all_modules)"
    using assms(2-4) by auto
  then show "fr_type (chain ! i) < fr_type (chain ! j)"
    using assms(5) by (auto simp: registry_defs Let_def less_ap_filter_type_def)
qed

end
