(* ===== verification/Spec2Isabelle.thy ===== *)
theory Spec2Isabelle
  imports Dup_Prelude Std_Map External_Lib Request_Common Url_Codec Request_Info
    Multi_Thread_Queue Thread_Pool Dup_Commands Request_Filter Request_Substitution
    Request_Send Request_Run Deserialize Dup_Config Apache_Api Dup_Handlers Mod_Migrate Migrate_Config
    Diff_Printer Map_Compare Utf8 Utf8_Convert Utf8_Iterator
    Dtl_Diff Dtl_Correct Dtl_Search Dtl_Hunks Dtl_Unified Dtl_Shortest Dtl_Merge Dtl_Script String_Compare
    Mod_Compare Compare_Config Compare_Filters Compare_Report Compare_Replay Compare_Session Compare_Verdict
    Log_File Log_Syslog Module_Registration
begin

text \<open>
  mod_dup: three Apache modules that duplicate, compare and migrate requests.

  \<^bold>\<open>The program.\<close> mod_dup copies requests an Apache server answers to other servers; mod_compare,
  on such a server, replays a copied request and reports how its own response differs from the
  original one; mod_migrate sets environment variables from the parts of a request before mod_rewrite
  runs. A request goes through the parts in this order:

  \<^item> The filters of mod_dup (filters_dup.cc) collect the body of a request, the response headers and the
    answer in a \<open>RequestInfo\<close> and hand it to the processor, at once or through the queue.
  \<^item> The pool (MultiThreadQueue, ThreadPool.cc) keeps a bounded queue and a number of workers between two
    limits; a worker ends when it takes a pill.
  \<^item> The worker (RequestProcessor.cc) selects the destinations whose filters match, applies the
    substitutions to a copy and sends it with libcurl as often as the percentage asks for.
  \<^item> The filters of mod_compare (filters_compare.cc) give the request its method, headers and body back
    (deserialize.cc), collect the response of the replay and compare it with the original response
    (libws_diff: mapCompare.cc, stringCompare.cc on the vendored dtl), and write a report
    (response_diff.cc through the printers of libws_diff/DiffPrinter).
  \<^item> The hook of mod_migrate (filters_migrate.cc) reads the body, sets the variables and serves the
    body again.

  \<^bold>\<open>Theories.\<close> Each theory has the data of its part as records and datatypes with the names of the source, one
  definition per function, and below them the lemmas.

  \<^item> \<open>Dup_Prelude\<close>, \<open>Std_Map\<close>: operations of \<open>std::string\<close>, streams, \<open>std::map\<close> and \<open>std::multimap\<close>.
    \<open>External_Lib\<close>: boost as the record \<open>ext_lib\<close>. \<open>Apache_Api\<close>: tables as the record \<open>apr_lib\<close>, requests,
    buckets and the helpers of Utils.cc.
  \<^item> \<open>Request_Common\<close>, \<open>Request_Info\<close>, \<open>Url_Codec\<close>: RequestCommon.cc, RequestInfo.cc, UrlCodec.cc.
  \<^item> \<open>Multi_Thread_Queue\<close>, \<open>Thread_Pool\<close>: the queue, and the pool with a step relation for the interleaving of its
    manager with workers, producers and the end of threads.
  \<^item> \<open>Dup_Commands\<close>, \<open>Request_Filter\<close>, \<open>Request_Substitution\<close>, \<open>Request_Send\<close>, \<open>Request_Run\<close>: RequestProcessor.cc,
    from the registration of commands to the loop of the worker.
  \<^item> \<open>Dup_Config\<close>, \<open>Dup_Handlers\<close>: mod_dup.cc and filters_dup.cc. \<open>Mod_Migrate\<close>, \<open>Migrate_Config\<close>:
    mod_migrate.cc and filters_migrate.cc.
  \<^item> \<open>Deserialize\<close>: deserialize.cc. \<open>Diff_Printer\<close>, \<open>Map_Compare\<close>, \<open>String_Compare\<close>: libws_diff.
  \<^item> \<open>Utf8\<close>: validation and replacement of the vendored utf8 library. \<open>Utf8_Convert\<close>: its checked and unchecked readers
    and the conversions from and to UTF-16 and UTF-32. \<open>Utf8_Iterator\<close>: its steps backward and both iterator classes.
  \<^item> \<open>Dtl_Diff\<close>, \<open>Dtl_Hunks\<close>: edit scripts and unified hunks of the vendored dtl; \<open>Dtl_Correct\<close>, \<open>Dtl_Search\<close> and
    \<open>Dtl_Unified\<close> prove that they patch, \<open>Dtl_Shortest\<close> that they are shortest. \<open>Dtl_Merge\<close>: its three-way merge.
    \<open>Dtl_Script\<close>: queries on scripts, their printed form and its reader.
  \<^item> \<open>Mod_Compare\<close>, \<open>Compare_Filters\<close>: mod_compare.cc, response_diff.cc, CassandraDiff and filters_compare.cc;
    \<open>Compare_Report\<close> and \<open>Compare_Replay\<close> hold the properties of the report and of the replay. \<open>Compare_Config\<close> is
    its table of directives, \<open>Compare_Session\<close> the step relation of a request in the module with its invariant,
    \<open>Compare_Verdict\<close> the way of a duplicated request to the report.
  \<^item> \<open>Log_File\<close>: the mutex in shared memory and the processes that append to the log file, as interleaved steps.
    \<open>Log_Syslog\<close>: Log.cc. \<open>Module_Registration\<close>: the hooks, filters and directives each module registers with Apache.

  \<^bold>\<open>Interfaces.\<close> A component that relies on another does so through a locale, interpreted on the model of the
  provider: \<open>ordered_map\<close> and \<open>multimap_order\<close> (\<open>Std_Map\<close>), \<open>work_queue\<close> (\<open>Multi_Thread_Queue\<close>), \<open>url_codec_laws\<close>
  (\<open>Url_Codec\<close>), \<open>section_format\<close> (\<open>Deserialize\<close>), \<open>diff_printer\<close> (\<open>Diff_Printer\<close>), the abstract class of the
  printers with its three implementations, and \<open>bidirectional_walk\<close> (\<open>Utf8_Iterator\<close>), what both iterator classes promise.

  \<^bold>\<open>Parameters.\<close> Code outside the repository is an argument: \<open>ext_lib\<close> (boost), \<open>apr_lib\<close> (APR tables),
  \<open>diff_lib\<close> (jsoncpp), the network as a function from the requests sent so far to the result of the next, the brigades
  the input filters deliver as a stream, the archive format of boost serialization, clocks, random numbers and whether a file
  or the shared mutex can be had. Theorems name what they use of it (\<open>apr_documented\<close>, \<open>lexical_reads_decimals\<close>,
  \<open>join_intersperses\<close> and others), and \<open>ref_lib\<close>, \<open>ref_apr\<close> and \<open>ref_diff_lib\<close> show that it can hold. A
  member a constructor leaves uninitialised has the value of the argument \<open>mem\<close>.

  \<^bold>\<open>Results.\<close>
  \<^item> Duplication: the filters select exactly the destinations whose regular filters match and no
    preventing one; the worker sends to these alone and as often as configured; a request is duplicated once, with headers that
    are distinct and a body its type determines, and a chain of duplications is bounded.
  \<^item> Configuration: accepted directives leave the processor well-formed, the bounds of the pool ordered, and the
    highest duplication type above that of every filter.
  \<^item> Queue and pool: order, accounting and bound of the queue; the number of threads stays between its limits under
    every interleaving; at shutdown each worker gets a pill.
  \<^item> Replay and comparison: mod_compare reads back what mod_dup wrote, restores the request and serves its body; it reports
    exactly when headers or bodies differ under the configuration.
  \<^item> The vendored libraries: edit scripts and hunks patch the first sequence into the second, the search ends, and below the
    limit of 2,000,000 points of the search the script is a shortest one, with a longest common subsequence. The three-way merge
    takes each change that only one side made and keeps the common text. The output of the utf8 printer is valid UTF-8, texts
    survive the conversions, and the unchecked functions agree with the checked ones on valid text.
  \<^item> Migration: the variables are those the accepted directives ask for, the hook returns if the body ends, and the body is
    served again.
  \<^item> Composition: the request mod_dup sends, replayed by mod_compare, leads to a report exactly when the new response differs
    from the original one; on the way the state of the request stays well-formed and the body is never read past its end.
  \<^item> The log file: reports of different processes never mix, whatever the interleaving and whichever process is killed.
  \<^item> Errors of the code that modelling showed have theorems of their own: lost sections of the format, substitutions that
    never apply, a counter that wraps, archives that mix in the log file, a status difference that is never logged, hunks that
    cannot be applied twice.

  \<^bold>\<open>Bounds.\<close> Counters, sizes and offsets whose width matters are words of 32 or 64 bits, and theorems state
  the range they need. Loops that may run forever are partial functions with \<open>None\<close> for not returning: reading a body
  (it returns exactly when some brigade ends it), the search for a free field name of the json printer and the loops of the diff
  search (which always return). All other loops are structural or have a measure; there is no fuel.

  \<^bold>\<open>Not modelled.\<close> What Apache does with the registered tables; the arguments of log messages below the
  level error; permissions and sizes of the shared object; locking inside the filters of mod_dup, whose critical sections are
  single steps; of dtl the overloads with a comparator other than the equality of elements, and
  \<open>enableTrivial\<close>, any use of which fails to compile; tools, tests, configuration files and packaging.
\<close>

end
